(* ===== verification/Prelude.thy ===== *)
theory Prelude
  imports Complex_Main "HOL-Library.List_Lexorder" "HOL-Library.Char_ord"
    "HOL-Library.Product_Lexorder" "HOL-Library.Multiset"
begin

text \<open>
  What every component of the model shares: the conventions for Go values, and the generic
  lemmas the component theories rest on.

  \<^item> A Go \<^verbatim>\<open>error\<close> result is a sum: \<open>Inl\<close> is the error, \<open>Inr\<close> the value.
  \<^item> A Go \<^verbatim>\<open>int64\<close> is an \<open>int\<close>; where an operation can leave the 64-bit range the
    wrap-around is written out with \<open>i64\<close>.
  \<^item> A Go \<^verbatim>\<open>time.Time\<close> is the \<open>int\<close> of its nanoseconds since the Unix epoch (all the
    code's times are normalised to UTC); the zero time is January 1, year 1.
    \<^verbatim>\<open>Time.Sub\<close> saturates at the bounds of \<^verbatim>\<open>time.Duration\<close>, as the library does.
  \<^item> A finite \<^verbatim>\<open>float64\<close> is the rational number it denotes.
  \<^item> \<^verbatim>\<open>sort.Slice\<close> on a key is \<open>sort_key\<close>; \<open>sorted_perm_unique\<close> shows that every sorted
    permutation is that one when the keys are distinct, so the choice does not matter there.
\<close>

named_theorems go_time \<open>times and durations\<close>
named_theorems keyed \<open>lookups in lists and maps keyed by a field\<close>

subsection \<open>64-bit integers\<close>

definition i64 :: "int \<Rightarrow> int" where
  "i64 x = (x + 2 ^ 63) mod 2 ^ 64 - 2 ^ 63"

definition in_i64 :: "int \<Rightarrow> bool" where
  "in_i64 x \<longleftrightarrow> - (2 ^ 63) \<le> x \<and> x < 2 ^ 63"

lemma i64_id [simp]: "in_i64 x \<Longrightarrow> i64 x = x"
  by (simp add: in_i64_def i64_def)

lemma in_i64_i64 [simp]: "in_i64 (i64 x)"
  by (simp add: in_i64_def i64_def)

lemma i64_sub_nonneg:
  "0 \<le> a \<Longrightarrow> 0 \<le> b \<Longrightarrow> in_i64 a \<Longrightarrow> in_i64 b \<Longrightarrow> i64 (a - b) = a - b"
  by (rule i64_id) (simp add: in_i64_def)

subsection \<open>Times and durations\<close>

type_synonym time = int
type_synonym duration = int

definition second :: duration where "second = 10 ^ 9"
definition minute :: duration where "minute = 60 * second"
definition hour :: duration where "hour = 60 * minute"

definition zero_time :: time where "zero_time = - 62135596800 * 10 ^ 9"

definition is_zero :: "time \<Rightarrow> bool" where "is_zero t \<longleftrightarrow> t = zero_time"

text \<open>\<^verbatim>\<open>t.Unix()\<close> and \<^verbatim>\<open>time.Unix(s, 0)\<close>.\<close>

definition unix_secs :: "time \<Rightarrow> int" where "unix_secs t = t div 10 ^ 9"
definition unix_time :: "int \<Rightarrow> time" where "unix_time s = s * 10 ^ 9"

definition min_duration :: duration where "min_duration = - (2 ^ 63)"
definition max_duration :: duration where "max_duration = 2 ^ 63 - 1"

definition time_sub :: "time \<Rightarrow> time \<Rightarrow> duration" where
  "time_sub t u = max min_duration (min max_duration (t - u))"

lemma unix_secs_unix_time [simp]: "unix_secs (unix_time s) = s"
  by (simp add: unix_secs_def unix_time_def)

lemma unix_time_mono [simp]: "unix_time a \<le> unix_time b \<longleftrightarrow> a \<le> b"
  by (simp add: unix_time_def)

lemma unix_time_strict [simp]: "unix_time a < unix_time b \<longleftrightarrow> a < b" "unix_time a = unix_time b \<longleftrightarrow> a = b"
  by (simp_all add: unix_time_def)

lemma time_sub_self [simp]: "time_sub t t = 0"
  by (simp add: time_sub_def min_duration_def max_duration_def)

text \<open>Within 292 years the saturating difference is the difference.\<close>

lemma time_sub_exact:
  "min_duration \<le> t - u \<Longrightarrow> t - u \<le> max_duration \<Longrightarrow> time_sub t u = t - u"
  by (simp add: time_sub_def)

lemma time_sub_ge_iff: "min_duration < d \<Longrightarrow> d \<le> max_duration \<Longrightarrow> d \<le> time_sub t u \<longleftrightarrow> d \<le> t - u"
  by (auto simp: time_sub_def min_def max_def)

lemma time_sub_le_iff: "min_duration \<le> d \<Longrightarrow> d < max_duration \<Longrightarrow> time_sub t u \<le> d \<longleftrightarrow> t - u \<le> d"
  by (auto simp: time_sub_def min_def max_def)

lemma time_sub_mono: "t \<le> t' \<Longrightarrow> time_sub t u \<le> time_sub t' u"
  by (auto simp: time_sub_def min_def max_def)

lemma time_sub_nonneg [simp]: "u \<le> t \<Longrightarrow> 0 \<le> time_sub t u"
  by (auto simp: time_sub_def min_duration_def max_duration_def)

lemmas [go_time] = second_def minute_def hour_def min_duration_def max_duration_def

subsection \<open>Sorting\<close>

text \<open>
  A stable sort by a \<open>less\<close> predicate, as \<^verbatim>\<open>sort.SliceStable\<close> takes one; it is \<open>sort_key\<close>
  when the predicate compares keys.
\<close>

fun insert_by :: "('a \<Rightarrow> 'a \<Rightarrow> bool) \<Rightarrow> 'a \<Rightarrow> 'a list \<Rightarrow> 'a list" where
  "insert_by lt x [] = [x]"
| "insert_by lt x (y # ys) = (if lt y x then y # insert_by lt x ys else x # y # ys)"

definition stable_sort_by :: "('a \<Rightarrow> 'a \<Rightarrow> bool) \<Rightarrow> 'a list \<Rightarrow> 'a list" where
  "stable_sort_by lt xs = foldr (insert_by lt) xs []"

lemma insert_by_key: "insert_by (\<lambda>x y. k x < k y) x ys = insort_key k x ys"
  for k :: "'a \<Rightarrow> 'k::linorder"
  by (induction ys) (auto simp: not_less)

lemma stable_sort_by_key: "stable_sort_by (\<lambda>x y. k x < k y) xs = sort_key k xs"
  for k :: "'a \<Rightarrow> 'k::linorder"
  by (induction xs) (auto simp: stable_sort_by_def insert_by_key)

lemma sorted_perm_unique:
  fixes k :: "'a \<Rightarrow> 'k::linorder"
  assumes "mset ys = mset xs" and "sorted (map k ys)" and "distinct (map k xs)"
  shows "ys = sort_key k xs"
proof (rule map_sorted_distinct_set_unique)
  have "set ys = set xs" using assms(1) by (rule mset_eq_setD)
  then show "inj_on k (set ys \<union> set (sort_key k xs))"
    using assms(3) by (simp add: distinct_map)
  have "mset (map k ys) = mset (map k xs)" using assms(1) by simp
  then show "distinct (map k ys)" using assms(3) by (metis mset_eq_imp_distinct_iff)
  show "sorted (map k ys)" by fact
  show "sorted (map k (sort_key k xs))" by simp
  have "mset (map k (sort_key k xs)) = mset (map k xs)" by simp
  then show "distinct (map k (sort_key k xs))" using assms(3) by (metis mset_eq_imp_distinct_iff)
  show "set ys = set (sort_key k xs)" using \<open>set ys = set xs\<close> by simp
qed

text \<open>
  The contract of a routine that hands a list over in the order of a key: the same elements,
  ascending. What follows from it is that the order in which the elements were collected
  (a Go map has none) does not show.
\<close>

locale slice_sorter =
  fixes srt :: "'a list \<Rightarrow> 'a list" and key :: "'a \<Rightarrow> 'k::linorder"
  assumes srt_mset: "mset (srt xs) = mset xs"
    and srt_sorted: "sorted (map key (srt xs))"
begin

lemma set_srt: "set (srt xs) = set xs"
  using srt_mset by (rule mset_eq_setD)

lemma length_srt: "length (srt xs) = length xs"
  using srt_mset by (rule mset_eq_length)

lemma distinct_srt: "distinct (map f xs) \<Longrightarrow> distinct (map f (srt xs))"
  by (metis mset_map srt_mset mset_eq_imp_distinct_iff)

lemma srt_unique:
  assumes "mset ys = mset xs" and "sorted (map key ys)" and "distinct (map key xs)"
  shows "srt xs = ys"
  using sorted_perm_unique [OF assms] sorted_perm_unique [OF srt_mset srt_sorted assms(3)]
  by simp

lemma srt_order_free:
  assumes "mset xs = mset ys" and "distinct (map key xs)"
  shows "srt xs = srt ys"
  using assms by (intro srt_unique) (simp_all add: srt_mset srt_sorted)

lemma srt_sorted_id: "sorted (map key xs) \<Longrightarrow> distinct (map key xs) \<Longrightarrow> srt xs = xs"
  by (rule srt_unique) simp_all

lemma srt_idem: "distinct (map key xs) \<Longrightarrow> srt (srt xs) = srt xs"
  by (rule srt_sorted_id) (simp_all add: srt_sorted distinct_srt)

end

text \<open>\<open>sort_key\<close> meets it for every key.\<close>

interpretation sk: slice_sorter "sort_key k" k for k :: "'a \<Rightarrow> 'k::linorder"
  by unfold_locales simp_all

subsection \<open>Operations that keep an invariant\<close>

text \<open>
  The contract of a component whose operations all keep a state invariant, as long as what they
  are called with is legal; what a client gets is that every run of legal operations keeps it.
\<close>

locale op_invariant =
  fixes inv :: "'s \<Rightarrow> bool" and legal :: "'o \<Rightarrow> bool" and step :: "'o \<Rightarrow> 's \<Rightarrow> 's"
  assumes step_inv: "inv s \<Longrightarrow> legal ev \<Longrightarrow> inv (step ev s)"
begin

lemma run_inv: "inv s \<Longrightarrow> \<forall>ev \<in> set evs. legal ev \<Longrightarrow> inv (fold step evs s)"
  by (induction evs arbitrary: s) (auto intro: step_inv)

lemma run_append_inv:
  "inv (fold step evs s) \<Longrightarrow> \<forall>ev \<in> set evs'. legal ev \<Longrightarrow> inv (fold step (evs @ evs') s)"
  by (simp add: run_inv)

end

subsection \<open>Maps built from lists\<close>

lemma find_SomeD: "find P xs = Some x \<Longrightarrow> x \<in> set xs \<and> P x"
  by (induction xs) (auto split: if_splits)

text \<open>
  \<^verbatim>\<open>index := make(map...); for _, c := range xs { index[key(c)] = c }\<close>: on duplicate keys the
  last element wins.
\<close>

definition index_by :: "('a \<Rightarrow> 'k) \<Rightarrow> 'a list \<Rightarrow> ('k \<rightharpoonup> 'a)" where
  "index_by k xs = fold (\<lambda>c m. m(k c \<mapsto> c)) xs Map.empty"

lemma fold_index: "fold (\<lambda>c m. m(k c \<mapsto> c)) xs m0 x =
    (case find (\<lambda>c. k c = x) (rev xs) of Some c \<Rightarrow> Some c | None \<Rightarrow> m0 x)"
proof (induction xs arbitrary: m0)
  case Nil
  then show ?case by simp
next
  case (Cons a xs)
  have find_snoc: "find P (ys @ [b]) =
      (case find P ys of Some c \<Rightarrow> Some c | None \<Rightarrow> if P b then Some b else None)" for P ys and b :: 'a
    by (induction ys) auto
  from Cons show ?case by (auto simp: find_snoc split: option.splits)
qed

lemma index_by_eq [keyed]: "index_by k xs x = find (\<lambda>c. k c = x) (rev xs)"
  by (simp add: index_by_def fold_index split: option.splits)

lemma index_by_Some: "index_by k xs x = Some c \<Longrightarrow> c \<in> set xs \<and> k c = x"
  by (auto simp: index_by_eq dest!: find_SomeD)

lemma index_by_None_iff [keyed]: "index_by k xs x = None \<longleftrightarrow> x \<notin> k ` set xs"
  by (auto simp: index_by_eq find_None_iff)

lemma dom_index_by [keyed]: "dom (index_by k xs) = k ` set xs"
  using index_by_None_iff [of k xs] by (auto simp: dom_def)

lemma index_by_distinct:
  assumes "distinct (map k xs)"
  shows "index_by k xs x = Some c \<longleftrightarrow> c \<in> set xs \<and> k c = x"
proof
  assume "c \<in> set xs \<and> k c = x"
  then have c: "c \<in> set xs" "k c = x" by simp_all
  then obtain d where d: "index_by k xs x = Some d"
    using index_by_None_iff [of k xs x] by auto
  with index_by_Some [OF d] c assms show "index_by k xs x = Some c"
    by (auto simp: distinct_map inj_on_def)
qed (rule index_by_Some)

subsection \<open>Lists keyed by a field\<close>

lemma distinct_map_filter' [intro, simp]: "distinct (map f xs) \<Longrightarrow> distinct (map f (filter P xs))"
  by (rule distinct_map_filter)

lemma distinct_map_eq: "distinct (map f xs) \<Longrightarrow> x \<in> set xs \<Longrightarrow> y \<in> set xs \<Longrightarrow> f x = f y \<Longrightarrow> x = y"
  by (auto simp: distinct_map inj_on_def)

lemma find_distinct:
  "distinct (map k xs) \<Longrightarrow> x \<in> set xs \<Longrightarrow> find (\<lambda>y. k y = k x) xs = Some x"
  by (induction xs) (auto simp: image_iff)

end
