(* ===== verification/GoStrings.thy ===== *)
theory GoStrings
  imports Prelude
begin

text \<open>
  The parts of Go's \<^verbatim>\<open>strings\<close>, \<^verbatim>\<open>strconv\<close> and \<^verbatim>\<open>fmt\<close> packages the components use. A Go
  string is its bytes: a \<open>string\<close>, whose characters are 8-bit values, so that \<open><\<close> on it
  (\<^verbatim>\<open>List_Lexorder\<close>) is Go's bytewise comparison.
\<close>

subsection \<open>Decimal numbers\<close>

definition is_digit :: "char \<Rightarrow> bool" where
  "is_digit c \<longleftrightarrow> 48 \<le> (of_char c :: nat) \<and> (of_char c :: nat) \<le> 57"

definition digit_val :: "char \<Rightarrow> nat" where
  "digit_val c = of_char c - 48"

definition digit_char :: "nat \<Rightarrow> char" where
  "digit_char d = char_of (d + 48)"

lemma of_char_digit_char [simp]: "d < 10 \<Longrightarrow> (of_char (digit_char d) :: nat) = d + 48"
  by (simp add: digit_char_def)

lemma is_digit_digit_char [simp]: "d < 10 \<Longrightarrow> is_digit (digit_char d)"
  by (simp add: is_digit_def)

lemma digit_val_digit_char [simp]: "d < 10 \<Longrightarrow> digit_val (digit_char d) = d"
  by (simp add: digit_val_def)

fun itoa_nat :: "nat \<Rightarrow> string" where
  "itoa_nat n = (if n < 10 then [digit_char n] else itoa_nat (n div 10) @ [digit_char (n mod 10)])"

declare itoa_nat.simps [simp del]

definition itoa :: "int \<Rightarrow> string" where
  "itoa n = (if n < 0 then CHR ''-'' # itoa_nat (nat (- n)) else itoa_nat (nat n))"

lemma itoa_nat_ne [simp]: "itoa_nat n \<noteq> []"
  by (subst itoa_nat.simps) simp

lemma itoa_nat_digits: "\<forall>c \<in> set (itoa_nat n). is_digit c"
proof (induction n rule: itoa_nat.induct)
  case (1 n)
  then show ?case by (cases "n < 10") (auto simp: itoa_nat.simps [of n])
qed

lemma not_digit_notin_itoa [simp]: "\<not> is_digit c \<Longrightarrow> c \<notin> set (itoa_nat n)"
  using itoa_nat_digits by blast

text \<open>The value of a run of digits, and its agreement with the printer.\<close>

definition digits_val :: "nat \<Rightarrow> string \<Rightarrow> nat" where
  "digits_val acc s = foldl (\<lambda>v c. v * 10 + digit_val c) acc s"

lemma digits_val_simps [simp]:
  "digits_val acc [] = acc"
  "digits_val acc (c # s) = digits_val (acc * 10 + digit_val c) s"
  "digits_val acc (s @ s') = digits_val (digits_val acc s) s'"
  by (simp_all add: digits_val_def)

lemma digits_val_itoa_nat [simp]: "digits_val 0 (itoa_nat n) = n"
proof (induction n rule: itoa_nat.induct)
  case (1 n)
  then show ?case by (cases "n < 10") (auto simp: itoa_nat.simps [of n])
qed

lemma itoa_nat_inj: "itoa_nat m = itoa_nat n \<longleftrightarrow> m = n"
  by (metis digits_val_itoa_nat)

lemma itoa_nat_hd: "0 < n \<Longrightarrow> hd (itoa_nat n) \<noteq> CHR ''0''"
proof (induction n rule: itoa_nat.induct)
  case (1 n)
  show ?case
  proof (cases "n < 10")
    case True
    have "digit_char n \<noteq> CHR ''0''"
    proof
      assume "digit_char n = CHR ''0''"
      then have "(of_char (digit_char n) :: nat) = 48" by simp
      with True 1 show False by simp
    qed
    with True show ?thesis by (simp add: itoa_nat.simps [of n])
  next
    case False
    with 1 show ?thesis by (simp add: itoa_nat.simps [of n])
  qed
qed

lemma length_itoa_nat: "n < 1000 \<Longrightarrow> length (itoa_nat n) \<le> 3"
  by (subst itoa_nat.simps, subst itoa_nat.simps, subst itoa_nat.simps) auto

subsection \<open>strconv.ParseInt and strconv.Atoi, base 10, 64 bits\<close>

text \<open>\<open>None\<close> is the error: an empty string, a character that is no digit, a value out of range.\<close>

definition parse_uint :: "string \<Rightarrow> nat option" where
  "parse_uint s = (if s \<noteq> [] \<and> list_all is_digit s then Some (digits_val 0 s) else None)"

definition parse_int64 :: "string \<Rightarrow> int option" where
  "parse_int64 s =
     (let neg = (s \<noteq> [] \<and> hd s = CHR ''-'');
          body = (if s \<noteq> [] \<and> (hd s = CHR ''-'' \<or> hd s = CHR ''+'') then tl s else s)
      in case parse_uint body of
           None \<Rightarrow> None
         | Some u \<Rightarrow> (let n = (if neg then - int u else int u) in if in_i64 n then Some n else None))"

lemma parse_uint_itoa [simp]: "parse_uint (itoa_nat n) = Some n"
  using itoa_nat_digits by (simp add: parse_uint_def list_all_iff)

lemma hd_itoa_digit: "is_digit (hd (itoa_nat n))"
  by (rule bspec [OF itoa_nat_digits [of n]]) simp

lemma not_digit_sign [simp]: "\<not> is_digit CHR ''-''" "\<not> is_digit CHR ''+''" "\<not> is_digit CHR ''.''"
    "\<not> is_digit CHR ''/''" "\<not> is_digit CHR '':''" "\<not> is_digit CHR ''%''"
  by (simp_all add: is_digit_def)

lemma parse_int64_itoa: "in_i64 n \<Longrightarrow> parse_int64 (itoa n) = Some n"
  using hd_itoa_digit [of "nat n"]
  by (cases "n < 0") (auto simp: parse_int64_def itoa_def Let_def)

lemma parse_int64_range: "parse_int64 s = Some n \<Longrightarrow> in_i64 n"
  by (auto simp: parse_int64_def Let_def split: option.splits if_splits)

subsection \<open>Cutting and joining\<close>

text \<open>\<^verbatim>\<open>strings.Split\<close> on a one-byte separator: never empty.\<close>

fun split_on :: "char \<Rightarrow> string \<Rightarrow> string list" where
  "split_on sep [] = [[]]"
| "split_on sep (c # cs) =
     (if c = sep then [] # split_on sep cs
      else (case split_on sep cs of [] \<Rightarrow> [[c]] | w # ws \<Rightarrow> (c # w) # ws))"

lemma split_on_ne [simp]: "split_on sep s \<noteq> []"
  by (cases s) (auto split: list.splits)

fun join_with :: "string \<Rightarrow> string list \<Rightarrow> string" where
  "join_with sep [] = []"
| "join_with sep [w] = w"
| "join_with sep (w # ws) = w @ sep @ join_with sep ws"

lemma join_with_Cons: "ws \<noteq> [] \<Longrightarrow> join_with sep (w # ws) = w @ sep @ join_with sep ws"
  by (cases ws) auto

lemma split_on_append [simp]: "sep \<notin> set w \<Longrightarrow> split_on sep (w @ sep # s) = w # split_on sep s"
  by (induction w) auto

lemma split_on_single [simp]: "sep \<notin> set w \<Longrightarrow> split_on sep w = [w]"
  by (induction w) auto

lemma split_join: "ws \<noteq> [] \<Longrightarrow> \<forall>w \<in> set ws. sep \<notin> set w \<Longrightarrow> split_on sep (join_with [sep] ws) = ws"
  by (induction "[sep]" ws rule: join_with.induct) auto

lemma join_split: "join_with [sep] (split_on sep s) = s"
proof (induction s)
  case Nil
  then show ?case by simp
next
  case (Cons c s)
  obtain w ws where "split_on sep s = w # ws" by (cases "split_on sep s") auto
  with Cons show ?case by (cases ws) auto
qed

lemma split_on_no_sep: "\<forall>w \<in> set (split_on sep s). sep \<notin> set w"
  by (induction s) (auto split: list.splits)

text \<open>
  \<^verbatim>\<open>if i := strings.IndexByte(s, c); i >= 0 { s = s[:i] }\<close>, and \<^verbatim>\<open>strings.Cut\<close>: the text before
  the first separator, the text after it when there is one.
\<close>

definition before_byte :: "char \<Rightarrow> string \<Rightarrow> string" where
  "before_byte c s = takeWhile (\<lambda>x. x \<noteq> c) s"

definition cut_byte :: "char \<Rightarrow> string \<Rightarrow> (string \<times> string) option" where
  "cut_byte c s = (if c \<in> set s then Some (before_byte c s, tl (dropWhile (\<lambda>x. x \<noteq> c) s)) else None)"

lemma before_byte_append [simp]: "c \<notin> set w \<Longrightarrow> before_byte c (w @ c # s) = w"
  by (induction w) (auto simp: before_byte_def)

lemma before_byte_none [simp]: "c \<notin> set w \<Longrightarrow> before_byte c w = w"
  by (auto simp: before_byte_def takeWhile_eq_all_conv)

lemma cut_byte_append [simp]: "c \<notin> set w \<Longrightarrow> cut_byte c (w @ c # s) = Some (w, s)"
  by (induction w) (auto simp: cut_byte_def before_byte_def split: if_splits)

text \<open>\<^verbatim>\<open>strings.Contains\<close> and \<^verbatim>\<open>strings.ReplaceAll\<close> of a one-byte text.\<close>

fun has_prefix :: "string \<Rightarrow> string \<Rightarrow> bool" where
  "has_prefix [] s = True"
| "has_prefix (p # ps) [] = False"
| "has_prefix (p # ps) (c # cs) = (p = c \<and> has_prefix ps cs)"

fun contains_str :: "string \<Rightarrow> string \<Rightarrow> bool" where
  "contains_str p [] = (p = [])"
| "contains_str p (c # cs) = (has_prefix p (c # cs) \<or> contains_str p cs)"

definition replace_byte :: "char \<Rightarrow> string \<Rightarrow> string \<Rightarrow> string" where
  "replace_byte c new s = concat (map (\<lambda>x. if x = c then new else [x]) s)"

lemma has_prefix_iff: "has_prefix p s \<longleftrightarrow> (\<exists>t. s = p @ t)"
  by (induction p s rule: has_prefix.induct) auto

lemma contains_str_iff: "contains_str p s \<longleftrightarrow> (\<exists>u v. s = u @ p @ v)"
proof (induction s)
  case Nil
  then show ?case by auto
next
  case (Cons c s)
  show ?case
  proof
    assume "contains_str p (c # s)"
    then consider "has_prefix p (c # s)" | "contains_str p s" by auto
    then show "\<exists>u v. c # s = u @ p @ v"
    proof cases
      case 1
      then show ?thesis by (auto simp: has_prefix_iff intro: exI [of _ "[]"])
    next
      case 2
      then show ?thesis using Cons by (metis append_Cons)
    qed
  next
    assume "\<exists>u v. c # s = u @ p @ v"
    then obtain u v where uv: "c # s = u @ p @ v" by blast
    show "contains_str p (c # s)"
    proof (cases u)
      case Nil
      with uv have "has_prefix p (c # s)" by (simp add: has_prefix_iff)
      then show ?thesis by simp
    next
      case (Cons d u')
      with uv have "s = u' @ p @ v" by simp
      with Cons.IH show ?thesis by auto
    qed
  qed
qed

subsection \<open>strings.TrimSpace\<close>

text \<open>
  Unicode white space in UTF-8: the six ASCII ones, U+0085, U+00A0, U+1680, U+2000 to U+200A,
  U+2028, U+2029, U+202F, U+205F and U+3000. A space at the end of the string is decoded
  backwards from its last byte, which finds it exactly when its encoding is a suffix.
\<close>

definition space_encodings :: "string list" where
  "space_encodings =
     map (\<lambda>n. [char_of n]) [9, 10, 11, 12, 13, 32 :: nat] @
     map (map char_of) ([[0xC2, 0x85], [0xC2, 0xA0], [0xE1, 0x9A, 0x80], [0xE2, 0x80, 0xA8],
       [0xE2, 0x80, 0xA9], [0xE2, 0x80, 0xAF], [0xE2, 0x81, 0x9F], [0xE3, 0x80, 0x80]] :: nat list list) @
     map (\<lambda>n. [char_of (0xE2 :: nat), char_of (0x80 :: nat), char_of n]) [0x80 ..< 0x8B :: nat]"

lemma space_encodings_ne: "w \<in> set space_encodings \<Longrightarrow> w \<noteq> []"
  by (auto simp: space_encodings_def)

function trim_left :: "string list \<Rightarrow> string \<Rightarrow> string" where
  "trim_left ws s =
     (case find (\<lambda>w. w \<noteq> [] \<and> has_prefix w s) ws of
        None \<Rightarrow> s
      | Some w \<Rightarrow> trim_left ws (drop (length w) s))"
  by pat_completeness auto
termination
proof (relation "measure (\<lambda>(ws, s). length s)")
  fix ws s w
  assume "find (\<lambda>w. w \<noteq> [] \<and> has_prefix w s) ws = Some w"
  then have "w \<noteq> []" "has_prefix w s" by (auto dest!: find_SomeD)
  then show "((ws, drop (length w) s), ws, s) \<in> measure (\<lambda>(ws, s). length s)"
    by (auto simp: has_prefix_iff)
qed simp

declare trim_left.simps [simp del]

definition trim_space :: "string \<Rightarrow> string" where
  "trim_space s = rev (trim_left (map rev space_encodings) (rev (trim_left space_encodings s)))"

lemma trim_left_fixpoint:
  "(\<And>w. w \<in> set ws \<Longrightarrow> w \<noteq> [] \<Longrightarrow> \<not> has_prefix w s) \<Longrightarrow> trim_left ws s = s"
  by (subst trim_left.simps) (auto simp: find_None_iff split: option.splits dest!: find_SomeD)

lemma trim_space_Nil [simp]: "trim_space [] = []"
  by (simp add: trim_space_def trim_left_fixpoint has_prefix_iff)

end
