(* ===== verification/NetIP.thy ===== *)
theory NetIP
  imports GoStrings "HOL-Library.Word"
begin

unbundle bit_operations_syntax

text \<open>
  The part of Go's \<^verbatim>\<open>net\<close> and \<^verbatim>\<open>net/netip\<close> packages the allocator, the validators and the
  config renderer call: parsing and printing of addresses and CIDR blocks, masks, networks.
  An \<^verbatim>\<open>net.IP\<close> is its bytes, 4 or 16 of them; \<open>[]\<close> is the nil one, which every failed
  parse and every failed \<^verbatim>\<open>To4\<close> gives.
\<close>

type_synonym byte = "8 word"
type_synonym u32 = "32 word"
type_synonym ip = "byte list"

record ipnet =
  net_ip :: ip
  net_mask :: "byte list"

lemma length_4_iff: "length xs = 4 \<longleftrightarrow> (\<exists>a b c d. xs = [a, b, c, d])"
  by (auto simp: numeral_eq_Suc length_Suc_conv)

subsection \<open>Four bytes and 32 bits\<close>

definition u32_of_bytes :: "byte \<Rightarrow> byte \<Rightarrow> byte \<Rightarrow> byte \<Rightarrow> u32" where
  "u32_of_bytes a b c d =
     push_bit 24 (ucast a) OR push_bit 16 (ucast b) OR push_bit 8 (ucast c) OR ucast d"

definition byte_at :: "nat \<Rightarrow> u32 \<Rightarrow> byte" where
  "byte_at n v = ucast (drop_bit n v)"

lemma u32_of_bytes_byte_at [simp]:
  "u32_of_bytes (byte_at 24 v) (byte_at 16 v) (byte_at 8 v) (byte_at 0 v) = v"
proof (rule bit_word_eqI)
  fix n assume n: "n < LENGTH(32)"
  then consider "n < 8" | "8 \<le> n" "n < 16" | "16 \<le> n" "n < 24" | "24 \<le> n" "n < 32" by fastforce
  then show "bit (u32_of_bytes (byte_at 24 v) (byte_at 16 v) (byte_at 8 v) (byte_at 0 v)) n = bit v n"
    by cases (auto simp: u32_of_bytes_def byte_at_def bit_simps)
qed

lemma byte_at_u32_of_bytes [simp]:
  "byte_at 24 (u32_of_bytes a b c d) = a" "byte_at 16 (u32_of_bytes a b c d) = b"
  "byte_at 8 (u32_of_bytes a b c d) = c" "byte_at 0 (u32_of_bytes a b c d) = d"
  by (rule bit_word_eqI; auto simp: u32_of_bytes_def byte_at_def bit_simps dest: bit_imp_le_length)+

subsection \<open>The 4-byte and the 16-byte form\<close>

definition v4_prefix :: "byte list" where
  "v4_prefix = replicate 10 0 @ [255, 255]"

definition to4 :: "ip \<Rightarrow> ip" where
  "to4 x = (if length x = 4 then x
            else if length x = 16 \<and> take 12 x = v4_prefix then drop 12 x else [])"

lemma length_v4_prefix [simp]: "length v4_prefix = 12"
  by (simp add: v4_prefix_def)

lemma to4_mapped [simp]: "length x = 4 \<Longrightarrow> to4 (v4_prefix @ x) = x"
  by (simp add: to4_def)

lemma to4_four [simp]: "length x = 4 \<Longrightarrow> to4 x = x"
  by (simp add: to4_def)

lemma length_to4: "to4 x \<noteq> [] \<Longrightarrow> length (to4 x) = 4"
  by (auto simp: to4_def split: if_splits)

lemma to4_Nil [simp]: "to4 [] = []"
  by (simp add: to4_def)

subsection \<open>Parsing addresses\<close>

text \<open>
  \<^verbatim>\<open>netip.parseIPv4Fields\<close>: the bytes read so far, the octet being read with its number of
  digits, and the character before, from which the code knows a misplaced dot.
\<close>

fun v4_fields :: "string \<Rightarrow> char option \<Rightarrow> nat \<Rightarrow> nat \<Rightarrow> nat list \<Rightarrow> nat list option" where
  "v4_fields [] prev val digs fs = (if length fs < 3 then None else Some (fs @ [val]))"
| "v4_fields (c # cs) prev val digs fs =
     (if is_digit c then
        (if digs = 1 \<and> val = 0 then None
         else (let v = val * 10 + digit_val c
               in if v > 255 then None else v4_fields cs (Some c) v (digs + 1) fs))
      else if c = CHR ''.'' then
        (if prev = None \<or> cs = [] \<or> prev = Some CHR ''.'' then None
         else if length fs = 3 then None
         else v4_fields cs (Some c) 0 0 (fs @ [val]))
      else None)"

definition parse_v4 :: "string \<Rightarrow> byte list option" where
  "parse_v4 s = map_option (map of_nat) (v4_fields s None 0 0 [])"

definition is_hex :: "char \<Rightarrow> bool" where
  "is_hex c \<longleftrightarrow> is_digit c \<or>
     (let n = (of_char c :: nat) in (97 \<le> n \<and> n \<le> 102) \<or> (65 \<le> n \<and> n \<le> 70))"

definition hex_val :: "char \<Rightarrow> nat" where
  "hex_val c = (let n = of_char c in if is_digit c then n - 48 else if 97 \<le> n then n - 87 else n - 55)"

text \<open>
  The group loop of \<^verbatim>\<open>netip.parseIPv6\<close>: up to eight more 16-bit groups, the bytes so far and
  the place of the \<^verbatim>\<open>::\<close>. The result is what is left of the text, the bytes and that place.
\<close>

fun v6_groups :: "nat \<Rightarrow> string \<Rightarrow> byte list \<Rightarrow> nat option \<Rightarrow>
    (string \<times> byte list \<times> nat option) option" where
  "v6_groups 0 s ip e = Some (s, ip, e)"
| "v6_groups (Suc k) s ip e =
     (let ds = takeWhile is_hex s; r = dropWhile is_hex s;
          acc = foldl (\<lambda>v c. v * 16 + hex_val c) 0 ds;
          ip' = ip @ [of_nat (acc div 256), of_nat acc]
      in if length ds > 4 \<or> ds = [] then None
         else if r \<noteq> [] \<and> hd r = CHR ''.'' then
           (if (e = None \<and> length ip \<noteq> 12) \<or> length ip + 4 > 16 then None
            else (case parse_v4 s of None \<Rightarrow> None | Some b \<Rightarrow> Some ([], ip @ b, e)))
         else if r = [] then Some ([], ip', e)
         else if hd r \<noteq> CHR '':'' \<or> length r = 1 then None
         else if hd (tl r) = CHR '':'' then
           (if e \<noteq> None then None
            else if tl (tl r) = [] then Some ([], ip', Some (length ip'))
            else v6_groups k (tl (tl r)) ip' (Some (length ip')))
         else v6_groups k (tl r) ip' e)"

definition parse_v6_bytes :: "string \<Rightarrow> byte list option" where
  "parse_v6_bytes s =
     (if s = ''::'' then Some (replicate 16 0)
      else case (if has_prefix ''::'' s then v6_groups 8 (drop 2 s) [] (Some 0)
                 else v6_groups 8 s [] None) of
        None \<Rightarrow> None
      | Some (r, ip, e) \<Rightarrow>
          if r \<noteq> [] then None
          else if length ip < 16 then
            (case e of None \<Rightarrow> None
             | Some i \<Rightarrow> Some (take i ip @ replicate (16 - length ip) 0 @ drop i ip))
          else if e \<noteq> None then None else Some ip)"

datatype addr = Addr4 "byte list" | Addr6 "byte list" string

definition parse_v6 :: "string \<Rightarrow> addr option" where
  "parse_v6 s =
     (case cut_byte CHR ''%'' s of
        None \<Rightarrow> map_option (\<lambda>b. Addr6 b []) (parse_v6_bytes s)
      | Some (a, zone) \<Rightarrow> if zone = [] then None else map_option (\<lambda>b. Addr6 b zone) (parse_v6_bytes a))"

text \<open>\<^verbatim>\<open>netip.ParseAddr\<close>: the first of the three marks decides.\<close>

definition parse_addr :: "string \<Rightarrow> addr option" where
  "parse_addr s =
     (case find (\<lambda>c. c = CHR ''.'' \<or> c = CHR '':'' \<or> c = CHR ''%'') s of
        None \<Rightarrow> None
      | Some c \<Rightarrow> if c = CHR ''.'' then map_option Addr4 (parse_v4 s)
                   else if c = CHR '':'' then parse_v6 s else None)"

fun as16 :: "addr \<Rightarrow> ip" where
  "as16 (Addr4 b) = v4_prefix @ b"
| "as16 (Addr6 b z) = b"

fun bit_len :: "addr \<Rightarrow> nat" where
  "bit_len (Addr4 b) = 32"
| "bit_len (Addr6 b z) = 128"

fun has_zone :: "addr \<Rightarrow> bool" where
  "has_zone (Addr4 b) = False"
| "has_zone (Addr6 b z) = (z \<noteq> [])"

text \<open>\<^verbatim>\<open>net.ParseIP\<close>: the 16-byte form, nil on any error.\<close>

definition parse_ip :: "string \<Rightarrow> ip" where
  "parse_ip s = (case parse_addr s of None \<Rightarrow> [] | Some a \<Rightarrow> if has_zone a then [] else as16 a)"

subsection \<open>Masks and networks\<close>

definition cidr_mask :: "nat \<Rightarrow> nat \<Rightarrow> byte list" where
  "cidr_mask ones bits =
     map (\<lambda>i. if 8 * i + 8 \<le> ones then 255 else if ones \<le> 8 * i then 0
              else NOT (drop_bit (ones - 8 * i) 255)) [0 ..< bits div 8]"

definition ip_mask :: "ip \<Rightarrow> byte list \<Rightarrow> ip" where
  "ip_mask x m =
     (let m' = (if length m = 16 \<and> length x = 4 \<and> take 12 m = replicate 12 255 then drop 12 m else m);
          x' = (if length m' = 4 \<and> length x = 16 \<and> take 12 x = v4_prefix then drop 12 x else x)
      in if length x' \<noteq> length m' then [] else map2 (AND) x' m')"

text \<open>\<^verbatim>\<open>net.ParseCIDR\<close>: the address in its 16-byte form and the network.\<close>

definition parse_cidr :: "string \<Rightarrow> (ip \<times> ipnet) option" where
  "parse_cidr s =
     (case cut_byte CHR ''/'' s of
        None \<Rightarrow> None
      | Some (a, len) \<Rightarrow>
          (case parse_addr a of
             None \<Rightarrow> None
           | Some ad \<Rightarrow>
               if has_zone ad then None
               else (case parse_uint len of
                       None \<Rightarrow> None
                     | Some n \<Rightarrow>
                         if n > bit_len ad then None
                         else (let m = cidr_mask n (bit_len ad)
                               in Some (as16 ad, \<lparr>net_ip = ip_mask (as16 ad) m, net_mask = m\<rparr>)))))"

fun leading_ones :: "nat \<Rightarrow> byte \<Rightarrow> nat \<times> byte" where
  "leading_ones 0 v = (0, v)"
| "leading_ones (Suc k) v =
     (if bit v 7 then (let (n, w) = leading_ones k (push_bit 1 v) in (Suc n, w)) else (0, v))"

text \<open>\<^verbatim>\<open>simpleMaskLength\<close>: the number of ones of a mask that is ones and then zeros.\<close>

fun mask_length :: "byte list \<Rightarrow> nat option" where
  "mask_length [] = Some 0"
| "mask_length (v # vs) =
     (if v = 255 then map_option ((+) 8) (mask_length vs)
      else (let (n, w) = leading_ones 8 v in if w \<noteq> 0 \<or> \<not> list_all (\<lambda>x. x = 0) vs then None else Some n))"

text \<open>\<^verbatim>\<open>Mask.Size()\<close>: (0, 0) for a mask of another shape.\<close>

definition mask_size :: "byte list \<Rightarrow> nat \<times> nat" where
  "mask_size m = (case mask_length m of None \<Rightarrow> (0, 0) | Some n \<Rightarrow> (n, length m * 8))"

definition network_and_mask :: "ipnet \<Rightarrow> (ip \<times> byte list) option" where
  "network_and_mask n =
     (let x = (if to4 (net_ip n) = [] then net_ip n else to4 (net_ip n)); m = net_mask n
      in if to4 (net_ip n) = [] \<and> length x \<noteq> 16 then None
         else if length m = 4 then (if length x \<noteq> 4 then None else Some (x, m))
         else if length m = 16 then Some (x, if length x = 4 then drop 12 m else m)
         else None)"

definition net_contains :: "ipnet \<Rightarrow> ip \<Rightarrow> bool" where
  "net_contains n x =
     (case network_and_mask n of
        None \<Rightarrow> x = []
      | Some (nn, m) \<Rightarrow>
          (let x' = (if to4 x = [] then x else to4 x)
           in length x' = length nn \<and> list_all2 (\<lambda>(a, k) b. a AND k = b AND k) (zip nn m) x'))"

subsection \<open>Printing\<close>

fun dotted :: "byte list \<Rightarrow> string" where
  "dotted [a, b, c, d] =
     itoa_nat (unat a) @ ''.'' @ itoa_nat (unat b) @ ''.'' @ itoa_nat (unat c) @ ''.'' @ itoa_nat (unat d)"
| "dotted _ = ''?''"

definition hex_digit :: "nat \<Rightarrow> char" where
  "hex_digit n = (if n < 10 then digit_char n else char_of (n + 87))"

fun hex_nat :: "nat \<Rightarrow> string" where
  "hex_nat n = (if n < 16 then [hex_digit n] else hex_nat (n div 16) @ [hex_digit (n mod 16)])"

declare hex_nat.simps [simp del]

definition hex_string :: "byte list \<Rightarrow> string" where
  "hex_string bs = concat (map (\<lambda>b. [hex_digit (unat b div 16), hex_digit (unat b mod 16)]) bs)"

definition v6_fields :: "byte list \<Rightarrow> nat list" where
  "v6_fields bs = map (\<lambda>i. unat (bs ! (2 * i)) * 256 + unat (bs ! (2 * i + 1))) [0 ..< 8]"

text \<open>The first longest run of at least two zero fields is printed as \<^verbatim>\<open>::\<close>.\<close>

definition zero_run :: "nat list \<Rightarrow> nat \<times> nat" where
  "zero_run fs =
     fold (\<lambda>i (s, e). let l = length (takeWhile (\<lambda>f. f = 0) (drop i fs))
                      in if 2 \<le> l \<and> l > e - s then (i, i + l) else (s, e)) [0 ..< length fs] (255, 255)"

definition v6_string :: "byte list \<Rightarrow> string" where
  "v6_string bs =
     (let fs = v6_fields bs; (s, e) = zero_run fs; hs = map hex_nat fs
      in if s = e then join_with '':'' hs
         else join_with '':'' (take s hs) @ ''::'' @ join_with '':'' (drop e hs))"

text \<open>\<^verbatim>\<open>IP.String()\<close>, \<^verbatim>\<open>IPNet.String()\<close>.\<close>

definition ip_string :: "ip \<Rightarrow> string" where
  "ip_string x =
     (if x = [] then ''<nil>''
      else if length x \<noteq> 4 \<and> length x \<noteq> 16 then ''?'' @ hex_string x
      else if to4 x \<noteq> [] then dotted (to4 x) else v6_string x)"

definition net_string :: "ipnet \<Rightarrow> string" where
  "net_string n =
     (case network_and_mask n of
        None \<Rightarrow> ''<nil>''
      | Some (nn, m) \<Rightarrow> ip_string nn @ ''/'' @
          (case mask_length m of None \<Rightarrow> hex_string m | Some l \<Rightarrow> itoa_nat l))"

subsection \<open>Words and addresses\<close>

text \<open>
  \<^verbatim>\<open>uint32(ip[0])<<24 | uint32(ip[1])<<16 | uint32(ip[2])<<8 | uint32(ip[3])\<close> of a 4-byte form,
  and the four bytes of a word.
\<close>

definition ip_u32 :: "ip \<Rightarrow> u32" where
  "ip_u32 x = u32_of_bytes (x ! 0) (x ! 1) (x ! 2) (x ! 3)"

definition u32_bytes :: "u32 \<Rightarrow> ip" where
  "u32_bytes v = [byte_at 24 v, byte_at 16 v, byte_at 8 v, byte_at 0 v]"

lemma length_u32_bytes [simp]: "length (u32_bytes v) = 4"
  by (simp add: u32_bytes_def)

lemma u32_bytes_ne [simp]: "u32_bytes v \<noteq> []"
  by (simp add: u32_bytes_def)

lemma ip_u32_bytes [simp]: "ip_u32 (u32_bytes v) = v"
  by (simp add: ip_u32_def u32_bytes_def)

lemma u32_bytes_ip [simp]: "length x = 4 \<Longrightarrow> u32_bytes (ip_u32 x) = x"
  by (auto simp: ip_u32_def u32_bytes_def length_4_iff)

lemma u32_bytes_inj: "u32_bytes v = u32_bytes w \<longleftrightarrow> v = w"
  by (metis ip_u32_bytes)

lemma ip_u32_inj: "length x = 4 \<Longrightarrow> length y = 4 \<Longrightarrow> ip_u32 x = ip_u32 y \<longleftrightarrow> x = y"
  by (metis u32_bytes_ip)

subsection \<open>What is printed parses back\<close>

lemma digits_val_ge: "v \<le> digits_val v ds"
proof (induction ds arbitrary: v)
  case (Cons d ds)
  have "v \<le> v * 10 + digit_val d" by simp
  also have "\<dots> \<le> digits_val (v * 10 + digit_val d) ds" by (rule Cons)
  finally show ?case by simp
qed simp

lemma v4_fields_digits:
  assumes "list_all is_digit ds" and "digits_val v ds \<le> 255" and "0 < v" and "ds \<noteq> []"
  shows "v4_fields (ds @ rest) p v k fs = v4_fields rest (Some (last ds)) (digits_val v ds) (k + length ds) fs"
  using assms
proof (induction ds arbitrary: v p k)
  case (Cons d ds)
  have "v * 10 + digit_val d \<le> 255"
    using Cons.prems(2) digits_val_ge [of "v * 10 + digit_val d" ds] by simp
  then show ?case
    using Cons.prems Cons.IH [of "v * 10 + digit_val d" "Some d" "Suc k"] by (cases "ds = []") auto
qed simp

lemma v4_fields_itoa:
  assumes "n < 256"
  shows "v4_fields (itoa_nat n @ rest) p 0 0 fs =
    v4_fields rest (Some (last (itoa_nat n))) n (length (itoa_nat n)) fs"
proof (cases "n < 10")
  case True
  then show ?thesis by (simp add: itoa_nat.simps [of n])
next
  case False
  obtain d ds where ds: "itoa_nat n = d # ds" by (cases "itoa_nat n") auto
  have dig: "is_digit d" "list_all is_digit ds"
    using itoa_nat_digits [of n] by (auto simp: ds list_all_iff)
  have "ds \<noteq> []" using False ds by (auto simp: itoa_nat.simps [of n] append_eq_Cons_conv)
  have "d \<noteq> CHR ''0''" using itoa_nat_hd [of n] ds False by auto
  then have "(of_char d :: nat) \<noteq> of_char (CHR ''0'')" by (simp only: of_char_eq_iff not_False_eq_True)
  then have "0 < digit_val d"
    using dig(1) by (simp add: digit_val_def is_digit_def)
  have "digits_val (digit_val d) ds = n" using digits_val_itoa_nat [of n] by (simp add: ds)
  moreover from this have "digit_val d \<le> 255" using digits_val_ge [of "digit_val d" ds] assms by simp
  ultimately show ?thesis
    using dig \<open>ds \<noteq> []\<close> \<open>0 < digit_val d\<close> assms by (simp add: ds v4_fields_digits)
qed

lemma last_itoa_digit: "is_digit (last (itoa_nat n))"
  by (rule bspec [OF itoa_nat_digits [of n]]) simp

lemma unat_byte_less [simp]: "unat (b :: byte) < 256"
  using unsigned_less [of b] by simp

lemma last_itoa_not_dot [simp]: "last (itoa_nat n) \<noteq> CHR ''.''"
  using last_itoa_digit [of n] by auto

lemma dotted_append: "dotted [a, b, c, d] @ s =
    itoa_nat (unat a) @ CHR ''.'' # itoa_nat (unat b) @ CHR ''.'' # itoa_nat (unat c) @ CHR ''.'' # itoa_nat (unat d) @ s"
  by simp

lemma v4_fields_dotted:
  "v4_fields (dotted [a, b, c, d]) None 0 0 [] = Some [unat a, unat b, unat c, unat d]"
proof -
  have "v4_fields (itoa_nat (unat d) @ []) p 0 0 fs = (if length fs < 3 then None else Some (fs @ [unat d]))" for p fs
    by (subst v4_fields_itoa) simp_all
  then show ?thesis
    using dotted_append [of a b c d "[]"] by (simp add: v4_fields_itoa)
qed

lemma parse_v4_dotted [simp]: "length bs = 4 \<Longrightarrow> parse_v4 (dotted bs) = Some bs"
  by (auto simp: parse_v4_def v4_fields_dotted length_4_iff simp del: dotted.simps)

lemma dotted_chars: "x \<in> set (dotted [a, b, c, d]) \<Longrightarrow> is_digit x \<or> x = CHR ''.''"
  using itoa_nat_digits by auto

lemma dotted_no [simp]: "length bs = 4 \<Longrightarrow> \<not> is_digit x \<Longrightarrow> x \<noteq> CHR ''.'' \<Longrightarrow> x \<notin> set (dotted bs)"
  by (auto simp: length_4_iff simp del: dotted.simps dest: dotted_chars)

lemma find_append: "find P (xs @ ys) = (case find P xs of Some x \<Rightarrow> Some x | None \<Rightarrow> find P ys)"
  by (induction xs) auto

lemma find_mark_itoa: "find (\<lambda>c. c = CHR ''.'' \<or> c = CHR '':'' \<or> c = CHR ''%'') (itoa_nat n) = None"
  using itoa_nat_digits [of n] by (auto simp: find_None_iff)

lemma parse_addr_dotted [simp]: "length bs = 4 \<Longrightarrow> parse_addr (dotted bs) = Some (Addr4 bs)"
proof -
  assume l: "length bs = 4"
  then obtain a b c d where bs: "bs = [a, b, c, d]"
    by (auto simp: length_4_iff)
  have "find (\<lambda>c. c = CHR ''.'' \<or> c = CHR '':'' \<or> c = CHR ''%'') (dotted bs) = Some CHR ''.''"
    by (simp add: bs find_append find_mark_itoa)
  with l show ?thesis by (simp add: parse_addr_def)
qed

lemma parse_ip_dotted [simp]: "length bs = 4 \<Longrightarrow> parse_ip (dotted bs) = v4_prefix @ bs"
  by (simp add: parse_ip_def)

lemma ip_string_mapped [simp]: "length bs = 4 \<Longrightarrow> ip_string (v4_prefix @ bs) = dotted bs"
  by (auto simp: ip_string_def)

lemma ip_string_four [simp]: "length bs = 4 \<Longrightarrow> ip_string bs = dotted bs"
  by (auto simp: ip_string_def)

lemma dotted_inj: "length bs = 4 \<Longrightarrow> length cs = 4 \<Longrightarrow> dotted bs = dotted cs \<longleftrightarrow> bs = cs"
  by (metis parse_v4_dotted option.inject)

lemma dotted_ne [simp]: "length bs = 4 \<Longrightarrow> dotted bs \<noteq> []"
  by (auto simp: length_4_iff)

lemma parse_cidr_dotted:
  assumes "length bs = 4" and "n \<le> 32"
  shows "parse_cidr (dotted bs @ ''/'' @ itoa_nat n) =
    Some (v4_prefix @ bs, \<lparr>net_ip = ip_mask (v4_prefix @ bs) (cidr_mask n 32), net_mask = cidr_mask n 32\<rparr>)"
  using assms by (simp add: parse_cidr_def Let_def)

subsection \<open>Blocks of addresses\<close>

lemma ip_u32_and:
  assumes "length x = 4" and "length m = 4"
  shows "ip_u32 (map2 (AND) x m) = ip_u32 x AND ip_u32 m"
proof -
  have "u32_of_bytes (a AND a') (b AND b') (c AND c') (d AND d') =
      u32_of_bytes a b c d AND u32_of_bytes a' b' c' d'" for a b c d a' b' c' d'
  proof (rule bit_word_eqI)
    fix n assume n: "n < LENGTH(32)"
    then consider "n < 8" | "8 \<le> n" "n < 16" | "16 \<le> n" "n < 24" | "24 \<le> n" "n < 32" by fastforce
    then show "bit (u32_of_bytes (a AND a') (b AND b') (c AND c') (d AND d')) n \<longleftrightarrow>
        bit (u32_of_bytes a b c d AND u32_of_bytes a' b' c' d') n"
      by cases (auto simp: u32_of_bytes_def bit_simps dest: bit_imp_le_length)
  qed
  with assms show ?thesis
    by (auto simp: ip_u32_def length_4_iff)
qed

lemma length_cidr_mask [simp]: "length (cidr_mask n bits) = bits div 8"
  by (simp add: cidr_mask_def)

lemma ip_u32_cidr_mask: "n \<le> 32 \<Longrightarrow> ip_u32 (cidr_mask n 32) = NOT (mask (32 - n))"
proof -
  have "\<forall>n \<in> set [0 ..< 33]. ip_u32 (cidr_mask n 32) = NOT (mask (32 - n))"
    by code_simp
  then show "n \<le> 32 \<Longrightarrow> ip_u32 (cidr_mask n 32) = NOT (mask (32 - n))" by simp
qed

lemma mask_length_cidr: "n \<le> 32 \<Longrightarrow> mask_length (cidr_mask n 32) = Some n"
proof -
  have "\<forall>n \<in> set [0 ..< 33]. mask_length (cidr_mask n 32) = Some n"
    by code_simp
  then show "n \<le> 32 \<Longrightarrow> mask_length (cidr_mask n 32) = Some n" by simp
qed

lemma and_not_mask_unat: "unat (h AND NOT (mask k)) = 2 ^ k * (unat h div 2 ^ k)" for h :: u32
proof -
  have t: "take_bit 32 (unat h) = unat h"
    by (rule take_bit_nat_eq_self) (use unsigned_less [of h] in simp)
  have "h AND NOT (mask k) = push_bit k (drop_bit k h)"
    by (rule bit_word_eqI) (auto simp: bit_simps)
  then have "unat (h AND NOT (mask k)) = take_bit 32 (2 ^ k * (unat h div 2 ^ k))"
    by (simp only: unsigned_push_bit_eq unsigned_drop_bit_eq)
      (simp add: push_bit_eq_mult [of _ "_ :: nat"] drop_bit_eq_div [of _ "_ :: nat"] mult.commute t)
  also have "\<dots> = 2 ^ k * (unat h div 2 ^ k)"
  proof -
    have "2 ^ k * (unat h div 2 ^ k) \<le> unat h" by simp
    also have "\<dots> < 2 ^ 32" using unsigned_less [of h] by simp
    finally show ?thesis by (simp add: take_bit_nat_eq_self)
  qed
  finally show ?thesis .
qed

lemma same_block:
  fixes h nn :: u32
  assumes "nn AND NOT (mask k) = nn"
  shows "h AND NOT (mask k) = nn \<longleftrightarrow> unat nn \<le> unat h \<and> unat h < unat nn + 2 ^ k"
proof -
  obtain q where q: "unat nn = 2 ^ k * q"
    using assms and_not_mask_unat [of nn k] by metis
  have "h AND NOT (mask k) = nn \<longleftrightarrow> 2 ^ k * (unat h div 2 ^ k) = 2 ^ k * q"
    by (simp add: q word_unat_eq_iff and_not_mask_unat)
  also have "\<dots> \<longleftrightarrow> unat h div 2 ^ k = q" by simp
  also have "\<dots> \<longleftrightarrow> q * 2 ^ k \<le> unat h \<and> unat h < q * 2 ^ k + 2 ^ k"
  proof
    assume "unat h div 2 ^ k = q"
    then show "q * 2 ^ k \<le> unat h \<and> unat h < q * 2 ^ k + 2 ^ k"
      using div_mod_decomp [of "unat h" "2 ^ k"] by (metis add_strict_left_mono le_add1 mod_less_divisor zero_less_numeral zero_less_power)
  next
    assume "q * 2 ^ k \<le> unat h \<and> unat h < q * 2 ^ k + 2 ^ k"
    then show "unat h div 2 ^ k = q"
      by (intro div_nat_eqI) (simp_all add: mult.commute)
  qed
  finally show ?thesis by (simp add: q mult.commute)
qed

text \<open>The network of an IPv4 block: the address with the host bits cleared.\<close>

definition v4_net :: "u32 \<Rightarrow> nat \<Rightarrow> ipnet" where
  "v4_net v n = \<lparr>net_ip = u32_bytes (v AND NOT (mask (32 - n))), net_mask = cidr_mask n 32\<rparr>"

lemma ip_mask_v4:
  assumes "length bs = 4" and "n \<le> 32"
  shows "ip_mask (v4_prefix @ bs) (cidr_mask n 32) = u32_bytes (ip_u32 bs AND NOT (mask (32 - n)))"
proof -
  have l: "length (map2 (AND) bs (cidr_mask n 32)) = 4" using assms by simp
  have "ip_mask (v4_prefix @ bs) (cidr_mask n 32) = map2 (AND) bs (cidr_mask n 32)"
    using assms by (simp add: ip_mask_def Let_def)
  also have "\<dots> = u32_bytes (ip_u32 (map2 (AND) bs (cidr_mask n 32)))"
    using l by simp
  also have "\<dots> = u32_bytes (ip_u32 bs AND NOT (mask (32 - n)))"
    using assms by (simp add: ip_u32_and ip_u32_cidr_mask)
  finally show ?thesis .
qed

lemma parse_cidr_v4:
  assumes "length bs = 4" and "n \<le> 32"
  shows "parse_cidr (dotted bs @ ''/'' @ itoa_nat n) = Some (v4_prefix @ bs, v4_net (ip_u32 bs) n)"
  using parse_cidr_dotted [OF assms] by (simp add: v4_net_def ip_mask_v4 [OF assms])

lemma network_and_mask_v4_net [simp]:
  "network_and_mask (v4_net v n) = Some (u32_bytes (v AND NOT (mask (32 - n))), cidr_mask n 32)"
  by (simp add: network_and_mask_def v4_net_def Let_def)

lemma list_all2_map2: "length xs = n \<Longrightarrow> length ms = n \<Longrightarrow> length ys = n \<Longrightarrow>
    list_all2 (\<lambda>(a, k) b. f a k = f b k) (zip xs ms) ys \<longleftrightarrow> map2 f xs ms = map2 f ys ms"
  by (auto simp: list_all2_conv_all_nth list_eq_iff_nth_eq)

lemma net_contains_v4:
  assumes n: "n \<le> 32"
  shows "net_contains (v4_net v n) x \<longleftrightarrow>
    to4 x \<noteq> [] \<and> ip_u32 (to4 x) AND NOT (mask (32 - n)) = v AND NOT (mask (32 - n))"
proof (cases "to4 x = []")
  case True
  then have "length x \<noteq> 4" by (auto simp: to4_def split: if_splits)
  with True show ?thesis by (simp add: net_contains_def Let_def)
next
  case False
  let ?M = "NOT (mask (32 - n)) :: u32" and ?m = "cidr_mask n 32"
  have l: "length (to4 x) = 4" using False by (rule length_to4)
  have "net_contains (v4_net v n) x \<longleftrightarrow> map2 (AND) (u32_bytes (v AND ?M)) ?m = map2 (AND) (to4 x) ?m"
    using False l by (simp add: net_contains_def list_all2_map2 [of _ 4])
  also have "\<dots> \<longleftrightarrow> ip_u32 (map2 (AND) (u32_bytes (v AND ?M)) ?m) = ip_u32 (map2 (AND) (to4 x) ?m)"
    using l by (subst ip_u32_inj) simp_all
  also have "\<dots> \<longleftrightarrow> ip_u32 (to4 x) AND ?M = v AND ?M"
    using l n by (auto simp: ip_u32_and ip_u32_cidr_mask and.assoc)
  finally show ?thesis using False by simp
qed

subsection \<open>What parses is what is printed\<close>

lemma digit_char_val [simp]: "is_digit c \<Longrightarrow> digit_char (digit_val c) = c"
  by (simp add: is_digit_def digit_val_def digit_char_def)

lemma digit_val_less [simp]: "is_digit c \<Longrightarrow> digit_val c < 10"
  by (auto simp: is_digit_def digit_val_def)

lemma itoa_nat_single: "is_digit c \<Longrightarrow> itoa_nat (digit_val c) = [c]"
  by (subst itoa_nat.simps) simp

lemma itoa_nat_snoc: "is_digit c \<Longrightarrow> 0 < v \<Longrightarrow> itoa_nat (v * 10 + digit_val c) = itoa_nat v @ [c]"
  using digit_val_less [of c] by (subst itoa_nat.simps) (simp del: digit_val_less)

text \<open>What the parser has read of the octet at hand, and what holds between its steps.\<close>

definition octet_read :: "nat \<Rightarrow> nat \<Rightarrow> string" where
  "octet_read val digs = (if digs = 0 then [] else itoa_nat val)"

definition octet_ok :: "char option \<Rightarrow> nat \<Rightarrow> nat \<Rightarrow> nat list \<Rightarrow> string \<Rightarrow> bool" where
  "octet_ok prev val digs fs s \<longleftrightarrow> length fs \<le> 3 \<and> val \<le> 255 \<and>
     (if digs = 0 then val = 0 \<and> (if fs = [] then prev = None else prev = Some CHR ''.'' \<and> s \<noteq> [])
      else digs = length (itoa_nat val) \<and> (\<exists>c. prev = Some c \<and> is_digit c))"

lemma octet_ok_digit:
  assumes ok: "octet_ok prev val digs fs (c # cs)" and c: "is_digit c"
    and nz: "\<not> (digs = 1 \<and> val = 0)" and v: "val * 10 + digit_val c \<le> 255"
  shows "octet_ok (Some c) (val * 10 + digit_val c) (digs + 1) fs cs"
    and "octet_read (val * 10 + digit_val c) (digs + 1) = octet_read val digs @ [c]"
proof -
  have "digs \<noteq> 0 \<Longrightarrow> 0 < val"
  proof (rule ccontr)
    assume "digs \<noteq> 0" "\<not> 0 < val"
    with ok have "val = 0" "digs = length (itoa_nat 0)" by (auto simp: octet_ok_def)
    then have "digs = 1" by (simp add: itoa_nat.simps)
    with \<open>val = 0\<close> nz show False by simp
  qed
  then show "octet_read (val * 10 + digit_val c) (digs + 1) = octet_read val digs @ [c]"
    and "octet_ok (Some c) (val * 10 + digit_val c) (digs + 1) fs cs"
    using ok c v by (auto simp: octet_read_def octet_ok_def itoa_nat_single itoa_nat_snoc split: if_splits)
qed

lemma v4_fields_canonical:
  assumes "v4_fields s prev val digs fs = Some r" and "octet_ok prev val digs fs s"
  shows "\<exists>gs. r = fs @ gs \<and> gs \<noteq> [] \<and> length r = 4 \<and> (\<forall>g \<in> set gs. g \<le> 255) \<and>
    octet_read val digs @ s = join_with ''.'' (map itoa_nat gs)"
  using assms
proof (induction s prev val digs fs rule: v4_fields.induct)
  case (1 prev val digs fs)
  then have "r = fs @ [val]" "length fs = 3" by (auto simp: octet_ok_def split: if_splits)
  moreover from 1 have "val \<le> 255" "digs \<noteq> 0" using \<open>length fs = 3\<close>
    by (auto simp: octet_ok_def split: if_splits)
  ultimately show ?case by (intro exI [of _ "[val]"]) (simp add: octet_read_def)
next
  case (2 c cs prev val digs fs)
  show ?case
  proof (cases "is_digit c")
    case True
    with 2 have nz: "\<not> (digs = 1 \<and> val = 0)" and v: "val * 10 + digit_val c \<le> 255"
      and rec: "v4_fields cs (Some c) (val * 10 + digit_val c) (digs + 1) fs = Some r"
      by (auto simp: Let_def split: if_splits)
    note step = octet_ok_digit [OF \<open>octet_ok prev val digs fs (c # cs)\<close> True nz v]
    from "2.IH"(1) [OF True nz refl _ rec step(1)] v step(2) show ?thesis by auto
  next
    case False
    with 2 have c: "c = CHR ''.''" and nb: "\<not> (prev = None \<or> cs = [] \<or> prev = Some CHR ''.'')"
      and l: "length fs \<noteq> 3" and rec: "v4_fields cs (Some c) 0 0 (fs @ [val]) = Some r"
      by (auto split: if_splits)
    from nb 2 have digs: "digs \<noteq> 0" by (auto simp: octet_ok_def split: if_splits)
    have "octet_ok (Some c) 0 0 (fs @ [val]) cs"
      using 2 l nb c by (auto simp: octet_ok_def)
    from "2.IH"(2) [OF False c nb l rec this] obtain gs where
      gs: "r = (fs @ [val]) @ gs" "gs \<noteq> []" "length r = 4" "\<forall>g \<in> set gs. g \<le> 255"
        "octet_read 0 0 @ cs = join_with ''.'' (map itoa_nat gs)" by blast
    moreover have "val \<le> 255" using 2 by (simp add: octet_ok_def)
    ultimately show ?thesis using digs c
      by (intro exI [of _ "val # gs"]) (auto simp: octet_read_def join_with_Cons)
  qed
qed

lemma parse_v4_SomeD:
  assumes "parse_v4 s = Some bs"
  shows "length bs = 4 \<and> s = dotted bs"
proof -
  from assms obtain r where r: "v4_fields s None 0 0 [] = Some r" "bs = map of_nat r"
    by (auto simp: parse_v4_def)
  have "octet_ok None 0 0 [] s" by (simp add: octet_ok_def)
  from v4_fields_canonical [OF r(1) this] have
    l: "length r = 4" "\<forall>g \<in> set r. g \<le> 255" "s = join_with ''.'' (map itoa_nat r)"
    by (auto simp: octet_read_def)
  then obtain a b c d where abcd: "r = [a, b, c, d]" by (auto simp: length_4_iff)
  have "unat (word_of_nat g :: byte) = g" if "g \<le> 255" for g
    using that by (simp add: unat_of_nat take_bit_nat_eq_self)
  with l abcd r(2) show ?thesis by simp
qed

text \<open>Of a text of digits and dots only one parses to a given address.\<close>

lemma parse_cidr_SomeD:
  assumes p: "parse_cidr (a @ ''/32'') = Some (x, n)" and a: "list_all (\<lambda>c. is_digit c \<or> c = CHR ''.'') a"
  shows "\<exists>h. a @ ''/32'' = dotted (u32_bytes h) @ ''/32'' \<and> x = v4_prefix @ u32_bytes h"
proof -
  have "CHR ''/'' \<notin> set a" using a by (auto simp: list_all_iff)
  then have cut: "cut_byte CHR ''/'' (a @ ''/32'') = Some (a, ''32'')"
    using cut_byte_append [of "CHR ''/''" a "''32''"] by simp
  have "CHR '':'' \<notin> set a" "CHR ''%'' \<notin> set a" using a by (auto simp: list_all_iff)
  then have "parse_addr a = Some ad \<Longrightarrow> \<exists>bs. ad = Addr4 bs \<and> parse_v4 a = Some bs" for ad
    by (auto simp: parse_addr_def split: option.splits if_splits dest!: find_SomeD)
  with p cut obtain bs where bs: "parse_v4 a = Some bs" "x = v4_prefix @ bs"
    by (auto simp: parse_cidr_def Let_def split: option.splits if_splits)
  from parse_v4_SomeD [OF bs(1)] bs(2) show ?thesis
    by (intro exI [of _ "ip_u32 bs"]) simp
qed

end
