(* ===== verification/Alloc.thy ===== *)
theory Alloc
  imports NetIP
begin

text \<open>
  \<^verbatim>\<open>clients/alloc.go\<close> and \<^verbatim>\<open>clients/validate.go\<close>: the server network, the allocation of the
  lowest free tunnel address, and the validation of what an operator supplies.
\<close>

subsection \<open>The server network (alloc.go)\<close>

record server_net =
  Subnet :: "ipnet option"
  ServerIP :: ip

text \<open>
  What the package's error values say. The text is for the operator; the constructor is what
  \<^verbatim>\<open>errors.Is\<close> and the branches of the code distinguish.
\<close>

datatype clients_error =
    ErrSubnetExhausted
  | ErrNilSubnet
  | ErrSubnetNotIPv4
  | ErrParseServerNet string
  | ErrServerNetNotIPv4 string
  | ErrPublicKeyFormat
  | ErrNameEmpty
  | ErrNameCharset string
  | ErrAddressFormat string
  | ErrParseAddress string
  | ErrAddressNotIPv4 string
  | ErrOutsideSubnet string
  | ErrReservedServerIP string
  | ErrAddressInUse string
  | ErrEntry nat clients_error
  | ErrEntryAddressEmpty nat string
  | ErrDuplicateName string
  | ErrDuplicateKey nat
  | ErrDuplicateAddress string

definition default_server_net :: string where
  "default_server_net = ''172.16.15.1/24''"

definition ParseServerNet :: "string \<Rightarrow> clients_error + server_net" where
  "ParseServerNet s0 =
     (let s = (if s0 = [] then default_server_net else s0)
      in case parse_cidr s of
           None \<Rightarrow> Inl (ErrParseServerNet s)
         | Some (x, n) \<Rightarrow>
             if to4 x = [] then Inl (ErrServerNetNotIPv4 s)
             else Inr \<lparr>Subnet = Some n, ServerIP = to4 x\<rparr>)"

text \<open>\<^verbatim>\<open>v4Bounds\<close>: network and broadcast, in 32-bit arithmetic (a shift by 32 gives 0).\<close>

definition v4Bounds :: "ipnet option \<Rightarrow> clients_error + (u32 \<times> u32)" where
  "v4Bounds subnet =
     (case subnet of
        None \<Rightarrow> Inl ErrNilSubnet
      | Some n \<Rightarrow>
          if to4 (net_ip n) = [] then Inl ErrSubnetNotIPv4
          else (let (ones, bits) = mask_size (net_mask n)
                in if bits \<noteq> 32 then Inl ErrSubnetNotIPv4
                   else (let network = ip_u32 (to4 (net_ip n)); size = push_bit (32 - ones) 1
                         in Inr (network, network + size - 1))))"

definition ipToUint32 :: "ip \<Rightarrow> u32 option" where
  "ipToUint32 x = (if to4 x = [] then None else Some (ip_u32 (to4 x)))"

text \<open>\<^verbatim>\<open>net.IPv4(a, b, c, d)\<close> gives the 16-byte form.\<close>

definition uint32ToIP :: "u32 \<Rightarrow> ip" where
  "uint32ToIP v = v4_prefix @ [byte_at 24 v, byte_at 16 v, byte_at 8 v, byte_at 0 v]"

definition parseHostUint32 :: "string \<Rightarrow> u32 option" where
  "parseHostUint32 s = ipToUint32 (parse_ip (before_byte CHR ''/'' s))"

definition reservedSet :: "server_net \<Rightarrow> string list \<Rightarrow> u32 set" where
  "reservedSet sn used =
     set (case ipToUint32 (ServerIP sn) of None \<Rightarrow> [] | Some v \<Rightarrow> [v])
       \<union> set (List.map_filter parseHostUint32 used)"

text \<open>
  The loop \<^verbatim>\<open>for h := network + 1; h <= broadcast-1; h++\<close>. The increment wraps around, so that a
  loop up to the largest word would not end; \<open>None\<close> is not returning.
\<close>

partial_function (option) alloc_loop :: "u32 set \<Rightarrow> u32 \<Rightarrow> u32 \<Rightarrow> u32 option option" where
  "alloc_loop reserved h last_host =
     (if h \<le> last_host then
        (if h \<notin> reserved then Some (Some h) else alloc_loop reserved (h + 1) last_host)
      else Some None)"

definition AllocateAddress :: "server_net \<Rightarrow> string list \<Rightarrow> (clients_error + string) option" where
  "AllocateAddress sn used =
     (case v4Bounds (Subnet sn) of
        Inl e \<Rightarrow> Some (Inl e)
      | Inr (network, broadcast) \<Rightarrow>
          if broadcast \<le> network + 1 then Some (Inl ErrSubnetExhausted)
          else (case alloc_loop (reservedSet sn used) (network + 1) (broadcast - 1) of
                  None \<Rightarrow> None
                | Some None \<Rightarrow> Some (Inl ErrSubnetExhausted)
                | Some (Some h) \<Rightarrow> Some (Inr (ip_string (uint32ToIP h) @ ''/32''))))"

subsection \<open>Validation (validate.go)\<close>

definition is_alpha :: "char \<Rightarrow> bool" where
  "is_alpha c \<longleftrightarrow> (let n = (of_char c :: nat) in (65 \<le> n \<and> n \<le> 90) \<or> (97 \<le> n \<and> n \<le> 122))"

definition is_base64 :: "char \<Rightarrow> bool" where
  "is_base64 c \<longleftrightarrow> is_alpha c \<or> is_digit c \<or> c = CHR ''+'' \<or> c = CHR ''/''"

definition is_name_char :: "char \<Rightarrow> bool" where
  "is_name_char c \<longleftrightarrow> is_alpha c \<or> is_digit c \<or> c = CHR ''.'' \<or> c = CHR ''_'' \<or> c = CHR ''-''"

text \<open>The three regular expressions; Go's \<^verbatim>\<open>$\<close> without flags is the end of the text.\<close>

definition pubKeyRe :: "string \<Rightarrow> bool" where
  "pubKeyRe s \<longleftrightarrow> length s = 44 \<and> list_all is_base64 (take 43 s) \<and> drop 43 s = ''=''"

definition addrRe :: "string \<Rightarrow> bool" where
  "addrRe s \<longleftrightarrow>
     (let n = length s - 3
      in 4 \<le> length s \<and> list_all (\<lambda>c. is_digit c \<or> c = CHR ''.'') (take n s) \<and> drop n s = ''/32'')"

definition nameRe :: "string \<Rightarrow> bool" where
  "nameRe s \<longleftrightarrow> s \<noteq> [] \<and> list_all is_name_char s"

definition ValidatePublicKey :: "string \<Rightarrow> clients_error option" where
  "ValidatePublicKey key = (if \<not> pubKeyRe key then Some ErrPublicKeyFormat else None)"

definition ValidateName :: "string \<Rightarrow> clients_error option" where
  "ValidateName name =
     (if name = [] then Some ErrNameEmpty
      else if \<not> nameRe name then Some (ErrNameCharset name) else None)"

definition ValidateAddress :: "server_net \<Rightarrow> string \<Rightarrow> clients_error option" where
  "ValidateAddress sn a =
     (if \<not> addrRe a then Some (ErrAddressFormat a)
      else (case parse_cidr a of
              None \<Rightarrow> Some (ErrParseAddress a)
            | Some (x, _) \<Rightarrow>
                if to4 x = [] then Some (ErrAddressNotIPv4 a)
                else (case Subnet sn of
                        None \<Rightarrow> Some (ErrOutsideSubnet a)
                      | Some n \<Rightarrow>
                          if net_contains n (to4 x) then None else Some (ErrOutsideSubnet a))))"

record replace_entry =
  re_Name :: string
  re_Address :: string
  re_PublicKey :: string

text \<open>
  The loop of \<^verbatim>\<open>validateSet\<close>: the entry's index and the three sets of values seen so far.
\<close>

fun validate_entries :: "server_net \<Rightarrow> nat \<Rightarrow> string list \<Rightarrow> string list \<Rightarrow> string list \<Rightarrow>
    replace_entry list \<Rightarrow> clients_error option" where
  "validate_entries sn i names keys addrs [] = None"
| "validate_entries sn i names keys addrs (e # es) =
     (if ValidateName (re_Name e) \<noteq> None
      then map_option (ErrEntry i) (ValidateName (re_Name e))
      else if ValidatePublicKey (re_PublicKey e) \<noteq> None
      then map_option (ErrEntry i) (ValidatePublicKey (re_PublicKey e))
      else if re_Address e = [] then Some (ErrEntryAddressEmpty i (re_Name e))
      else if ValidateAddress sn (re_Address e) \<noteq> None
      then map_option (ErrEntry i) (ValidateAddress sn (re_Address e))
      else if re_Name e \<in> set names then Some (ErrDuplicateName (re_Name e))
      else if re_PublicKey e \<in> set keys then Some (ErrDuplicateKey i)
      else if re_Address e \<in> set addrs then Some (ErrDuplicateAddress (re_Address e))
      else validate_entries sn (i + 1) (re_Name e # names) (re_PublicKey e # keys)
             (re_Address e # addrs) es)"

definition validateSet :: "server_net \<Rightarrow> replace_entry list \<Rightarrow> clients_error option" where
  "validateSet sn entries = validate_entries sn 0 [] [] [] entries"

text \<open>The scan of \<^verbatim>\<open>used\<close> in \<^verbatim>\<open>ValidateOverride\<close>.\<close>

definition addr_in_use :: "u32 \<Rightarrow> string list \<Rightarrow> bool" where
  "addr_in_use v used \<longleftrightarrow> (\<exists>u \<in> set used. parseHostUint32 u = Some v)"

definition ValidateOverride :: "server_net \<Rightarrow> string \<Rightarrow> string list \<Rightarrow> clients_error + string" where
  "ValidateOverride sn a used =
     (case ValidateAddress sn a of
        Some e \<Rightarrow> Inl e
      | None \<Rightarrow>
          (case parse_cidr a of
             None \<Rightarrow> Inl (ErrParseAddress a)
           | Some (x, _) \<Rightarrow>
               (let v = (case ipToUint32 x of None \<Rightarrow> 0 | Some v \<Rightarrow> v)
                in if ipToUint32 (ServerIP sn) = Some v then Inl (ErrReservedServerIP a)
                   else if addr_in_use v used then Inl (ErrAddressInUse a)
                   else Inr (ip_string (uint32ToIP v) @ ''/32''))))"

subsection \<open>The allocation loop\<close>

lemma word_suc: assumes "(h::u32) < - 1" shows "unat (h + 1) = unat h + 1"
proof -
  have "1 + h \<noteq> 0"
  proof
    assume "1 + h = 0"
    then have "h = - 1" by (metis add_eq_0_iff)
    with assms show False by simp
  qed
  then show ?thesis by (simp add: unatSuc add.commute)
qed

lemma word_split: assumes "(h::u32) < - 1" shows "h \<le> y \<longleftrightarrow> y = h \<or> h + 1 \<le> y"
proof -
  have "unat h \<le> unat y \<longleftrightarrow> unat y = unat h \<or> unat h + 1 \<le> unat y" by linarith
  then show ?thesis unfolding word_le_nat_alt word_suc [OF assms] word_unat_eq_iff [of y h] .
qed

lemma alloc_loop_stop:
  assumes "l < h" shows "alloc_loop R h l = Some None"
proof -
  from assms have "\<not> h \<le> l" by (simp add: not_le)
  then show ?thesis by (subst alloc_loop.simps) simp
qed
lemma alloc_loop_hit: "h \<le> l \<Longrightarrow> h \<notin> R \<Longrightarrow> alloc_loop R h l = Some (Some h)"
  by (subst alloc_loop.simps) (simp add: leD)
lemma alloc_loop_next: "h \<le> l \<Longrightarrow> h \<in> R \<Longrightarrow> alloc_loop R h l = alloc_loop R (h + 1) l"
  by (subst alloc_loop.simps) (simp add: leD)

definition lowest_free :: "u32 set \<Rightarrow> u32 \<Rightarrow> u32 \<Rightarrow> u32 option \<Rightarrow> bool" where
  "lowest_free R h l r \<longleftrightarrow>
    (case r of None \<Rightarrow> \<forall>y. h \<le> y \<and> y \<le> l \<longrightarrow> y \<in> R
     | Some x \<Rightarrow> h \<le> x \<and> x \<le> l \<and> x \<notin> R \<and> (\<forall>y. h \<le> y \<and> y < x \<longrightarrow> y \<in> R))"

lemma lowest_free_next:
  assumes "h < - 1" and "h \<in> R" and "lowest_free R (h + 1) l r"
  shows "lowest_free R h l r"
proof (cases r)
  case None
  have "y \<in> R" if "h \<le> y" "y \<le> l" for y
    using that word_split [OF assms(1), of y] assms(2,3) None by (auto simp: lowest_free_def)
  with None show ?thesis by (simp add: lowest_free_def)
next
  case (Some x)
  have "h + 1 \<le> x" using Some assms(3) by (simp add: lowest_free_def)
  then have "h \<le> x" using word_split [OF assms(1), of x] by simp
  moreover have "y \<in> R" if "h \<le> y" "y < x" for y
    using that word_split [OF assms(1), of y] assms(2,3) Some by (auto simp: lowest_free_def)
  ultimately show ?thesis using Some assms(3) by (simp add: lowest_free_def)
qed

lemma alloc_loop_returns:
  assumes "l < - 1"
  shows "\<exists>r. alloc_loop R h l = Some r \<and> lowest_free R h l r"
proof (induction "unat l + 1 - unat h" arbitrary: h)
  case 0
  then have "l < h" by (simp add: word_less_nat_alt)
  then show ?case by (intro exI [of _ None]) (auto simp: alloc_loop_stop lowest_free_def)
next
  case (Suc k)
  then have hl: "h \<le> l" by (simp add: word_le_nat_alt)
  with assms have h: "h < - 1" by (rule order.strict_trans1 [rotated])
  show ?case
  proof (cases "h \<in> R")
    case False
    with hl show ?thesis
      by (intro exI [of _ "Some h"]) (auto simp: alloc_loop_hit lowest_free_def)
  next
    case True
    from Suc.hyps(2) word_suc [OF h] have "k = unat l + 1 - unat (h + 1)" by simp
    from Suc.hyps(1) [OF this] obtain r where
      "alloc_loop R (h + 1) l = Some r" "lowest_free R (h + 1) l r" by blast
    with True hl h show ?thesis
      by (intro exI [of _ r]) (simp add: alloc_loop_next lowest_free_next)
  qed
qed

lemma alloc_loop_spec: "l < - 1 \<Longrightarrow> alloc_loop R h l = Some r \<Longrightarrow> lowest_free R h l r"
  using alloc_loop_returns [of l R h] by auto

lemma pred_less_max: "a < b \<Longrightarrow> b - 1 < (- 1 :: u32)" for a b :: u32
proof -
  assume "a < b"
  then have "unat b \<noteq> 0" by (simp add: word_less_nat_alt)
  then have "b \<noteq> 0" by (simp add: unat_eq_zero)
  then have "b - 1 \<noteq> -1" by simp
  then show ?thesis by (rule word_order.not_eq_extremum [THEN iffD1])
qed

lemma v4Bounds_v4_net:
  assumes "n \<le> 32"
  shows "v4Bounds (Some (v4_net v n)) =
    Inr (v AND NOT (mask (32 - n)), (v AND NOT (mask (32 - n))) + push_bit (32 - n) 1 - 1)"
  using assms by (simp add: v4Bounds_def v4_net_def mask_size_def mask_length_cidr Let_def)

text \<open>For a prefix of at most 30 bits the bounds are those of the block, without wrap-around.\<close>

lemma block_bounds:
  fixes nn :: u32
  assumes "n \<le> 30" and nn: "nn = v AND NOT (mask (32 - n))"
  shows "unat (nn + 1) = unat nn + 1"
    and "unat (nn + push_bit (32 - n) 1 - 1) = unat nn + 2 ^ (32 - n) - 1"
    and "4 \<le> (2 ^ (32 - n) :: nat)"
    and "unat nn + 2 ^ (32 - n) \<le> 2 ^ 32"
proof -
  show four: "4 \<le> (2 ^ (32 - n) :: nat)"
    using power_increasing [of 2 "32 - n" "2::nat"] assms(1) by simp
  obtain q where q: "unat nn = 2 ^ (32 - n) * q"
    using and_not_mask_unat [of v "32 - n"] nn by simp
  have p: "(2::nat) ^ 32 = 2 ^ (32 - n) * 2 ^ n"
    using assms(1) by (simp flip: power_add)
  have "unat nn < 2 ^ 32" using unsigned_less [of nn] by simp
  then have "2 ^ (32 - n) * q < 2 ^ (32 - n) * (2 ^ n :: nat)" unfolding q p .
  then have "q < 2 ^ n" by simp
  then have "2 ^ (32 - n) * (q + 1) \<le> 2 ^ (32 - n) * (2 ^ n :: nat)"
    by (intro mult_le_mono2) simp
  with q p show le: "unat nn + 2 ^ (32 - n) \<le> 2 ^ 32" by (simp add: algebra_simps)
  have "nn \<noteq> - 1"
  proof
    assume "nn = - 1"
    then have "unat nn = 2 ^ 32 - 1" by (simp add: unsigned_minus_1_eq_mask mask_eq_exp_minus_1)
    with le four show False by simp
  qed
  then show "unat (nn + 1) = unat nn + 1"
    by (intro word_suc word_order.not_eq_extremum [THEN iffD1])
  have "nn + push_bit (32 - n) 1 - 1 = word_of_nat (unat nn + 2 ^ (32 - n) - 1)"
    using four by (simp add: of_nat_diff push_bit_eq_mult)
  moreover have "unat nn + 2 ^ (32 - n) - 1 < 2 ^ 32" using le four by simp
  ultimately show "unat (nn + push_bit (32 - n) 1 - 1) = unat nn + 2 ^ (32 - n) - 1"
    by (simp add: unat_of_nat)
qed

lemma AllocateAddress_returns: "\<exists>r. AllocateAddress sn used = Some r"
proof (cases "v4Bounds (Subnet sn)")
  case (Inr p)
  obtain nw bc where p: "p = (nw, bc)" by (cases p)
  show ?thesis
  proof (cases "bc \<le> nw + 1")
    case False
    then have "bc - 1 < - 1" using pred_less_max [of "nw + 1" bc] by simp
    then obtain r where "alloc_loop (reservedSet sn used) (nw + 1) (bc - 1) = Some r"
      using alloc_loop_returns by blast
    with Inr p False show ?thesis by (cases r) (simp_all add: AllocateAddress_def)
  qed (simp add: AllocateAddress_def Inr p)
qed (simp add: AllocateAddress_def)

text \<open>The set of reserved addresses, as a predicate on the address.\<close>

lemma in_reservedSet:
  "h \<in> reservedSet sn used \<longleftrightarrow>
    ipToUint32 (ServerIP sn) = Some h \<or> (\<exists>u \<in> set used. parseHostUint32 u = Some h)"
  by (auto simp: reservedSet_def List.map_filter_def image_iff split: option.splits)

lemma uint32ToIP_eq: "uint32ToIP v = v4_prefix @ u32_bytes v"
  by (simp add: uint32ToIP_def u32_bytes_def)

definition host_cidr :: "u32 \<Rightarrow> string" where
  "host_cidr h = dotted (u32_bytes h) @ ''/32''"

lemma ip_string_uint32ToIP [simp]: "ip_string (uint32ToIP h) = dotted (u32_bytes h)"
  by (simp add: uint32ToIP_eq)

lemma host_cidr_inj [simp]: "host_cidr a = host_cidr b \<longleftrightarrow> a = b"
  by (simp add: host_cidr_def dotted_inj u32_bytes_inj)

lemma itoa_32: "itoa_nat 32 = ''32''"
  by code_simp

lemma parse_cidr_host: "parse_cidr (host_cidr h) = Some (v4_prefix @ u32_bytes h, v4_net h 32)"
  using parse_cidr_v4 [of "u32_bytes h" 32] by (simp add: host_cidr_def itoa_32)

lemma parseHost_host_cidr [simp]: "parseHostUint32 (host_cidr h) = Some h"
proof -
  have "before_byte CHR ''/'' (dotted (u32_bytes h) @ ''/32'') = dotted (u32_bytes h)"
    by (simp add: before_byte_def takeWhile_append)
  then show ?thesis by (simp add: parseHostUint32_def host_cidr_def ipToUint32_def)
qed

lemma addrRe_host_cidr [simp]: "addrRe (host_cidr h)"
proof -
  obtain a b c d where "u32_bytes h = [a, b, c, d]" by (simp add: u32_bytes_def)
  then have "list_all (\<lambda>c. is_digit c \<or> c = CHR ''.'') (dotted (u32_bytes h))"
    unfolding list_all_iff by (metis dotted_chars)
  moreover have "0 < length (dotted (u32_bytes h))" by simp
  ultimately show ?thesis
    by (simp add: addrRe_def host_cidr_def Let_def del: length_greater_0_conv)
qed

lemma ValidateAddress_host_cidr:
  "ValidateAddress sn (host_cidr h) =
    (case Subnet sn of
       None \<Rightarrow> Some (ErrOutsideSubnet (host_cidr h))
     | Some n \<Rightarrow> if net_contains n (u32_bytes h) then None else Some (ErrOutsideSubnet (host_cidr h)))"
  by (simp add: ValidateAddress_def parse_cidr_host split: option.split)

subsection \<open>What the allocator and the validators promise\<close>

definition reserved_host :: "server_net \<Rightarrow> string list \<Rightarrow> u32 \<Rightarrow> bool" where
  "reserved_host sn used h \<longleftrightarrow>
     ipToUint32 (ServerIP sn) = Some h \<or> (\<exists>u \<in> set used. parseHostUint32 u = Some h)"

lemma reservedSet_iff: "h \<in> reservedSet sn used \<longleftrightarrow> reserved_host sn used h"
  by (simp add: in_reservedSet reserved_host_def)

lemma addr_in_block:
  assumes "n \<le> 32"
  shows "net_contains (v4_net v n) (u32_bytes h) \<longleftrightarrow>
    unat (v AND NOT (mask (32 - n))) \<le> unat h \<and>
    unat h < unat (v AND NOT (mask (32 - n))) + 2 ^ (32 - n)"
  using assms by (simp add: net_contains_v4 same_block [of "v AND NOT (mask (32 - n))"])

lemma ValidateAddress_NoneD:
  assumes "ValidateAddress sn a = None"
  shows "\<exists>h N. a = host_cidr h \<and> Subnet sn = Some N \<and> net_contains N (u32_bytes h)"
proof -
  from assms have re: "addrRe a" by (simp add: ValidateAddress_def split: if_splits)
  define b where "b = take (length a - 3) a"
  have a: "a = b @ ''/32''" and b: "list_all (\<lambda>c. is_digit c \<or> c = CHR ''.'') b"
    using re unfolding addrRe_def Let_def b_def by (metis append_take_drop_id, simp)
  from assms re obtain x n where p: "parse_cidr a = Some (x, n)"
    by (auto simp: ValidateAddress_def split: option.splits)
  from parse_cidr_SomeD [of b x n] p a b obtain h where h: "a = host_cidr h"
    by (auto simp: host_cidr_def)
  with assms show ?thesis by (auto simp: ValidateAddress_host_cidr split: option.splits if_splits)
qed

lemma ValidateAddress_None_iff:
  "ValidateAddress sn a = None \<longleftrightarrow>
    (\<exists>h N. a = host_cidr h \<and> Subnet sn = Some N \<and> net_contains N (u32_bytes h))"
  using ValidateAddress_NoneD [of sn a] by (auto simp: ValidateAddress_host_cidr)

lemma ValidateOverride_host_cidr:
  assumes "ValidateAddress sn (host_cidr h) = None"
  shows "ValidateOverride sn (host_cidr h) used =
    (if ipToUint32 (ServerIP sn) = Some h then Inl (ErrReservedServerIP (host_cidr h))
     else if \<exists>u \<in> set used. parseHostUint32 u = Some h then Inl (ErrAddressInUse (host_cidr h))
     else Inr (host_cidr h))"
  using assms
  by (simp add: ValidateOverride_def parse_cidr_host ipToUint32_def addr_in_use_def
      flip: host_cidr_def)

lemma unat_of_nat_below: "h \<le> unat (l :: u32) \<Longrightarrow> unat (word_of_nat h :: u32) = h"
proof -
  assume "h \<le> unat l"
  moreover have "unat l < 2 ^ 32" using unsigned_less [of l] by simp
  ultimately show ?thesis by (simp add: unat_of_nat take_bit_nat_eq_self)
qed

lemma find_hosts:
  fixes nn :: u32
  assumes low: "lowest_free R (nn + 1) l r" and nn: "unat (nn + 1) = unat nn + 1"
  shows "find (\<lambda>h. word_of_nat h \<notin> R) [unat nn + 1 ..< unat l + 1] = map_option unat r"
proof (cases r)
  case None
  have "word_of_nat h \<in> R" if "unat nn + 1 \<le> h" "h < unat l + 1" for h
  proof -
    have "unat (word_of_nat h :: u32) = h"
      using that by (intro unat_of_nat_below [of _ l]) simp
    then show ?thesis using low None that nn by (auto simp: lowest_free_def word_le_nat_alt)
  qed
  then show ?thesis using None by (auto simp: find_None_iff)
next
  case (Some x)
  have x: "unat nn + 1 \<le> unat x" "unat x \<le> unat l" "x \<notin> R"
    and below: "\<And>y. nn + 1 \<le> y \<Longrightarrow> y < x \<Longrightarrow> y \<in> R"
    using low Some nn by (auto simp: lowest_free_def word_le_nat_alt)
  have split: "[unat nn + 1 ..< unat l + 1] =
      [unat nn + 1 ..< unat x] @ unat x # [unat x + 1 ..< unat l + 1]"
    using x upt_add_eq_append [of "unat nn + 1" "unat x" "unat l + 1 - unat x"]
    by (simp add: upt_conv_Cons del: upt_Suc)
  have "word_of_nat h \<in> R" if "unat nn + 1 \<le> h" "h < unat x" for h
  proof (rule below)
    have "unat (word_of_nat h :: u32) = h"
      using that by (intro unat_of_nat_below [of _ x]) simp
    then show "nn + 1 \<le> word_of_nat h" "word_of_nat h < x"
      using that nn by (auto simp: word_le_nat_alt word_less_nat_alt)
  qed
  then have "find (\<lambda>h. word_of_nat h \<notin> R) [unat nn + 1 ..< unat x] = None"
    by (auto simp: find_None_iff)
  with split x(3) Some show ?thesis by (simp add: find_append)
qed

lemma AllocateAddress_v4_net:
  assumes S: "Subnet sn = Some (v4_net v n)" and n: "n \<le> 30"
  defines "nn \<equiv> unat (v AND NOT (mask (32 - n)))"
  shows "AllocateAddress sn used =
    Some (case find (\<lambda>h. \<not> reserved_host sn used (word_of_nat h)) [nn + 1 ..< nn + 2 ^ (32 - n) - 1] of
            None \<Rightarrow> Inl ErrSubnetExhausted
          | Some h \<Rightarrow> Inr (host_cidr (word_of_nat h)))"
proof -
  define w where "w = v AND NOT (mask (32 - n))"
  define bc where "bc = w + push_bit (32 - n) 1 - 1"
  note bb = block_bounds [OF n w_def]
  have B: "v4Bounds (Subnet sn) = Inr (w, bc)"
    using n S by (simp add: v4Bounds_v4_net w_def bc_def)
  have ubc: "unat bc = unat w + 2 ^ (32 - n) - 1" using bb(2) by (simp add: bc_def)
  have gt: "w + 1 < bc" using bb ubc by (simp add: word_less_nat_alt)
  then have lt: "bc - 1 < - 1" by (rule pred_less_max)
  have ub1: "unat (bc - 1) = unat w + 2 ^ (32 - n) - 2"
    using gt ubc by (subst unat_minus_one) auto
  obtain r where r: "alloc_loop (reservedSet sn used) (w + 1) (bc - 1) = Some r"
    "lowest_free (reservedSet sn used) (w + 1) (bc - 1) r"
    using alloc_loop_returns [OF lt] by blast
  have e: "unat (bc - 1) + 1 = unat w + 2 ^ (32 - n) - 1"
    using ub1 bb(3) by linarith
  have f: "find (\<lambda>h. \<not> reserved_host sn used (word_of_nat h)) [nn + 1 ..< nn + 2 ^ (32 - n) - 1] =
      map_option unat r"
    using find_hosts [OF r(2) bb(1)] unfolding e reservedSet_iff nn_def w_def .
  from B gt r(1) show ?thesis unfolding f
    by (cases r) (auto simp: AllocateAddress_def host_cidr_def)
qed

lemma ParseServerNet_dotted:
  "n \<le> 32 \<Longrightarrow> ParseServerNet (dotted (u32_bytes v) @ ''/'' @ itoa_nat n) =
    Inr \<lparr>Subnet = Some (v4_net v n), ServerIP = u32_bytes v\<rparr>"
  using parse_cidr_v4 [of "u32_bytes v" n] by (simp add: ParseServerNet_def Let_def)

definition entry_ok :: "server_net \<Rightarrow> replace_entry \<Rightarrow> bool" where
  "entry_ok sn e \<longleftrightarrow> nameRe (re_Name e) \<and> pubKeyRe (re_PublicKey e) \<and>
     ValidateAddress sn (re_Address e) = None"

lemma ValidateName_None [simp]: "ValidateName s = None \<longleftrightarrow> nameRe s"
  by (auto simp: ValidateName_def nameRe_def)

lemma ValidatePublicKey_None [simp]: "ValidatePublicKey s = None \<longleftrightarrow> pubKeyRe s"
  by (simp add: ValidatePublicKey_def)

lemma ValidateAddress_ne: "ValidateAddress sn a = None \<Longrightarrow> a \<noteq> []"
  by (auto simp: ValidateAddress_def addrRe_def)

lemma validate_entries_None:
  "validate_entries sn i names keys addrs es = None \<longleftrightarrow>
    (\<forall>e \<in> set es. entry_ok sn e \<and> re_Name e \<notin> set names \<and> re_PublicKey e \<notin> set keys \<and>
      re_Address e \<notin> set addrs) \<and>
    distinct (map re_Name es) \<and> distinct (map re_PublicKey es) \<and> distinct (map re_Address es)"
proof (induction es arbitrary: i names keys addrs)
  case (Cons e es)
  show ?case
  proof (cases "entry_ok sn e")
    case True
    then have "re_Address e \<noteq> []" by (auto simp: entry_ok_def dest: ValidateAddress_ne)
    with True show ?thesis by (auto simp: Cons.IH entry_ok_def intro: rev_image_eqI)
  qed (auto simp: entry_ok_def)
qed simp

lemma allocated_accepted:
  assumes "Subnet sn = Some (v4_net v n)" and "n \<le> 30" and "AllocateAddress sn used = Some (Inr a)"
  shows "ValidateOverride sn a used = Inr a"
proof -
  define nn where "nn = unat (v AND NOT (mask (32 - n)))"
  from assms obtain h where h: "find (\<lambda>h. \<not> reserved_host sn used (word_of_nat h))
      [nn + 1 ..< nn + 2 ^ (32 - n) - 1] = Some h" and a: "a = host_cidr (word_of_nat h)"
    unfolding nn_def by (auto simp: AllocateAddress_v4_net split: option.splits)
  from find_SomeD [OF h] have free: "\<not> reserved_host sn used (word_of_nat h)"
    and lo: "nn + 1 \<le> h" and hi: "h < nn + 2 ^ (32 - n) - 1" by auto
  have "unat (word_of_nat h :: u32) = h"
    using hi block_bounds(4) [OF assms(2) refl, of v]
    by (simp add: nn_def unat_of_nat take_bit_nat_eq_self)
  then have "net_contains (v4_net v n) (u32_bytes (word_of_nat h))"
    using lo hi assms(2) unfolding nn_def by (subst addr_in_block) auto
  with assms(1) a have "ValidateAddress sn (host_cidr (word_of_nat h)) = None"
    by (simp add: ValidateAddress_host_cidr)
  with free a show ?thesis by (auto simp: ValidateOverride_host_cidr reserved_host_def)
qed

lemma override_accepted:
  "ValidateOverride sn a used = Inr b \<longleftrightarrow> b = a \<and>
    (\<exists>h N. a = host_cidr h \<and> Subnet sn = Some N \<and> net_contains N (u32_bytes h) \<and>
      \<not> reserved_host sn used h)"
proof (cases "ValidateAddress sn a")
  case None
  from ValidateAddress_NoneD [OF this] None show ?thesis
    by (auto simp: ValidateOverride_host_cidr reserved_host_def split: if_splits)
next
  case (Some e)
  then show ?thesis
    using ValidateAddress_None_iff [of sn a] by (auto simp: ValidateOverride_def)
qed

text \<open>
  Allocation returns for every server network and every list of used addresses: the loop
  over 32-bit host numbers never wraps around into an endless run.
\<close>

theorem AllocateAddress_terminates: "AllocateAddress sn used \<noteq> None"
  using AllocateAddress_returns [of sn used] by auto

text \<open>
  C2. On an IPv4 network of at most 30 prefix bits the allocator returns the lowest host address
  strictly between the network and the broadcast address that is neither the server's nor used,
  as a /32, and reports exhaustion exactly when there is none.
\<close>

theorem AllocateAddress_lowest_free:
  assumes "Subnet sn = Some (v4_net v n)" and "n \<le> 30" and "nn = unat (v AND NOT (mask (32 - n)))"
  shows "AllocateAddress sn used =
    Some (case find (\<lambda>h. \<not> reserved_host sn used (word_of_nat h)) [nn + 1 ..< nn + 2 ^ (32 - n) - 1] of
            None \<Rightarrow> Inl ErrSubnetExhausted
          | Some h \<Rightarrow> Inr (host_cidr (word_of_nat h)))"
  unfolding assms(3) by (rule AllocateAddress_v4_net [OF assms(1,2)])

lemma default_net: "ParseServerNet [] = Inr \<lparr>Subnet = Some (v4_net 0xAC100F01 24), ServerIP = u32_bytes 0xAC100F01\<rparr>"
  by code_simp

theorem AllocateAddress_lowest_free_witness:
  "AllocateAddress \<lparr>Subnet = Some (v4_net 0xAC100F01 29), ServerIP = u32_bytes 0xAC100F01\<rparr>
     [''172.16.15.2/32'', ''172.16.15.4''] = Some (Inr ''172.16.15.3/32'')"
proof -
  let ?sn = "\<lparr>Subnet = Some (v4_net 0xAC100F01 29), ServerIP = u32_bytes 0xAC100F01\<rparr>"
  let ?used = "[''172.16.15.2/32'', ''172.16.15.4'']"
  have m: "(2886733569 :: u32) AND NOT (mask 3) = 2886733568" by code_simp
  have p: "parseHostUint32 ''172.16.15.2/32'' = Some 0xAC100F02" by code_simp
  have q: "parseHostUint32 ''172.16.15.4'' = Some 0xAC100F04" by code_simp
  have r: "reserved_host ?sn ?used 0xAC100F01" "reserved_host ?sn ?used 0xAC100F02"
      "\<not> reserved_host ?sn ?used 0xAC100F03"
    by (simp_all add: reserved_host_def ipToUint32_def p q)
  have h: "host_cidr 0xAC100F03 = ''172.16.15.3/32''" by code_simp
  show ?thesis
    using AllocateAddress_lowest_free [of ?sn "0xAC100F01" 29 2886733568 ?used]
     m r h by (simp add: upt_conv_Cons)
qed

text \<open>
  What the allocator hands out, the validator of operator-supplied addresses accepts
  unchanged against the same used list.
\<close>

theorem AllocateAddress_accepted:
  assumes "Subnet sn = Some (v4_net v n)" and "n \<le> 30" and "AllocateAddress sn used = Some (Inr a)"
  shows "ValidateOverride sn a used = Inr a"
  using assms by (rule allocated_accepted)

theorem AllocateAddress_accepted_witness:
  "ValidateOverride \<lparr>Subnet = Some (v4_net 0xAC100F01 29), ServerIP = u32_bytes 0xAC100F01\<rparr>
     ''172.16.15.2/32'' [] = Inr ''172.16.15.2/32''"
proof -
  let ?sn = "\<lparr>Subnet = Some (v4_net 0xAC100F01 29), ServerIP = u32_bytes 0xAC100F01\<rparr>"
  have m: "(2886733569 :: u32) AND NOT (mask 3) = 2886733568" by code_simp
  have r: "reserved_host ?sn [] 0xAC100F01" "\<not> reserved_host ?sn [] 0xAC100F02"
    by (simp_all add: reserved_host_def ipToUint32_def)
  have h: "host_cidr 0xAC100F02 = ''172.16.15.2/32''" by code_simp
  have nn: "unat ((2886733569 :: u32) AND NOT (mask (32 - 29))) = 2886733568" using m by simp
  have f: "find (\<lambda>h. \<not> reserved_host ?sn [] (word_of_nat h))
      [2886733568 + 1 ..< 2886733568 + 2 ^ (32 - 29) - 1] = Some 2886733570"
    using r by (simp add: upt_conv_Cons)
  have "AllocateAddress ?sn [] = Some (Inr ''172.16.15.2/32'')"
    using AllocateAddress_v4_net [of ?sn "0xAC100F01" 29 "[]"] h unfolding nn f by simp
  then show ?thesis
    using AllocateAddress_accepted [of ?sn "0xAC100F01" 29 "[]" "''172.16.15.2/32''"] by simp
qed

text \<open>
  An operator-supplied address is accepted exactly when it is the canonical text of a host
  of the server network that is neither the server's own nor used, and it is stored as given.
\<close>

theorem ValidateOverride_iff:
  "ValidateOverride sn a used = Inr b \<longleftrightarrow> b = a \<and>
    (\<exists>h N. a = host_cidr h \<and> Subnet sn = Some N \<and> net_contains N (u32_bytes h) \<and>
      \<not> reserved_host sn used h)"
  by (rule override_accepted)

text \<open>
  A bulk payload is accepted exactly when every name, key and address is well formed (the
  addresses inside the server network) and no two entries share a name, a key or an address.
\<close>

theorem validateSet_accepts_iff:
  "validateSet sn es = None \<longleftrightarrow>
    list_all (entry_ok sn) es \<and> distinct (map re_Name es) \<and>
    distinct (map re_PublicKey es) \<and> distinct (map re_Address es)"
  by (auto simp: validateSet_def validate_entries_None list_all_iff)

text \<open>
  The bulk check does not reserve the server's own address, which both the allocator and
  the single-client validator do.
\<close>

theorem validateSet_accepts_server_ip:
  "\<exists>sn e. ParseServerNet [] = Inr sn \<and> validateSet sn [e] = None \<and>
    ValidateOverride sn (re_Address e) [] = Inl (ErrReservedServerIP (re_Address e))"
proof -
  define sn where "sn = \<lparr>Subnet = Some (v4_net 0xAC100F01 24), ServerIP = u32_bytes 0xAC100F01\<rparr>"
  define e where "e = \<lparr>re_Name = ''laptop'', re_Address = ''172.16.15.1/32'',
    re_PublicKey = replicate 43 CHR ''A'' @ ''=''\<rparr>"
  have "validateSet sn [e] = None" unfolding sn_def e_def by code_simp
  moreover have "ValidateOverride sn (re_Address e) [] = Inl (ErrReservedServerIP (re_Address e))"
    unfolding sn_def e_def by code_simp
  ultimately show ?thesis using default_net unfolding sn_def by blast
qed

text \<open>
  At the top of the address space the guard against tiny prefixes wraps around: the server
  network 255.255.255.255/32 is not exhausted but allocates 0.0.0.0/32, which lies outside it.
\<close>

theorem AllocateAddress_top_wraps:
  "\<exists>sn. ParseServerNet ''255.255.255.255/32'' = Inr sn \<and>
    AllocateAddress sn [] = Some (Inr ''0.0.0.0/32'') \<and>
    ValidateAddress sn ''0.0.0.0/32'' = Some (ErrOutsideSubnet ''0.0.0.0/32'')"
proof -
  define sn where "sn = \<lparr>Subnet = Some (v4_net (- 1) 32), ServerIP = u32_bytes (- 1)\<rparr>"
  have p: "ParseServerNet ''255.255.255.255/32'' = Inr sn" unfolding sn_def by code_simp
  have v: "v4Bounds (Subnet sn) = Inr (- 1, - 1)" unfolding sn_def by code_simp
  have r: "0 \<notin> reservedSet sn []" unfolding sn_def by code_simp
  have h: "ip_string (uint32ToIP 0) @ ''/32'' = ''0.0.0.0/32''" by code_simp
  have "AllocateAddress sn [] = Some (Inr ''0.0.0.0/32'')"
    using h r by (simp add: AllocateAddress_def v alloc_loop_hit)
  moreover have "ValidateAddress sn ''0.0.0.0/32'' = Some (ErrOutsideSubnet ''0.0.0.0/32'')"
    unfolding sn_def by code_simp
  ultimately show ?thesis using p by blast
qed

end
