(* ===== verification/Db.thy ===== *)
theory Db
  imports GoStrings
begin

text \<open>
  \<^verbatim>\<open>dashboard/internal/db/db.go\<close>: the SQLite store. The tables are lists of rows in rowid
  order; the statements the package executes are the operations on them, with the constraints of
  its schema (PRIMARY KEY, UNIQUE, AUTOINCREMENT) checked per statement, as SQLite does. Every
  call into the driver takes one element of the list \<open>faults\<close>: \<open>True\<close> is a call that fails with
  a driver error and has no effect (a cancelled context, a full disk, a lock); a list that has
  run out fails no more. A transaction that is rolled back, or whose commit fails, leaves the
  tables as they were before it.
\<close>

subsection \<open>Rows and tables\<close>

record system_metric =
  sm_TS :: time
  sm_CPUPct :: rat
  sm_MemPct :: rat

record traffic_metric =
  tm_TS :: time
  tm_RxBytesCum :: int
  tm_TxBytesCum :: int

record client_traffic =
  ct_TS :: time
  ct_PublicKey :: string
  ct_Name :: string
  ct_Address :: string
  ct_RxBytesCum :: int
  ct_TxBytesCum :: int

record handshake_event =
  he_TS :: time
  he_PublicKey :: string
  he_Name :: string

record client =
  ID :: int
  Name :: string
  PublicKey :: string
  Address :: string
  Enabled :: bool
  Note :: "string option"
  CreatedAt :: time
  UpdatedAt :: time

text \<open>The columns of the \<^verbatim>\<open>clients\<close> table: times in seconds, \<^verbatim>\<open>enabled\<close> as 0 or 1.\<close>

record client_row =
  r_id :: int
  r_name :: string
  r_public_key :: string
  r_address :: string
  r_enabled :: int
  r_note :: "string option"
  r_created_at :: int
  r_updated_at :: int

text \<open>The four time series; a row of the model carries its \<^verbatim>\<open>ts\<close> column in seconds.\<close>

record tables =
  clients :: "client_row list"
  client_seq :: int
  system_metrics :: "(int \<times> rat \<times> rat) list"
  traffic_metrics :: "(int \<times> int \<times> int) list"
  client_traffics :: "((int \<times> string) \<times> string \<times> string \<times> int \<times> int) list"
  handshake_events :: "((int \<times> string) \<times> string) list"

record db =
  tabs :: tables
  faults :: "bool list"

datatype sql_error = DriverError | UniqueViolation

datatype db_error = DbErr string sql_error

definition empty_tables :: tables where
  "empty_tables = \<lparr>clients = [], client_seq = 0, system_metrics = [], traffic_metrics = [],
     client_traffics = [], handshake_events = []\<rparr>"

definition open_db :: "bool list \<Rightarrow> db" where
  "open_db fs = \<lparr>tabs = empty_tables, faults = fs\<rparr>"

definition b2i :: "bool \<Rightarrow> int" where
  "b2i b = (if b then 1 else 0)"

definition client_of_row :: "client_row \<Rightarrow> client" where
  "client_of_row r = \<lparr>ID = r_id r, Name = r_name r, PublicKey = r_public_key r, Address = r_address r,
     Enabled = (r_enabled r \<noteq> 0), Note = r_note r,
     CreatedAt = unix_time (r_created_at r), UpdatedAt = unix_time (r_updated_at r)\<rparr>"

subsection \<open>Calls into the driver\<close>

type_synonym 'a dbm = "db \<Rightarrow> (db_error + 'a) \<times> db"

definition db_return :: "'a \<Rightarrow> 'a dbm" where
  "db_return x d = (Inr x, d)"

definition db_bind :: "'a dbm \<Rightarrow> ('a \<Rightarrow> 'b dbm) \<Rightarrow> 'b dbm" where
  "db_bind m f d = (case m d of (Inl e, d') \<Rightarrow> (Inl e, d') | (Inr x, d') \<Rightarrow> f x d')"

text \<open>One call: the next element of the schedule, then the statement on the tables.\<close>

definition db_call :: "string \<Rightarrow> (tables \<Rightarrow> sql_error + 'a \<times> tables) \<Rightarrow> 'a dbm" where
  "db_call what f d =
     (let d' = d\<lparr>faults := tl (faults d)\<rparr>
      in if faults d \<noteq> [] \<and> hd (faults d) then (Inl (DbErr what DriverError), d')
         else (case f (tabs d) of
                 Inl e \<Rightarrow> (Inl (DbErr what e), d')
               | Inr (x, t) \<Rightarrow> (Inr x, d'\<lparr>tabs := t\<rparr>)))"

definition db_ok :: "string \<Rightarrow> unit dbm" where
  "db_ok what = db_call what (\<lambda>t. Inr ((), t))"

text \<open>A query, and the iteration over its rows, which can fail on its own.\<close>

definition db_query :: "string \<Rightarrow> string \<Rightarrow> (tables \<Rightarrow> 'a) \<Rightarrow> 'a dbm" where
  "db_query what iter f =
     db_bind (db_call what (\<lambda>t. Inr (f t, t))) (\<lambda>rows. db_bind (db_ok iter) (\<lambda>_. db_return rows))"

definition db_tx :: "string \<Rightarrow> string \<Rightarrow> 'a dbm \<Rightarrow> 'a dbm" where
  "db_tx begin_tx commit body =
     db_bind (db_ok begin_tx)
       (\<lambda>_ d. case db_bind body (\<lambda>x. db_bind (db_ok commit) (\<lambda>_. db_return x)) d of
          (Inl e, d') \<Rightarrow> (Inl e, d'\<lparr>tabs := tabs d\<rparr>)
        | (Inr x, d') \<Rightarrow> (Inr x, d'))"

fun db_each :: "('x \<Rightarrow> unit dbm) \<Rightarrow> 'x list \<Rightarrow> unit dbm" where
  "db_each f [] = db_return ()"
| "db_each f (x # xs) = db_bind (f x) (\<lambda>_. db_each f xs)"

subsection \<open>The time series\<close>

text \<open>\<^verbatim>\<open>INSERT OR REPLACE\<close> on a primary key: the old row goes, the new one gets the next rowid.\<close>

definition replace_row :: "'k \<Rightarrow> 'v \<Rightarrow> ('k \<times> 'v) list \<Rightarrow> ('k \<times> 'v) list" where
  "replace_row k v rows = filter (\<lambda>r. fst r \<noteq> k) rows @ [(k, v)]"

definition InsertSystemMetric :: "system_metric \<Rightarrow> unit dbm" where
  "InsertSystemMetric m = db_call ''insert system_metrics''
     (\<lambda>t. Inr ((), t\<lparr>system_metrics :=
        replace_row (unix_secs (sm_TS m)) (sm_CPUPct m, sm_MemPct m) (system_metrics t)\<rparr>))"

definition InsertTrafficMetric :: "traffic_metric \<Rightarrow> unit dbm" where
  "InsertTrafficMetric m = db_call ''insert traffic_metrics''
     (\<lambda>t. Inr ((), t\<lparr>traffic_metrics :=
        replace_row (unix_secs (tm_TS m)) (tm_RxBytesCum m, tm_TxBytesCum m) (traffic_metrics t)\<rparr>))"

definition put_client_traffic :: "client_traffic \<Rightarrow> tables \<Rightarrow> tables" where
  "put_client_traffic r t = t\<lparr>client_traffics :=
     replace_row (unix_secs (ct_TS r), ct_PublicKey r)
       (ct_Name r, ct_Address r, ct_RxBytesCum r, ct_TxBytesCum r) (client_traffics t)\<rparr>"

definition InsertClientTraffic :: "client_traffic list \<Rightarrow> unit dbm" where
  "InsertClientTraffic rows =
     (if rows = [] then db_return ()
      else db_tx ''begin client_traffic tx'' ''commit client_traffic tx''
        (db_bind (db_ok ''prepare client_traffic insert'')
          (\<lambda>_. db_each (\<lambda>r. db_call ''insert client_traffic row'' (\<lambda>t. Inr ((), put_client_traffic r t))) rows)))"

definition put_handshake :: "handshake_event \<Rightarrow> tables \<Rightarrow> tables" where
  "put_handshake e t = t\<lparr>handshake_events :=
     replace_row (unix_secs (he_TS e), he_PublicKey e) (he_Name e) (handshake_events t)\<rparr>"

definition InsertHandshakeEvents :: "handshake_event list \<Rightarrow> unit dbm" where
  "InsertHandshakeEvents events =
     (if events = [] then db_return ()
      else db_tx ''begin handshake_events tx'' ''commit handshake_events tx''
        (db_bind (db_ok ''prepare handshake_events insert'')
          (\<lambda>_. db_each (\<lambda>e. db_call ''insert handshake_events row'' (\<lambda>t. Inr ((), put_handshake e t))) events)))"

text \<open>\<^verbatim>\<open>WHERE ts BETWEEN ? AND ?\<close>.\<close>

definition between :: "time \<Rightarrow> time \<Rightarrow> int \<Rightarrow> bool" where
  "between from to ts \<longleftrightarrow> unix_secs from \<le> ts \<and> ts \<le> unix_secs to"

definition QuerySystemMetrics :: "time \<Rightarrow> time \<Rightarrow> system_metric list dbm" where
  "QuerySystemMetrics from to = db_query ''query system_metrics'' ''iterate system_metrics''
     (\<lambda>t. map (\<lambda>(ts, cpu, mem). \<lparr>sm_TS = unix_time ts, sm_CPUPct = cpu, sm_MemPct = mem\<rparr>)
        (sort_key fst (filter (\<lambda>r. between from to (fst r)) (system_metrics t))))"

definition QueryTrafficMetrics :: "time \<Rightarrow> time \<Rightarrow> traffic_metric list dbm" where
  "QueryTrafficMetrics from to = db_query ''query traffic_metrics'' ''iterate traffic_metrics''
     (\<lambda>t. map (\<lambda>(ts, rx, tx). \<lparr>tm_TS = unix_time ts, tm_RxBytesCum = rx, tm_TxBytesCum = tx\<rparr>)
        (sort_key fst (filter (\<lambda>r. between from to (fst r)) (traffic_metrics t))))"

definition client_traffic_of :: "(int \<times> string) \<times> string \<times> string \<times> int \<times> int \<Rightarrow> client_traffic" where
  "client_traffic_of = (\<lambda>((ts, key), name, a, rx, tx).
     \<lparr>ct_TS = unix_time ts, ct_PublicKey = key, ct_Name = name, ct_Address = a,
      ct_RxBytesCum = rx, ct_TxBytesCum = tx\<rparr>)"

definition QueryClientTrafficAll :: "time \<Rightarrow> time \<Rightarrow> client_traffic list dbm" where
  "QueryClientTrafficAll from to = db_query ''query client_traffic'' ''iterate client_traffic''
     (\<lambda>t. map client_traffic_of (sort_key (\<lambda>r. fst (fst r))
        (filter (\<lambda>r. between from to (fst (fst r))) (client_traffics t))))"

definition QueryClientTraffic :: "string \<Rightarrow> time \<Rightarrow> time \<Rightarrow> client_traffic list dbm" where
  "QueryClientTraffic key from to = db_query ''query client_traffic'' ''iterate client_traffic''
     (\<lambda>t. map client_traffic_of (sort_key (\<lambda>r. fst (fst r))
        (filter (\<lambda>r. snd (fst r) = key \<and> between from to (fst (fst r))) (client_traffics t))))"

definition handshake_of :: "(int \<times> string) \<times> string \<Rightarrow> handshake_event" where
  "handshake_of = (\<lambda>((ts, key), name). \<lparr>he_TS = unix_time ts, he_PublicKey = key, he_Name = name\<rparr>)"

text \<open>\<^verbatim>\<open>LIMIT ?\<close>, appended when the limit is positive.\<close>

definition limit_rows :: "int \<Rightarrow> 'a list \<Rightarrow> 'a list" where
  "limit_rows n rows = (if n > 0 then take (nat n) rows else rows)"

definition QueryHandshakeEvents :: "time \<Rightarrow> time \<Rightarrow> int \<Rightarrow> handshake_event list dbm" where
  "QueryHandshakeEvents from to n = db_query ''query handshake_events'' ''iterate handshake_events''
     (\<lambda>t. map handshake_of (limit_rows n (rev (sort_key fst
        (filter (\<lambda>r. between from to (fst (fst r))) (handshake_events t))))))"

text \<open>
  \<^verbatim>\<open>GROUP BY public_key\<close> with \<^verbatim>\<open>MAX(ts)\<close>: of each key the row with the largest time, which is
  the first one of that key in newest-first order.
\<close>

fun first_of_key :: "((int \<times> string) \<times> string) list \<Rightarrow> ((int \<times> string) \<times> string) list" where
  "first_of_key [] = []"
| "first_of_key (r # rs) = r # filter (\<lambda>q. snd (fst q) \<noteq> snd (fst r)) (first_of_key rs)"

definition QueryLatestHandshakePerPeer :: "time \<Rightarrow> time \<Rightarrow> int \<Rightarrow> handshake_event list dbm" where
  "QueryLatestHandshakePerPeer from to n =
     db_query ''query latest handshake per peer'' ''iterate latest handshake per peer''
     (\<lambda>t. map handshake_of (limit_rows n (first_of_key (rev (sort_key fst
        (filter (\<lambda>r. between from to (fst (fst r))) (handshake_events t)))))))"

definition QueryHandshakeEventsByKey :: "string \<Rightarrow> time \<Rightarrow> time \<Rightarrow> handshake_event list dbm" where
  "QueryHandshakeEventsByKey key from to =
     db_query ''query handshake_events by key'' ''iterate handshake_events by key''
     (\<lambda>t. map handshake_of (sort_key (\<lambda>r. fst (fst r))
        (filter (\<lambda>r. snd (fst r) = key \<and> between from to (fst (fst r))) (handshake_events t))))"

text \<open>\<^verbatim>\<open>PruneBefore\<close>: one DELETE per table in one transaction; the result counts the rows.\<close>

definition prune_rows :: "('r \<Rightarrow> int) \<Rightarrow> int \<Rightarrow> 'r list \<Rightarrow> 'r list" where
  "prune_rows ts cutoff rows = filter (\<lambda>r. \<not> ts r < cutoff) rows"

definition pruned_rows :: "('r \<Rightarrow> int) \<Rightarrow> int \<Rightarrow> 'r list \<Rightarrow> int" where
  "pruned_rows ts cutoff rows = int (length (filter (\<lambda>r. ts r < cutoff) rows))"

definition PruneBefore :: "time \<Rightarrow> int dbm" where
  "PruneBefore cutoff = (let c = unix_secs cutoff in
     db_tx ''begin prune tx'' ''commit prune tx''
       (db_bind (db_call ''prune system_metrics''
          (\<lambda>t. Inr (pruned_rows fst c (system_metrics t),
                    t\<lparr>system_metrics := prune_rows fst c (system_metrics t)\<rparr>)))
       (\<lambda>n1. db_bind (db_call ''prune traffic_metrics''
          (\<lambda>t. Inr (pruned_rows fst c (traffic_metrics t),
                    t\<lparr>traffic_metrics := prune_rows fst c (traffic_metrics t)\<rparr>)))
       (\<lambda>n2. db_bind (db_call ''prune client_traffic''
          (\<lambda>t. Inr (pruned_rows (fst \<circ> fst) c (client_traffics t),
                    t\<lparr>client_traffics := prune_rows (fst \<circ> fst) c (client_traffics t)\<rparr>)))
       (\<lambda>n3. db_bind (db_call ''prune handshake_events''
          (\<lambda>t. Inr (pruned_rows (fst \<circ> fst) c (handshake_events t),
                    t\<lparr>handshake_events := prune_rows (fst \<circ> fst) c (handshake_events t)\<rparr>)))
       (\<lambda>n4. db_return (n1 + n2 + n3 + n4)))))))"

subsection \<open>The clients table\<close>

definition row_conflict :: "client_row \<Rightarrow> client_row \<Rightarrow> bool" where
  "row_conflict a b \<longleftrightarrow> r_name a = r_name b \<or> r_public_key a = r_public_key b \<or> r_address a = r_address b"

definition row_of_client :: "int \<Rightarrow> client \<Rightarrow> client_row" where
  "row_of_client i c = \<lparr>r_id = i, r_name = Name c, r_public_key = PublicKey c, r_address = Address c,
     r_enabled = b2i (Enabled c), r_note = Note c,
     r_created_at = unix_secs (CreatedAt c), r_updated_at = unix_secs (UpdatedAt c)\<rparr>"

definition sql_insert_client :: "client \<Rightarrow> tables \<Rightarrow> sql_error + unit \<times> tables" where
  "sql_insert_client c t =
     (let r = row_of_client (client_seq t + 1) c
      in if \<exists>x \<in> set (clients t). row_conflict x r then Inl UniqueViolation
         else Inr ((), t\<lparr>clients := clients t @ [r], client_seq := client_seq t + 1\<rparr>))"

text \<open>An UPDATE of the row with one id: the new row may not conflict with another one.\<close>

definition sql_update_client :: "(client_row \<Rightarrow> client_row) \<Rightarrow> int \<Rightarrow> tables \<Rightarrow> sql_error + unit \<times> tables" where
  "sql_update_client f i t =
     (if \<exists>x \<in> set (clients t). \<exists>y \<in> set (clients t). r_id x = i \<and> r_id y \<noteq> i \<and> row_conflict y (f x)
      then Inl UniqueViolation
      else Inr ((), t\<lparr>clients := map (\<lambda>x. if r_id x = i then f x else x) (clients t)\<rparr>))"

definition sql_delete_client :: "(client_row \<Rightarrow> bool) \<Rightarrow> tables \<Rightarrow> sql_error + unit \<times> tables" where
  "sql_delete_client P t = Inr ((), t\<lparr>clients := filter (\<lambda>x. \<not> P x) (clients t)\<rparr>)"

definition ListClients :: "client list dbm" where
  "ListClients = db_query ''query clients'' ''iterate clients''
     (\<lambda>t. map client_of_row (sort_key (\<lambda>r. (r_address r, r_id r)) (clients t)))"

definition InsertClient :: "client \<Rightarrow> unit dbm" where
  "InsertClient c = db_call ''insert clients'' (sql_insert_client c)"

definition UpdateClient :: "client \<Rightarrow> unit dbm" where
  "UpdateClient c = db_call ''update clients''
     (sql_update_client (\<lambda>r. r\<lparr>r_name := Name c, r_public_key := PublicKey c, r_address := Address c,
        r_enabled := b2i (Enabled c), r_note := Note c, r_updated_at := unix_secs (UpdatedAt c)\<rparr>) (ID c))"

definition DeleteClient :: "string \<Rightarrow> unit dbm" where
  "DeleteClient name = db_call ''delete clients'' (sql_delete_client (\<lambda>r. r_name r = name))"

definition CountClients :: "int dbm" where
  "CountClients = db_call ''count clients'' (\<lambda>t. Inr (int (length (clients t)), t))"

text \<open>
  \<^verbatim>\<open>replaceClientsTx\<close>. The three loops range over Go maps, whose order is not defined: \<open>order n\<close>
  is the order in which the \<open>n\<close>-th of them visits a list of keys.
\<close>

definition same_mutable :: "client \<Rightarrow> client \<Rightarrow> bool" where
  "same_mutable old c \<longleftrightarrow>
     Name old = Name c \<and> Address old = Address c \<and> Enabled old = Enabled c \<and> Note old = Note c"

definition replace_delete :: "(string \<rightharpoonup> client) \<Rightarrow> (string \<rightharpoonup> client) \<Rightarrow> string \<Rightarrow> unit dbm" where
  "replace_delete existing wanted key =
     (case existing key of
        None \<Rightarrow> db_return ()
      | Some old \<Rightarrow>
          if wanted key \<noteq> None then db_return ()
          else db_call ''replace clients: delete'' (sql_delete_client (\<lambda>r. r_id r = ID old)))"

definition replace_update :: "(string \<rightharpoonup> client) \<Rightarrow> (string \<rightharpoonup> client) \<Rightarrow> string \<Rightarrow> unit dbm" where
  "replace_update existing wanted key =
     (case (wanted key, existing key) of
        (Some c, Some old) \<Rightarrow>
          if same_mutable old c then db_return ()
          else db_call ''replace clients: update''
            (sql_update_client (\<lambda>r. r\<lparr>r_name := Name c, r_address := Address c, r_enabled := b2i (Enabled c),
               r_note := Note c, r_updated_at := unix_secs (UpdatedAt c)\<rparr>) (ID old))
      | _ \<Rightarrow> db_return ())"

definition replace_insert :: "(string \<rightharpoonup> client) \<Rightarrow> (string \<rightharpoonup> client) \<Rightarrow> string \<Rightarrow> unit dbm" where
  "replace_insert existing wanted key =
     (case (wanted key, existing key) of
        (Some c, None) \<Rightarrow> db_call ''replace clients: insert'' (sql_insert_client c)
      | _ \<Rightarrow> db_return ())"

definition replaceClientsTx :: "(nat \<Rightarrow> string list \<Rightarrow> string list) \<Rightarrow> client list \<Rightarrow> unit dbm" where
  "replaceClientsTx order want =
     db_bind (db_query ''replace clients: query existing'' ''replace clients: iterate existing''
                (\<lambda>t. map client_of_row (clients t)))
       (\<lambda>rows.
          let existing = index_by PublicKey rows; wanted = index_by PublicKey want;
              ekeys = remdups (map PublicKey rows); wkeys = remdups (map PublicKey want)
          in db_bind (db_each (replace_delete existing wanted) (order 0 ekeys))
             (\<lambda>_. db_bind (db_each (replace_update existing wanted) (order 1 wkeys))
             (\<lambda>_. db_each (replace_insert existing wanted) (order 2 wkeys))))"

definition ReplaceClients :: "(nat \<Rightarrow> string list \<Rightarrow> string list) \<Rightarrow> client list \<Rightarrow> unit dbm" where
  "ReplaceClients order want =
     db_tx ''begin replace clients tx'' ''commit replace clients tx'' (replaceClientsTx order want)"

subsection \<open>A failed call leaves the tables as they were\<close>

definition atomic :: "'a dbm \<Rightarrow> bool" where
  "atomic m \<longleftrightarrow> (\<forall>d e d'. m d = (Inl e, d') \<longrightarrow> tabs d' = tabs d)"

lemma atomicD: "atomic m \<Longrightarrow> m d = (Inl e, d') \<Longrightarrow> tabs d' = tabs d"
  by (simp add: atomic_def)

lemma atomic_return [simp, intro]: "atomic (db_return x)"
  by (simp add: atomic_def db_return_def)

lemma atomic_call [simp, intro]: "atomic (db_call what f)"
  by (auto simp: atomic_def db_call_def Let_def split: if_splits sum.splits)

lemma atomic_tx [simp, intro]: "atomic (db_tx b c m)"
  unfolding atomic_def db_tx_def
  by (auto simp: db_bind_def db_ok_def db_call_def Let_def split: prod.splits sum.splits if_splits)

text \<open>Calls that never change the tables.\<close>

definition read_only :: "'a dbm \<Rightarrow> bool" where
  "read_only m \<longleftrightarrow> (\<forall>d. tabs (snd (m d)) = tabs d)"

lemma read_only_ok [simp, intro]: "read_only (db_ok what)"
  by (simp add: read_only_def db_ok_def db_call_def Let_def)

lemma read_only_return [simp, intro]: "read_only (db_return x)"
  by (simp add: read_only_def db_return_def)

lemma read_only_bind [intro]: "read_only m \<Longrightarrow> (\<And>x. read_only (f x)) \<Longrightarrow> read_only (db_bind m f)"
  unfolding read_only_def db_bind_def by (auto split: prod.splits sum.splits) (metis snd_conv)+

lemma read_only_select [simp, intro]: "read_only (db_call what (\<lambda>t. Inr (f t, t)))"
  by (simp add: read_only_def db_call_def Let_def)

lemma read_only_query [simp, intro]: "read_only (db_query what iter f)"
  unfolding db_query_def by (intro read_only_bind read_only_select read_only_ok read_only_return)

lemma read_only_atomic: "read_only m \<Longrightarrow> atomic m"
  by (auto simp: read_only_def atomic_def) (metis snd_conv)

subsection \<open>What a call that succeeds does\<close>

lemma db_call_Inr:
  "db_call what f d = (Inr x, d') \<Longrightarrow> f (tabs d) = Inr (x, tabs d') \<and> faults d' = tl (faults d)"
  by (auto simp: db_call_def Let_def split: if_splits sum.splits)

lemma db_bind_Inr:
  "db_bind m f d = (Inr y, d') \<longleftrightarrow> (\<exists>x d1. m d = (Inr x, d1) \<and> f x d1 = (Inr y, d'))"
  by (auto simp: db_bind_def split: prod.splits sum.splits)

lemma db_ok_Inr: "db_ok what d = (Inr x, d') \<Longrightarrow> tabs d' = tabs d"
  by (auto simp: db_ok_def dest: db_call_Inr)

lemma db_return_Inr [simp]: "db_return x d = (Inr y, d') \<longleftrightarrow> y = x \<and> d' = d"
  by (auto simp: db_return_def)

lemma db_query_Inr: "db_query what iter f d = (Inr x, d') \<Longrightarrow> x = f (tabs d) \<and> tabs d' = tabs d"
  by (auto simp: db_query_def db_bind_Inr dest!: db_call_Inr db_ok_Inr)

lemma db_tx_Inr:
  assumes "db_tx b c m d = (Inr x, d')"
  obtains d1 d2 where "tabs d1 = tabs d" "m d1 = (Inr x, d2)" "tabs d' = tabs d2"
proof -
  let ?body = "db_bind m (\<lambda>x. db_bind (db_ok c) (\<lambda>_. db_return x))"
  from assms obtain u d1 where ok: "db_ok b d = (Inr u, d1)" and
    c: "(case ?body d1 of (Inl e, d') \<Rightarrow> (Inl e, d'\<lparr>tabs := tabs d1\<rparr>) | (Inr x, d') \<Rightarrow> (Inr x, d')) = (Inr x, d')"
    unfolding db_tx_def db_bind_Inr by blast
  obtain r d3 where r: "?body d1 = (r, d3)" by (cases "?body d1")
  with c have 1: "db_ok b d = (Inr u, d1)" "?body d1 = (Inr x, d')"
    using ok by (cases r; simp)+
  from 1(2) obtain d2 where 2: "m d1 = (Inr x, d2)" "db_ok c d2 = (Inr (), d')"
    by (auto simp: db_bind_Inr)
  show thesis
    using 1(1) 2 that by (metis db_ok_Inr)
qed

text \<open>Without driver errors a call is its statement.\<close>

lemma db_call_no_fault:
  "faults d = [] \<Longrightarrow> db_call what f d =
    (case f (tabs d) of Inl e \<Rightarrow> (Inl (DbErr what e), d) | Inr (x, t) \<Rightarrow> (Inr x, d\<lparr>tabs := t\<rparr>))"
  by (cases d) (simp add: db_call_def split: sum.splits)

lemma db_ok_no_fault: "faults d = [] \<Longrightarrow> db_ok what d = (Inr (), d)"
  by (simp add: db_ok_def db_call_no_fault)

lemma db_query_no_fault: "faults d = [] \<Longrightarrow> db_query what iter f d = (Inr (f (tabs d)), d)"
  by (simp add: db_query_def db_bind_def db_call_no_fault db_ok_no_fault db_return_def)

lemma db_tx_no_fault:
  assumes "faults d = []" and "m d = (Inr x, d')" and "faults d' = []"
  shows "db_tx b c m d = (Inr x, d')"
  using assms by (simp add: db_tx_def db_bind_def db_ok_no_fault db_return_def)

subsection \<open>The schema as an invariant\<close>

definition clients_ok :: "client_row list \<Rightarrow> int \<Rightarrow> bool" where
  "clients_ok rows seq \<longleftrightarrow> distinct (map r_id rows) \<and> distinct (map r_name rows) \<and>
     distinct (map r_public_key rows) \<and> distinct (map r_address rows) \<and>
     (\<forall>r \<in> set rows. r_id r \<le> seq \<and> r_enabled r \<in> {0, 1})"

definition tables_ok :: "tables \<Rightarrow> bool" where
  "tables_ok t \<longleftrightarrow> clients_ok (clients t) (client_seq t) \<and> distinct (map fst (system_metrics t)) \<and>
     distinct (map fst (traffic_metrics t)) \<and> distinct (map fst (client_traffics t)) \<and>
     distinct (map fst (handshake_events t))"

definition keeps :: "(tables \<Rightarrow> bool) \<Rightarrow> 'a dbm \<Rightarrow> bool" where
  "keeps P m \<longleftrightarrow> (\<forall>d. P (tabs d) \<longrightarrow> P (tabs (snd (m d))))"

lemma keeps_read_only: "read_only m \<Longrightarrow> keeps P m"
  by (simp add: keeps_def read_only_def)

lemma keeps_return [simp, intro]: "keeps P (db_return x)"
  by (rule keeps_read_only) simp

lemma keeps_bind [intro]: "keeps P m \<Longrightarrow> (\<And>x. keeps P (f x)) \<Longrightarrow> keeps P (db_bind m f)"
  unfolding keeps_def db_bind_def by (auto split: prod.splits sum.splits; metis snd_conv)

lemma keeps_call:
  "(\<And>t x t'. P t \<Longrightarrow> f t = Inr (x, t') \<Longrightarrow> P t') \<Longrightarrow> keeps P (db_call what f)"
  by (auto simp: keeps_def db_call_def Let_def split: sum.splits)

lemma keeps_tx:
  assumes "keeps P m" shows "keeps P (db_tx b c m)"
  unfolding keeps_def
proof (intro allI impI)
  fix d :: db assume P: "P (tabs d)"
  show "P (tabs (snd (db_tx b c m d)))"
  proof (cases "db_tx b c m d")
    case (Pair r d')
    show ?thesis
    proof (cases r)
      case (Inl e)
      then show ?thesis using Pair P atomicD [OF atomic_tx, of b c m d e d'] by simp
    next
      case (Inr x)
      with Pair obtain d1 d2 where "tabs d1 = tabs d" "m d1 = (Inr x, d2)" "tabs d' = tabs d2"
        by (auto elim: db_tx_Inr)
      then show ?thesis using assms P Pair unfolding keeps_def by (metis snd_conv)
    qed
  qed
qed

lemma keeps_each [intro]: "(\<And>x. keeps P (f x)) \<Longrightarrow> keeps P (db_each f xs)"
  by (induction xs) auto

lemma distinct_replace_row [simp]: "distinct (map fst rows) \<Longrightarrow> distinct (map fst (replace_row k v rows))"
  by (auto simp: replace_row_def distinct_map_filter)

lemma clients_ok_insert:
  assumes "tables_ok t" and "sql_insert_client c t = Inr (x, t')"
  shows "tables_ok t'"
proof -
  have "r_id r \<noteq> client_seq t + 1" if "r \<in> set (clients t)" for r
    using that assms(1) by (force simp: tables_ok_def clients_ok_def)
  then show ?thesis using assms
    by (fastforce simp: sql_insert_client_def tables_ok_def clients_ok_def row_conflict_def Let_def
        row_of_client_def b2i_def split: if_splits)
qed

lemma distinct_map_update:
  assumes "distinct (map g xs)" and "distinct (map i xs)"
    and "\<And>x y. x \<in> set xs \<Longrightarrow> y \<in> set xs \<Longrightarrow> i x = j \<Longrightarrow> i y \<noteq> j \<Longrightarrow> g y \<noteq> g (f x)"
  shows "distinct (map g (map (\<lambda>x. if i x = j then f x else x) xs))"
  using assms
proof (induction xs)
  case (Cons a xs)
  have "g (if i a = j then f a else a) \<noteq> g (if i x = j then f x else x)" if "x \<in> set xs" for x
  proof -
    have "i a \<noteq> i x" "g a \<noteq> g x" using that Cons.prems(1,2) by auto
    then show ?thesis using that Cons.prems(3) [of a x] Cons.prems(3) [of x a] by auto
  qed
  then have "g (if i a = j then f a else a) \<notin> set (map g (map (\<lambda>x. if i x = j then f x else x) xs))"
    unfolding set_map image_image by blast
  then show ?case using Cons by simp
qed simp

lemma clients_ok_update:
  assumes "tables_ok t" and "sql_update_client f i t = Inr (x, t')"
    and "\<And>r. r_id (f r) = r_id r" and "\<And>r. r_enabled (f r) \<in> {0, 1}"
  shows "tables_ok t'"
proof -
  let ?u = "\<lambda>x. if r_id x = i then f x else x"
  have t': "t' = t\<lparr>clients := map ?u (clients t)\<rparr>"
    and nc: "\<And>x y. x \<in> set (clients t) \<Longrightarrow> y \<in> set (clients t) \<Longrightarrow> r_id x = i \<Longrightarrow> r_id y \<noteq> i \<Longrightarrow>
      \<not> row_conflict y (f x)"
    using assms(2) by (auto simp: sql_update_client_def split: if_splits)
  have ids: "map r_id (map ?u (clients t)) = map r_id (clients t)"
    using assms(3) by simp
  have ok: "clients_ok (clients t) (client_seq t)" using assms(1) by (simp add: tables_ok_def)
  then have d: "distinct (map r_id (clients t))" by (simp add: clients_ok_def)
  have "distinct (map g (map ?u (clients t)))"
    if "distinct (map g (clients t))" "\<And>y x. g y = g x \<Longrightarrow> row_conflict y x" for g :: "client_row \<Rightarrow> string"
    using that nc by (intro distinct_map_update [OF that(1) d]) blast
  then have "clients_ok (map ?u (clients t)) (client_seq t)"
    using ok ids assms(3,4) unfolding clients_ok_def by (auto simp: row_conflict_def simp del: map_map)
  then show ?thesis using assms(1) t' by (simp add: tables_ok_def)
qed

lemma clients_ok_delete:
  "tables_ok t \<Longrightarrow> sql_delete_client P t = Inr (x, t') \<Longrightarrow> tables_ok t'"
  by (auto simp: sql_delete_client_def tables_ok_def clients_ok_def distinct_map_filter)

subsection \<open>The table as a map from public keys to rows\<close>

definition row_at :: "tables \<Rightarrow> string \<Rightarrow> client_row option" where
  "row_at t k = find (\<lambda>r. r_public_key r = k) (clients t)"

lemma find_filter_other:
  "(\<And>x. P x \<Longrightarrow> Q x) \<Longrightarrow> find P (filter Q xs) = find P xs"
  by (induction xs) auto

lemma find_map_same:
  "(\<And>x. x \<in> set xs \<Longrightarrow> P (f x) = P x) \<Longrightarrow> find P (map f xs) = map_option f (find P xs)"
  by (induction xs) auto

lemma row_at_Some_iff:
  assumes "tables_ok t"
  shows "row_at t k = Some r \<longleftrightarrow> r \<in> set (clients t) \<and> r_public_key r = k"
proof
  assume "row_at t k = Some r"
  then show "r \<in> set (clients t) \<and> r_public_key r = k"
    by (auto simp: row_at_def dest: find_SomeD)
next
  assume "r \<in> set (clients t) \<and> r_public_key r = k"
  with assms show "row_at t k = Some r"
    by (auto simp: row_at_def tables_ok_def clients_ok_def intro: find_distinct)
qed

lemma row_at_None_iff: "row_at t k = None \<longleftrightarrow> (\<forall>r \<in> set (clients t). r_public_key r \<noteq> k)"
  by (auto simp: row_at_def find_None_iff)

lemma same_row: "tables_ok t \<Longrightarrow> r \<in> set (clients t) \<Longrightarrow> x \<in> set (clients t) \<Longrightarrow> r_id x = r_id r \<Longrightarrow> x = r"
  by (auto simp: tables_ok_def clients_ok_def dest: distinct_map_eq)

lemma row_at_delete:
  assumes ok: "tables_ok t" and r: "row_at t k = Some r"
    and del: "sql_delete_client (\<lambda>x. r_id x = r_id r) t = Inr (u, t')"
  shows "row_at t' j = (if j = k then None else row_at t j)"
proof -
  have rin: "r \<in> set (clients t)" "r_public_key r = k"
    using r row_at_Some_iff [OF ok] by simp_all
  have t': "clients t' = filter (\<lambda>x. r_id x \<noteq> r_id r) (clients t)"
    using del by (auto simp: sql_delete_client_def)
  show ?thesis
  proof (cases "j = k")
    case True
    have "r_public_key x \<noteq> k" if "x \<in> set (clients t')" for x
    proof
      assume "r_public_key x = k"
      moreover have "x \<in> set (clients t)" "r_id x \<noteq> r_id r" using that t' by simp_all
      ultimately show False using row_at_Some_iff [OF ok, of k x] r by simp
    qed
    with True show ?thesis by (simp add: row_at_None_iff)
  next
    case False
    have "find (\<lambda>x. r_public_key x = j) (filter (\<lambda>x. x \<noteq> r) (clients t)) =
        find (\<lambda>x. r_public_key x = j) (clients t)"
      using False rin(2) by (intro find_filter_other) auto
    moreover have "filter (\<lambda>x. r_id x \<noteq> r_id r) (clients t) = filter (\<lambda>x. x \<noteq> r) (clients t)"
      using same_row [OF ok rin(1)] by (intro filter_cong) auto
    ultimately show ?thesis using False t' by (simp add: row_at_def)
  qed
qed

lemma row_at_update:
  assumes ok: "tables_ok t" and r: "row_at t k = Some r"
    and upd: "sql_update_client f (r_id r) t = Inr (u, t')"
    and f: "\<And>x. r_public_key (f x) = r_public_key x"
  shows "row_at t' j = (if j = k then Some (f r) else row_at t j)"
proof -
  have rin: "r \<in> set (clients t)" "r_public_key r = k"
    using r row_at_Some_iff [OF ok] by simp_all
  have t': "clients t' = map (\<lambda>x. if r_id x = r_id r then f x else x) (clients t)"
    using upd by (auto simp: sql_update_client_def split: if_splits)
  have "row_at t' j = map_option (\<lambda>x. if r_id x = r_id r then f x else x) (row_at t j)"
    unfolding row_at_def t' by (rule find_map_same) (simp add: f)
  also have "\<dots> = (if j = k then Some (f r) else row_at t j)"
  proof (cases "row_at t j")
    case (Some x)
    then have x: "x \<in> set (clients t)" "r_public_key x = j" using row_at_Some_iff [OF ok] by simp_all
    show ?thesis
    proof (cases "j = k")
      case True
      with Some r show ?thesis by simp
    next
      case False
      then have "r_id x \<noteq> r_id r" using same_row [OF ok rin(1) x(1)] x(2) rin(2) by blast
      with Some False show ?thesis by simp
    qed
  qed (use r in auto)
  finally show ?thesis .
qed

lemma row_at_insert:
  assumes "row_at t (PublicKey c) = None" and "sql_insert_client c t = Inr (u, t')"
  shows "row_at t' j = (if j = PublicKey c then Some (row_of_client (client_seq t + 1) c) else row_at t j)"
proof -
  have t': "clients t' = clients t @ [row_of_client (client_seq t + 1) c]"
    using assms(2) by (auto simp: sql_insert_client_def Let_def split: if_splits)
  have snoc: "find P (xs @ [b]) = (case find P xs of Some c \<Rightarrow> Some c | None \<Rightarrow> if P b then Some b else None)"
    for P xs and b :: client_row
    by (induction xs) auto
  from assms(1) show ?thesis
    by (auto simp: row_at_def t' snoc row_of_client_def split: option.splits)
qed

text \<open>A loop over distinct keys whose every step changes the row of its key only.\<close>

lemma db_each_view:
  assumes step: "\<And>k d d'. k \<in> set ks \<Longrightarrow> tables_ok (tabs d) \<Longrightarrow> row_at (tabs d) k = v k \<Longrightarrow>
      f k d = (Inr (), d') \<Longrightarrow> tables_ok (tabs d') \<and> R k (row_at (tabs d') k) \<and>
        (\<forall>j. j \<noteq> k \<longrightarrow> row_at (tabs d') j = row_at (tabs d) j)"
    and "distinct ks" and "tables_ok (tabs d)" and "\<forall>k \<in> set ks. row_at (tabs d) k = v k"
    and "db_each f ks d = (Inr (), d')"
  shows "tables_ok (tabs d') \<and> (\<forall>k \<in> set ks. R k (row_at (tabs d') k)) \<and>
    (\<forall>j. j \<notin> set ks \<longrightarrow> row_at (tabs d') j = row_at (tabs d) j)"
  using assms
proof (induction ks arbitrary: d)
  case (Cons k ks)
  from Cons.prems(5) obtain d1 where 1: "f k d = (Inr (), d1)" "db_each f ks d1 = (Inr (), d')"
    by (auto simp: db_bind_Inr)
  have s: "tables_ok (tabs d1) \<and> R k (row_at (tabs d1) k) \<and>
      (\<forall>j. j \<noteq> k \<longrightarrow> row_at (tabs d1) j = row_at (tabs d) j)"
    using Cons.prems(1) [of k d d1] Cons.prems(3,4) 1(1) by simp
  then have v: "\<forall>j \<in> set ks. row_at (tabs d1) j = v j"
    using Cons.prems(2,4) by auto
  have r: "tables_ok (tabs d') \<and> (\<forall>k \<in> set ks. R k (row_at (tabs d') k)) \<and>
      (\<forall>j. j \<notin> set ks \<longrightarrow> row_at (tabs d') j = row_at (tabs d1) j)"
    using Cons.prems(1,2) s v 1(2) by (intro Cons.IH) auto
  then show ?case using s Cons.prems(2) by (metis distinct.simps(2) set_ConsD list.set_intros)
qed simp

subsection \<open>What ReplaceClients leaves in the table\<close>

definition any_order :: "(nat \<Rightarrow> string list \<Rightarrow> string list) \<Rightarrow> bool" where
  "any_order order \<longleftrightarrow> (\<forall>n ks. mset (order n ks) = mset ks)"

lemma any_orderD: "any_order order \<Longrightarrow> set (order n ks) = set ks \<and> distinct (order n ks) = distinct ks"
  unfolding any_order_def by (metis mset_eq_setD mset_eq_imp_distinct_iff)

definition row_matches :: "client \<Rightarrow> client_row \<Rightarrow> bool" where
  "row_matches c r \<longleftrightarrow> r_name r = Name c \<and> r_public_key r = PublicKey c \<and> r_address r = Address c \<and>
     r_enabled r = b2i (Enabled c) \<and> r_note r = Note c"

lemma existing_eq:
  assumes "tables_ok t"
  shows "index_by PublicKey (map client_of_row (clients t)) k = map_option client_of_row (row_at t k)"
proof -
  have d: "distinct (map PublicKey (map client_of_row (clients t)))"
    using assms by (simp add: tables_ok_def clients_ok_def comp_def client_of_row_def)
  show ?thesis
  proof (cases "row_at t k")
    case None
    then have "index_by PublicKey (map client_of_row (clients t)) k = None"
      by (auto simp: index_by_None_iff row_at_None_iff client_of_row_def)
    with None show ?thesis by simp
  next
    case (Some r)
    with assms have "r \<in> set (clients t)" "r_public_key r = k" by (simp_all add: row_at_Some_iff)
    then have "client_of_row r \<in> set (map client_of_row (clients t))" by simp
    moreover have "PublicKey (client_of_row r) = k"
      using \<open>r_public_key r = k\<close> by (simp add: client_of_row_def)
    ultimately have "index_by PublicKey (map client_of_row (clients t)) k = Some (client_of_row r)"
      unfolding index_by_distinct [OF d] by blast
    with Some show ?thesis by simp
  qed
qed

definition replaced :: "client_row option \<Rightarrow> client option \<Rightarrow> client_row option \<Rightarrow> bool" where
  "replaced old c new \<longleftrightarrow>
     (case c of None \<Rightarrow> new = None
      | Some c \<Rightarrow> (\<exists>r. new = Some r \<and> row_matches c r \<and>
          (\<forall>r0. old = Some r0 \<longrightarrow> r_id r = r_id r0 \<and> r_created_at r = r_created_at r0 \<and>
             (same_mutable (client_of_row r0) c \<longrightarrow> r = r0))))"

definition upd_row :: "client_row \<Rightarrow> client \<Rightarrow> client_row" where
  "upd_row r c = r\<lparr>r_name := Name c, r_address := Address c, r_enabled := b2i (Enabled c),
     r_note := Note c, r_updated_at := unix_secs (UpdatedAt c)\<rparr>"

definition new_row :: "client_row \<Rightarrow> client \<Rightarrow> client_row" where
  "new_row r c = (if same_mutable (client_of_row r) c then r else upd_row r c)"

text \<open>One step of each of the three loops, on a key whose row is still the original one.\<close>

lemma replace_delete_step:
  assumes "tables_ok (tabs s)" and "ex k = map_option client_of_row (row_at (tabs s) k)"
    and "replace_delete ex wk k s = (Inr (), s')"
  shows "tables_ok (tabs s') \<and>
    row_at (tabs s') k = (if wk k = None then None else row_at (tabs s) k) \<and>
    (\<forall>j. j \<noteq> k \<longrightarrow> row_at (tabs s') j = row_at (tabs s) j)"
proof (cases "row_at (tabs s) k")
  case None
  with assms show ?thesis by (auto simp: replace_delete_def)
next
  case (Some r)
  show ?thesis
  proof (cases "wk k")
    case None
    with assms Some have "sql_delete_client (\<lambda>x. r_id x = r_id r) (tabs s) = Inr ((), tabs s')"
      by (auto simp: replace_delete_def client_of_row_def dest: db_call_Inr)
    then show ?thesis using assms Some None clients_ok_delete row_at_delete [of "tabs s" k r] by auto
  qed (use assms Some in \<open>auto simp: replace_delete_def\<close>)
qed

lemma replace_update_call:
  assumes "ex k = Some (client_of_row r)" and "wk k = Some c" and "\<not> same_mutable (client_of_row r) c"
  shows "replace_update ex wk k =
    db_call ''replace clients: update'' (sql_update_client (\<lambda>r. upd_row r c) (r_id r))"
  using assms by (simp add: replace_update_def upd_row_def client_of_row_def)

lemma replace_update_step:
  assumes ok: "tables_ok (tabs s)" and ex: "ex k = map_option client_of_row (row_at (tabs s) k)"
    and c: "wk k = Some c" and run: "replace_update ex wk k s = (Inr (), s')"
  shows "tables_ok (tabs s') \<and>
    row_at (tabs s') k = map_option (\<lambda>r. new_row r c) (row_at (tabs s) k) \<and>
    (\<forall>j. j \<noteq> k \<longrightarrow> row_at (tabs s') j = row_at (tabs s) j)"
proof (cases "row_at (tabs s) k")
  case None
  with assms show ?thesis by (auto simp: replace_update_def)
next
  case (Some r)
  show ?thesis
  proof (cases "same_mutable (client_of_row r) c")
    case False
    then have "db_call ''replace clients: update'' (sql_update_client (\<lambda>r. upd_row r c) (r_id r)) s = (Inr (), s')"
      using run replace_update_call [of ex k r wk c] Some ex c by simp
    then have u: "sql_update_client (\<lambda>r. upd_row r c) (r_id r) (tabs s) = Inr ((), tabs s')"
      by (auto dest: db_call_Inr)
    have "tables_ok (tabs s')"
      by (rule clients_ok_update [OF ok u]) (simp_all add: upd_row_def b2i_def)
    moreover have "row_at (tabs s') j = (if j = k then Some (upd_row r c) else row_at (tabs s) j)" for j
      by (rule row_at_update [OF ok Some u]) (simp add: upd_row_def)
    ultimately show ?thesis using False Some by (simp add: new_row_def)
  qed (use assms Some in \<open>auto simp: replace_update_def new_row_def\<close>)
qed

lemma replace_update_view:
  assumes ex: "\<And>k. ex k = map_option client_of_row (v k)" and wk: "\<forall>k \<in> set ks. wk k \<noteq> None"
    and ks: "distinct ks" and ok: "tables_ok (tabs d)" and v: "\<forall>k \<in> set ks. row_at (tabs d) k = v k"
    and run: "db_each (replace_update ex wk) ks d = (Inr (), d')"
  shows "tables_ok (tabs d') \<and>
    (\<forall>k \<in> set ks. row_at (tabs d') k = map_option (\<lambda>r. new_row r (the (wk k))) (v k)) \<and>
    (\<forall>j. j \<notin> set ks \<longrightarrow> row_at (tabs d') j = row_at (tabs d) j)"
proof (rule db_each_view [OF _ ks ok v run])
  fix k s s' assume k: "k \<in> set ks" and p: "tables_ok (tabs s)"
    "row_at (tabs s) k = v k" "replace_update ex wk k s = (Inr (), s')"
  from k wk obtain c where "wk k = Some c" by blast
  from replace_update_step [OF p(1) _ this p(3)] this p(2) ex
  show "tables_ok (tabs s') \<and>
      row_at (tabs s') k = map_option (\<lambda>r. new_row r (the (wk k))) (v k) \<and>
      (\<forall>j. j \<noteq> k \<longrightarrow> row_at (tabs s') j = row_at (tabs s) j)"
    by simp
qed

lemma replaced_new_row:
  assumes "tables_ok t" and "row_at t k = Some r" and "PublicKey c = k"
  shows "replaced (Some r) (Some c) (Some (new_row r c))"
proof -
  have "r_public_key r = k" using assms row_at_Some_iff by blast
  moreover have "r_enabled r \<in> {0, 1}"
    using assms by (auto simp: row_at_Some_iff tables_ok_def clients_ok_def)
  ultimately show ?thesis using assms(3)
    by (auto simp: replaced_def row_matches_def new_row_def upd_row_def same_mutable_def client_of_row_def b2i_def)
qed

lemma replace_insert_step:
  assumes ok: "tables_ok (tabs s)" and c: "wk k = Some c" "PublicKey c = k"
    and new: "ex k = None \<Longrightarrow> row_at (tabs s) k = None"
    and run: "replace_insert ex wk k s = (Inr (), s')"
  shows "tables_ok (tabs s') \<and>
    (if ex k = None then replaced None (Some c) (row_at (tabs s') k) else row_at (tabs s') k = row_at (tabs s) k) \<and>
    (\<forall>j. j \<noteq> k \<longrightarrow> row_at (tabs s') j = row_at (tabs s) j)"
proof (cases "ex k")
  case None
  with run c have i: "sql_insert_client c (tabs s) = Inr ((), tabs s')"
    by (auto simp: replace_insert_def dest: db_call_Inr)
  have "row_at (tabs s) (PublicKey c) = None" using new None c by simp
  from row_at_insert [OF this i] clients_ok_insert [OF ok i] c None show ?thesis
    by (simp add: replaced_def row_matches_def row_of_client_def)
next
  case (Some r)
  with run c ok show ?thesis by (auto simp: replace_insert_def)
qed

text \<open>The three loops of a run that succeeds, with the maps they work on.\<close>

lemma replaceClientsTx_loops:
  assumes ok: "tables_ok (tabs d)" and ord: "any_order order"
    and run: "replaceClientsTx order want d = (Inr (), d')"
  obtains ex db dc where "\<And>k. ex k = map_option client_of_row (row_at (tabs d) k)"
    and "tables_ok (tabs (db :: db))"
    and "\<And>k. row_at (tabs db) k = (if index_by PublicKey want k = None then None else row_at (tabs d) k)"
    and "db_each (replace_update ex (index_by PublicKey want)) (order 1 (remdups (map PublicKey want))) db = (Inr (), dc)"
    and "db_each (replace_insert ex (index_by PublicKey want)) (order 2 (remdups (map PublicKey want))) dc = (Inr (), d')"
proof -
  let ?rows = "map client_of_row (clients (tabs d))"
  define ex where "ex = index_by PublicKey ?rows"
  define wk where "wk = index_by PublicKey want"
  let ?ek = "remdups (map PublicKey ?rows)"
  note o = any_orderD [OF ord]
  have ex: "ex k = map_option client_of_row (row_at (tabs d) k)" for k
    unfolding ex_def by (rule existing_eq [OF ok])
  have edom: "k \<in> set ?ek \<longleftrightarrow> row_at (tabs d) k \<noteq> None" for k
    by (auto simp: row_at_None_iff client_of_row_def image_iff)
  from run obtain da db dc where a: "tabs da = tabs d"
    and b: "db_each (replace_delete ex wk) (order 0 ?ek) da = (Inr (), db)"
    and c: "db_each (replace_update ex wk) (order 1 (remdups (map PublicKey want))) db = (Inr (), dc)"
    and e: "db_each (replace_insert ex wk) (order 2 (remdups (map PublicKey want))) dc = (Inr (), d')"
    unfolding replaceClientsTx_def db_bind_Inr ex_def wk_def Let_def
    by (auto dest!: db_query_Inr)
  have B: "tables_ok (tabs db) \<and>
      (\<forall>k \<in> set (order 0 ?ek). row_at (tabs db) k = (if wk k = None then None else row_at (tabs d) k)) \<and>
      (\<forall>j. j \<notin> set (order 0 ?ek) \<longrightarrow> row_at (tabs db) j = row_at (tabs da) j)"
  proof (rule db_each_view [OF _ _ _ _ b, where v = "row_at (tabs d)"])
    fix k s s' assume p: "tables_ok (tabs s)" "row_at (tabs s) k = row_at (tabs d) k"
      "replace_delete ex wk k s = (Inr (), s')"
    then have "ex k = map_option client_of_row (row_at (tabs s) k)" using ex by simp
    from replace_delete_step [OF p(1) this p(3)] p(2)
    show "tables_ok (tabs s') \<and>
        row_at (tabs s') k = (if wk k = None then None else row_at (tabs d) k) \<and>
        (\<forall>j. j \<noteq> k \<longrightarrow> row_at (tabs s') j = row_at (tabs s) j)" by simp
  qed (use o ok a in simp_all)
  have "row_at (tabs db) k = (if wk k = None then None else row_at (tabs d) k)" for k
    using B o [of 0 ?ek] edom [of k] a by (cases "k \<in> set (order 0 ?ek)") auto
  with ex a B c e show thesis by (intro that [of ex db dc]) (simp_all add: wk_def)
qed

lemma replaceClientsTx_exact:
  assumes ok: "tables_ok (tabs d)" and ord: "any_order order"
    and run: "replaceClientsTx order want d = (Inr (), d')"
  shows "tables_ok (tabs d') \<and>
    (\<forall>k. replaced (row_at (tabs d) k) (index_by PublicKey want k) (row_at (tabs d') k))"
proof -
  define wk where "wk = index_by PublicKey want"
  let ?wk = "remdups (map PublicKey want)"
  note o = any_orderD [OF ord]
  obtain ex db dc where ex: "\<And>k. ex k = map_option client_of_row (row_at (tabs d) k)"
    and okb: "tables_ok (tabs db)"
    and vb: "\<And>k. row_at (tabs db) k = (if wk k = None then None else row_at (tabs d) k)"
    and c: "db_each (replace_update ex wk) (order 1 ?wk) db = (Inr (), dc)"
    and e: "db_each (replace_insert ex wk) (order 2 ?wk) dc = (Inr (), d')"
    using replaceClientsTx_loops [OF assms] unfolding wk_def by metis
  have wkey: "wk k = Some c \<Longrightarrow> PublicKey c = k" for k c
    unfolding wk_def by (auto dest: index_by_Some)
  have wdom: "k \<in> set (order n ?wk) \<longleftrightarrow> wk k \<noteq> None" for n k
    using o [of n ?wk] unfolding wk_def by (simp add: index_by_None_iff image_iff)
  have w1: "\<forall>k \<in> set (order 1 ?wk). row_at (tabs db) k = row_at (tabs d) k"
  proof
    fix k assume "k \<in> set (order 1 ?wk)"
    then have "wk k \<noteq> None" using wdom by blast
    then show "row_at (tabs db) k = row_at (tabs d) k" by (auto simp: vb)
  qed
  have "\<forall>k \<in> set (order 1 ?wk). wk k \<noteq> None" using wdom by blast
  note C = replace_update_view [OF ex this _ okb w1 c]
  have vc: "row_at (tabs dc) k = (case wk k of None \<Rightarrow> None | Some c \<Rightarrow> map_option (\<lambda>r. new_row r c) (row_at (tabs d) k))" for k
    using C o [of 1 ?wk] wdom [of k 1] vb [of k] by (cases "k \<in> set (order 1 ?wk)") auto
  have E: "tables_ok (tabs d') \<and>
      (\<forall>k \<in> set (order 2 ?wk). replaced (row_at (tabs d) k) (wk k) (row_at (tabs d') k)) \<and>
      (\<forall>j. j \<notin> set (order 2 ?wk) \<longrightarrow> row_at (tabs d') j = row_at (tabs dc) j)"
  proof (rule db_each_view [OF _ _ _ _ e, where v = "row_at (tabs dc)"])
    fix k s s' assume k: "k \<in> set (order 2 ?wk)" and p: "tables_ok (tabs s)"
      "row_at (tabs s) k = row_at (tabs dc) k" "replace_insert ex wk k s = (Inr (), s')"
    from k wdom obtain c where c: "wk k = Some c" by auto
    from replace_insert_step [where ex = ex, OF p(1) c wkey [OF c] _ p(3)] p(2) vc [of k] ex [of k] c
      replaced_new_row [OF ok _ wkey [OF c]]
    show "tables_ok (tabs s') \<and> replaced (row_at (tabs d) k) (wk k) (row_at (tabs s') k) \<and>
        (\<forall>j. j \<noteq> k \<longrightarrow> row_at (tabs s') j = row_at (tabs s) j)"
      by (cases "row_at (tabs d) k") auto
  qed (use o C in simp_all)
  have "replaced (row_at (tabs d) k) (wk k) (row_at (tabs d') k)" for k
    using E wdom [of k 2] vc [of k]
    by (cases "k \<in> set (order 2 ?wk)") (auto simp: replaced_def)
  with E show ?thesis by (simp add: wk_def)
qed

lemma db_each_append:
  "db_each f (xs @ ys) d = (Inr (), d') \<longleftrightarrow>
    (\<exists>d1. db_each f xs d = (Inr (), d1) \<and> db_each f ys d1 = (Inr (), d'))"
  by (induction xs arbitrary: d) (auto simp: db_bind_Inr)

text \<open>An update to the address another row still holds fails.\<close>

lemma replace_update_clash:
  assumes ok: "tables_ok (tabs s)" and a: "row_at (tabs s) ka = Some a" and b: "row_at (tabs s) kb = Some b"
    and "ka \<noteq> kb" and ex: "ex ka = Some (client_of_row a)" and c: "wk ka = Some ca" "Address ca = r_address b"
  shows "replace_update ex wk ka s \<noteq> (Inr (), s')"
proof
  assume run: "replace_update ex wk ka s = (Inr (), s')"
  have in_t: "a \<in> set (clients (tabs s))" "b \<in> set (clients (tabs s))" "r_public_key a = ka" "r_public_key b = kb"
    using a b by (simp_all add: row_at_Some_iff [OF ok])
  then have "a \<noteq> b" using \<open>ka \<noteq> kb\<close> by auto
  then have ids: "r_id b \<noteq> r_id a" using same_row [OF ok in_t(1,2)] by blast
  have "distinct (map r_address (clients (tabs s)))" using ok by (simp add: tables_ok_def clients_ok_def)
  from distinct_map_eq [OF this in_t(1,2)] \<open>a \<noteq> b\<close> have "r_address a \<noteq> r_address b" by blast
  then have "\<not> same_mutable (client_of_row a) ca" using c by (simp add: same_mutable_def client_of_row_def)
  from run replace_update_call [where ex = ex and wk = wk, OF ex c(1) this]
  have "sql_update_client (\<lambda>r. upd_row r ca) (r_id a) (tabs s) = Inr ((), tabs s')"
    by (auto dest: db_call_Inr)
  moreover have "row_conflict b (upd_row a ca)" using c by (simp add: row_conflict_def upd_row_def)
  ultimately show False using in_t ids by (auto simp: sql_update_client_def split: if_splits)
qed

text \<open>Two peers that trade their addresses: whichever is updated first clashes with the other.\<close>

lemma replaceClientsTx_swap:
  assumes ok: "tables_ok (tabs d)" and ord: "any_order order"
    and a: "row_at (tabs d) ka = Some a" and b: "row_at (tabs d) kb = Some b" and ne: "ka \<noteq> kb"
    and ca: "index_by PublicKey want ka = Some ca" "Address ca = r_address b"
    and cb: "index_by PublicKey want kb = Some cb" "Address cb = r_address a"
  shows "replaceClientsTx order want d \<noteq> (Inr (), d')"
proof
  assume run: "replaceClientsTx order want d = (Inr (), d')"
  let ?wk = "index_by PublicKey want" and ?ks = "order 1 (remdups (map PublicKey want))"
  note o = any_orderD [OF ord]
  obtain ex db dc where ex: "\<And>k. ex k = map_option client_of_row (row_at (tabs d) k)"
    and okb: "tables_ok (tabs db)"
    and vb: "\<And>k. row_at (tabs db) k = (if ?wk k = None then None else row_at (tabs d) k)"
    and c: "db_each (replace_update ex ?wk) ?ks db = (Inr (), dc)"
    using replaceClientsTx_loops [OF ok ord run] by metis
  have wdom: "k \<in> set ?ks \<longleftrightarrow> ?wk k \<noteq> None" for k
    using o by (simp add: index_by_None_iff image_iff)
  have dk: "distinct ?ks" using o by simp
  have "\<exists>k \<in> set ?ks. k = ka \<or> k = kb" using wdom ca by auto
  from split_list_first_prop [OF this]
  obtain xs k ys where ks: "?ks = xs @ k # ys" "k = ka \<or> k = kb" "\<forall>x \<in> set xs. \<not> (x = ka \<or> x = kb)"
    by blast
  from c ks(1) obtain s s' where s: "db_each (replace_update ex ?wk) xs db = (Inr (), s)"
    "replace_update ex ?wk k s = (Inr (), s')"
    by (auto simp: db_each_append db_bind_Inr)
  have xs: "\<forall>k \<in> set xs. ?wk k \<noteq> None" using wdom ks(1) by auto
  then have "\<forall>k \<in> set xs. row_at (tabs db) k = row_at (tabs d) k" by (auto simp: vb)
  from replace_update_view [OF ex xs _ okb this s(1)] dk ks(1)
  have v: "tables_ok (tabs s)" "\<And>j. j \<notin> set xs \<Longrightarrow> row_at (tabs s) j = row_at (tabs db) j" by simp_all
  have sa: "row_at (tabs s) ka = Some a" and sb: "row_at (tabs s) kb = Some b"
    using v(2) ks(3) vb a b ca cb by auto
  from ks(2) show False
  proof
    assume "k = ka"
    with replace_update_clash [where ex = ex and wk = ?wk, OF v(1) sa sb ne _ ca] ex [of ka] a s(2) show False by simp
  next
    assume "k = kb"
    with replace_update_clash [where ex = ex and wk = ?wk, OF v(1) sb sa ne [symmetric] _ cb] ex [of kb] b s(2) show False by simp
  qed
qed

lemma ReplaceClients_Inr:
  assumes "ReplaceClients order want d = (Inr (), d')"
  obtains d1 d2 where "tabs d1 = tabs d" and "replaceClientsTx order want d1 = (Inr (), d2)" and "tabs d' = tabs d2"
  using assms unfolding ReplaceClients_def by (auto elim: db_tx_Inr)

subsection \<open>When it succeeds\<close>

text \<open>
  No surviving peer takes over the name or the address that another surviving peer has in the
  table, and the payload itself has no duplicates.
\<close>

definition no_clash :: "tables \<Rightarrow> client list \<Rightarrow> bool" where
  "no_clash t want \<longleftrightarrow>
     distinct (map PublicKey want) \<and> distinct (map Name want) \<and> distinct (map Address want) \<and>
     (\<forall>c \<in> set want. \<forall>e \<in> set want. \<forall>r \<in> set (clients t).
        PublicKey c \<noteq> PublicKey e \<and> r_public_key r = PublicKey e \<longrightarrow>
        r_name r \<noteq> Name c \<and> r_address r \<noteq> Address c)"

text \<open>What the table looks like while the updates and the inserts run.\<close>

definition half_replaced :: "tables \<Rightarrow> (string \<rightharpoonup> client) \<Rightarrow> tables \<Rightarrow> bool" where
  "half_replaced t0 wk t \<longleftrightarrow> tables_ok t \<and>
     (\<forall>k r. row_at t k = Some r \<longrightarrow>
        (\<exists>c. wk k = Some c \<and>
          ((r_name r = Name c \<and> r_address r = Address c) \<or> row_at t0 k = Some r)))"

lemma no_clash_row:
  assumes nc: "no_clash t0 want" and t0: "tables_ok t0"
    and h: "half_replaced t0 (index_by PublicKey want) t"
    and c: "index_by PublicKey want k = Some c" and y: "y \<in> set (clients t)" "r_public_key y \<noteq> k"
  shows "r_name y \<noteq> Name c \<and> r_address y \<noteq> Address c"
proof -
  have cin: "c \<in> set want" "PublicKey c = k" using index_by_Some [OF c] by simp_all
  have "row_at t (r_public_key y) = Some y"
    using h y(1) by (simp add: half_replaced_def row_at_Some_iff)
  with h obtain e where e: "index_by PublicKey want (r_public_key y) = Some e"
    "(r_name y = Name e \<and> r_address y = Address e) \<or> row_at t0 (r_public_key y) = Some y"
    unfolding half_replaced_def by blast
  have ein: "e \<in> set want" "PublicKey e = r_public_key y" using index_by_Some [OF e(1)] by simp_all
  from cin ein y(2) have "c \<noteq> e" by auto
  from nc have d: "distinct (map Name want)" "distinct (map Address want)" by (simp_all add: no_clash_def)
  from distinct_map_eq [OF d(1) cin(1) ein(1)] distinct_map_eq [OF d(2) cin(1) ein(1)] \<open>c \<noteq> e\<close>
  have ne: "Name c \<noteq> Name e" "Address c \<noteq> Address e" by blast+
  from e(2) show ?thesis
  proof
    assume "row_at t0 (r_public_key y) = Some y"
    then have "y \<in> set (clients t0)" using t0 by (simp add: row_at_Some_iff)
    moreover have "PublicKey c \<noteq> PublicKey e \<and> r_public_key y = PublicKey e" using cin ein y(2) by simp
    ultimately show ?thesis using nc cin(1) ein(1) unfolding no_clash_def by blast
  qed (use ne in auto)
qed

lemma db_each_runs:
  assumes step: "\<And>k s. k \<in> set ks \<Longrightarrow> I (tabs s) \<Longrightarrow> faults s = [] \<Longrightarrow> row_at (tabs s) k = v k \<Longrightarrow>
      \<exists>s'. f k s = (Inr (), s') \<and> I (tabs s') \<and> faults s' = [] \<and>
        (\<forall>j. j \<noteq> k \<longrightarrow> row_at (tabs s') j = row_at (tabs s) j)"
    and "distinct ks" and "I (tabs d)" and "faults d = []" and "\<forall>k \<in> set ks. row_at (tabs d) k = v k"
  shows "\<exists>d'. db_each f ks d = (Inr (), d') \<and> I (tabs d') \<and> faults d' = []"
  using assms
proof (induction ks arbitrary: d)
  case (Cons k ks)
  obtain s where s: "f k d = (Inr (), s)" "I (tabs s)" "faults s = []"
    "\<forall>j. j \<noteq> k \<longrightarrow> row_at (tabs s) j = row_at (tabs d) j"
    using Cons.prems(1) [of k d] Cons.prems(3-5) by auto
  have "\<forall>j \<in> set ks. row_at (tabs s) j = v j"
  proof
    fix j assume "j \<in> set ks"
    with Cons.prems(2,5) s(4) show "row_at (tabs s) j = v j" by (cases "j = k") auto
  qed
  then have "\<exists>d'. db_each f ks s = (Inr (), d') \<and> I (tabs d') \<and> faults d' = []"
    using Cons.prems(2) s by (intro Cons.IH Cons.prems(1)) auto
  with s(1) show ?case by (auto simp: db_bind_def)
qed (simp add: db_return_def)

lemma half_replaced_upd:
  assumes "half_replaced t0 wk t" and "tables_ok t'" and "wk k = Some c"
    and "row_at t' k = None \<or> (\<exists>r. row_at t' k = Some r \<and> r_name r = Name c \<and> r_address r = Address c)"
    and "\<forall>j. j \<noteq> k \<longrightarrow> row_at t' j = row_at t j"
  shows "half_replaced t0 wk t'"
  unfolding half_replaced_def
proof (intro conjI allI impI)
  fix j r assume r: "row_at t' j = Some r"
  show "\<exists>c. wk j = Some c \<and> ((r_name r = Name c \<and> r_address r = Address c) \<or> row_at t0 j = Some r)"
  proof (cases "j = k")
    case True
    with r assms(3,4) show ?thesis by auto
  next
    case False
    with r assms(1,5) show ?thesis by (simp add: half_replaced_def)
  qed
qed (rule assms(2))

lemma update_runs:
  assumes nc: "no_clash t0 want" and t0: "tables_ok t0"
    and ex: "\<And>k. ex k = map_option client_of_row (row_at t0 k)"
    and h: "half_replaced t0 (index_by PublicKey want) (tabs s)" and f: "faults s = []"
    and k: "row_at (tabs s) k = row_at t0 k" and c: "index_by PublicKey want k = Some c"
  shows "\<exists>s'. replace_update ex (index_by PublicKey want) k s = (Inr (), s') \<and>
    half_replaced t0 (index_by PublicKey want) (tabs s') \<and> faults s' = [] \<and>
    (\<forall>j. j \<noteq> k \<longrightarrow> row_at (tabs s') j = row_at (tabs s) j)"
proof (cases "\<exists>r. row_at t0 k = Some r \<and> \<not> same_mutable (client_of_row r) c")
  case False
  then have "replace_update ex (index_by PublicKey want) k s = (Inr (), s)"
    using ex c by (auto simp: replace_update_def db_return_def split: option.splits)
  with h f show ?thesis by blast
next
  case True
  then obtain r where r: "row_at t0 k = Some r" "\<not> same_mutable (client_of_row r) c" by blast
  have ok: "tables_ok (tabs s)" using h by (simp add: half_replaced_def)
  have rin: "r \<in> set (clients (tabs s))" "r_public_key r = k" using r(1) k row_at_Some_iff [OF ok] by auto
  have "\<not> row_conflict y (upd_row x c)"
    if "x \<in> set (clients (tabs s))" "y \<in> set (clients (tabs s))" "r_id x = r_id r" "r_id y \<noteq> r_id r" for x y
  proof -
    have "x = r" using same_row [OF ok rin(1) that(1,3)] .
    have "r_public_key y \<noteq> k"
      using that(2,4) rin row_at_Some_iff [OF ok, of k] r(1) k by (metis option.inject)
    from no_clash_row [OF nc t0 h c that(2) this] this rin(2) \<open>x = r\<close> show ?thesis
      by (simp add: row_conflict_def upd_row_def)
  qed
  then have "sql_update_client (\<lambda>r. upd_row r c) (r_id r) (tabs s) = Inr ((), (tabs s)\<lparr>clients :=
      map (\<lambda>x. if r_id x = r_id r then upd_row x c else x) (clients (tabs s))\<rparr>)"
    unfolding sql_update_client_def by (subst if_not_P) blast+
  then obtain t where u: "sql_update_client (\<lambda>r. upd_row r c) (r_id r) (tabs s) = Inr ((), t)"
    by blast
  let ?s = "s\<lparr>tabs := t\<rparr>"
  have ek: "ex k = Some (client_of_row r)" using ex r(1) by simp
  have run: "replace_update ex (index_by PublicKey want) k s = (Inr (), ?s)"
    unfolding replace_update_call [where ex = ex and wk = "index_by PublicKey want", OF ek c r(2)] by (simp add: db_call_no_fault [OF f] u)
  from replace_update_step [where ex = ex, OF ok _ c run] ek k r
  have st: "tables_ok t" "row_at t k = Some (new_row r c)" "\<forall>j. j \<noteq> k \<longrightarrow> row_at t j = row_at (tabs s) j"
    by simp_all
  have "half_replaced t0 (index_by PublicKey want) t"
    using st r(2) by (intro half_replaced_upd [OF h st(1) c]) (auto simp: new_row_def upd_row_def)
  with run st(3) f show ?thesis by (intro exI [of _ ?s]) simp
qed

lemma insert_runs:
  assumes nc: "no_clash t0 want" and t0: "tables_ok t0"
    and h: "half_replaced t0 (index_by PublicKey want) (tabs s)" and f: "faults s = []"
    and k: "ex k = None \<Longrightarrow> row_at (tabs s) k = None" and c: "index_by PublicKey want k = Some c"
  shows "\<exists>s'. replace_insert ex (index_by PublicKey want) k s = (Inr (), s') \<and>
    half_replaced t0 (index_by PublicKey want) (tabs s') \<and> faults s' = [] \<and>
    (\<forall>j. j \<noteq> k \<longrightarrow> row_at (tabs s') j = row_at (tabs s) j)"
proof (cases "ex k")
  case (Some r)
  with h f c show ?thesis by (auto simp: replace_insert_def db_return_def)
next
  case None
  have ok: "tables_ok (tabs s)" using h by (simp add: half_replaced_def)
  have ck: "PublicKey c = k" using index_by_Some [OF c] by simp
  have "\<not> row_conflict y (row_of_client i c)" if "y \<in> set (clients (tabs s))" for y i
  proof -
    have "r_public_key y \<noteq> k" using k [OF None] that by (auto simp: row_at_None_iff)
    from no_clash_row [OF nc t0 h c that this] this ck show ?thesis
      by (simp add: row_conflict_def row_of_client_def)
  qed
  then obtain t where i: "sql_insert_client c (tabs s) = Inr ((), t)"
    by (auto simp: sql_insert_client_def Let_def)
  let ?s = "s\<lparr>tabs := t\<rparr>"
  have run: "replace_insert ex (index_by PublicKey want) k s = (Inr (), ?s)"
    using None c by (simp add: replace_insert_def db_call_no_fault [OF f] i)
  have n: "row_at (tabs s) (PublicKey c) = None" using k [OF None] ck by simp
  have v: "row_at t j = (if j = k then Some (row_of_client (client_seq (tabs s) + 1) c) else row_at (tabs s) j)" for j
    using row_at_insert [OF n i] ck by simp
  have "half_replaced t0 (index_by PublicKey want) t"
    by (rule half_replaced_upd [OF h clients_ok_insert [OF ok i] c]) (simp_all add: v row_of_client_def)
  with run v f show ?thesis by (intro exI [of _ ?s]) simp
qed

lemma any_order_wanted:
  "any_order order \<Longrightarrow> k \<in> set (order n (remdups (map PublicKey want))) \<longleftrightarrow> index_by PublicKey want k \<noteq> None"
  by (simp add: any_orderD index_by_None_iff image_iff)

lemma replace_delete_runs:
  assumes ok: "tables_ok (tabs s)" and f: "faults s = []"
    and ex: "ex k = map_option client_of_row (row_at (tabs s) k)"
  shows "\<exists>s'. replace_delete ex wk k s = (Inr (), s') \<and> tables_ok (tabs s') \<and> faults s' = [] \<and>
    (\<forall>j. j \<noteq> k \<longrightarrow> row_at (tabs s') j = row_at (tabs s) j)"
proof -
  have "\<exists>s'. replace_delete ex wk k s = (Inr (), s') \<and> faults s' = []"
    using f by (auto simp: replace_delete_def db_return_def db_call_no_fault sql_delete_client_def
        split: option.split)
  then obtain s' where s': "replace_delete ex wk k s = (Inr (), s')" "faults s' = []" by blast
  from replace_delete_step [where ex = ex, OF ok ex s'(1)] s' show ?thesis by blast
qed

lemma replace_delete_view:
  assumes ex: "\<And>k. ex k = map_option client_of_row (v k)"
    and ks: "distinct ks" and ok: "tables_ok (tabs d)" and v: "\<forall>k \<in> set ks. row_at (tabs d) k = v k"
    and run: "db_each (replace_delete ex wk) ks d = (Inr (), d')"
  shows "tables_ok (tabs d') \<and>
    (\<forall>k \<in> set ks. row_at (tabs d') k = (if wk k = None then None else v k)) \<and>
    (\<forall>j. j \<notin> set ks \<longrightarrow> row_at (tabs d') j = row_at (tabs d) j)"
proof (rule db_each_view [OF _ ks ok v run])
  fix k s s' assume p: "tables_ok (tabs s)" "row_at (tabs s) k = v k"
    "replace_delete ex wk k s = (Inr (), s')"
  from replace_delete_step [where ex = ex, OF p(1) _ p(3)] p(2) ex
  show "tables_ok (tabs s') \<and>
      row_at (tabs s') k = (if wk k = None then None else v k) \<and>
      (\<forall>j. j \<noteq> k \<longrightarrow> row_at (tabs s') j = row_at (tabs s) j)" by simp
qed

text \<open>The three loops one after the other.\<close>

lemma deletes_run:
  assumes ok: "tables_ok (tabs d)" and ord: "any_order order" and f: "faults d = []"
    and ex: "\<And>k. ex k = map_option client_of_row (row_at (tabs d) k)"
  shows "\<exists>db. db_each (replace_delete ex wk) (order 0 (remdups (map PublicKey (map client_of_row (clients (tabs d)))))) d
      = (Inr (), db) \<and> tables_ok (tabs db) \<and> faults db = [] \<and>
    (\<forall>k. row_at (tabs db) k = (if wk k = None then None else row_at (tabs d) k))"
proof -
  let ?ek = "order 0 (remdups (map PublicKey (map client_of_row (clients (tabs d)))))"
  have dk: "distinct ?ek" using any_orderD [OF ord] by simp
  have edom: "k \<in> set ?ek \<longleftrightarrow> row_at (tabs d) k \<noteq> None" for k
    using any_orderD [OF ord] by (auto simp: row_at_None_iff client_of_row_def image_iff)
  have "\<exists>db. db_each (replace_delete ex wk) ?ek d = (Inr (), db) \<and> tables_ok (tabs db) \<and> faults db = []"
  proof (rule db_each_runs [where I = tables_ok and v = "row_at (tabs d)", OF _ dk ok f])
    fix k and s :: db assume "tables_ok (tabs s)" "faults s = []" "row_at (tabs s) k = row_at (tabs d) k"
    then show "\<exists>s'. replace_delete ex wk k s = (Inr (), s') \<and> tables_ok (tabs s') \<and> faults s' = [] \<and>
        (\<forall>j. j \<noteq> k \<longrightarrow> row_at (tabs s') j = row_at (tabs s) j)"
      using ex by (intro replace_delete_runs) simp_all
  qed simp
  then obtain db where b: "db_each (replace_delete ex wk) ?ek d = (Inr (), db)" "tables_ok (tabs db)" "faults db = []"
    by blast
  have "row_at (tabs db) k = (if wk k = None then None else row_at (tabs d) k)" for k
    using replace_delete_view [OF ex dk ok _ b(1)] edom [of k] by (cases "k \<in> set ?ek") auto
  with b show ?thesis by blast
qed

lemma replaceClientsTx_succeeds:
  assumes ok: "tables_ok (tabs d)" and ord: "any_order order" and nc: "no_clash (tabs d) want"
    and f: "faults d = []"
  shows "\<exists>d'. replaceClientsTx order want d = (Inr (), d') \<and> faults d' = []"
proof -
  let ?rows = "map client_of_row (clients (tabs d))" and ?wk = "index_by PublicKey want"
  let ?ks = "remdups (map PublicKey want)"
  let ?I = "half_replaced (tabs d) ?wk"
  define ex where "ex = index_by PublicKey ?rows"
  have ex: "ex k = map_option client_of_row (row_at (tabs d) k)" for k
    unfolding ex_def by (rule existing_eq [OF ok])
  have dk: "distinct (order n ?ks)" for n using any_orderD [OF ord] by simp
  note wdom = any_order_wanted [OF ord]
  obtain db where b: "db_each (replace_delete ex ?wk) (order 0 (remdups (map PublicKey ?rows))) d = (Inr (), db)"
      "tables_ok (tabs db)" "faults db = []"
    and vb: "\<And>k. row_at (tabs db) k = (if ?wk k = None then None else row_at (tabs d) k)"
    using deletes_run [where wk = ?wk, OF ok ord f ex] by blast
  have hb: "?I (tabs db)"
    unfolding half_replaced_def using b(2) vb by (auto split: if_splits)
  have w: "\<forall>k \<in> set (order n ?ks). ?wk k \<noteq> None" for n using wdom by blast
  have v1: "\<forall>k \<in> set (order 1 ?ks). row_at (tabs db) k = row_at (tabs d) k"
    using w [of 1] vb by auto
  have "\<exists>dc. db_each (replace_update ex ?wk) (order 1 ?ks) db = (Inr (), dc) \<and> ?I (tabs dc) \<and> faults dc = []"
  proof (rule db_each_runs [where I = ?I, OF _ dk hb b(3) v1])
    fix k and s :: db assume k: "k \<in> set (order 1 ?ks)" and s: "?I (tabs s)" "faults s = []" "row_at (tabs s) k = row_at (tabs d) k"
    from k w obtain c where "?wk k = Some c" by blast
    from update_runs [where ex = ex, OF nc ok ex s this]
    show "\<exists>s'. replace_update ex ?wk k s = (Inr (), s') \<and> ?I (tabs s') \<and> faults s' = [] \<and>
        (\<forall>j. j \<noteq> k \<longrightarrow> row_at (tabs s') j = row_at (tabs s) j)" .
  qed
  then obtain dc where c: "db_each (replace_update ex ?wk) (order 1 ?ks) db = (Inr (), dc)"
      "?I (tabs dc)" "faults dc = []" by blast
  have ins: "row_at (tabs dc) k = None" if n: "ex k = None" for k
    using replace_update_view [OF ex w dk b(2) v1 c(1)] vb [of k] ex [of k] n
    by (cases "k \<in> set (order 1 ?ks)") auto
  have "\<exists>d'. db_each (replace_insert ex ?wk) (order 2 ?ks) dc = (Inr (), d') \<and> ?I (tabs d') \<and> faults d' = []"
  proof (rule db_each_runs [where I = ?I and v = "row_at (tabs dc)", OF _ dk c(2,3)])
    fix k and s :: db assume k: "k \<in> set (order 2 ?ks)" and s: "?I (tabs s)" "faults s = []" "row_at (tabs s) k = row_at (tabs dc) k"
    from k w obtain c where c: "?wk k = Some c" by blast
    show "\<exists>s'. replace_insert ex ?wk k s = (Inr (), s') \<and> ?I (tabs s') \<and> faults s' = [] \<and>
        (\<forall>j. j \<noteq> k \<longrightarrow> row_at (tabs s') j = row_at (tabs s) j)"
      using ins s(3) by (intro insert_runs [OF nc ok s(1,2) _ c]) simp
  qed simp
  with b(1) c(1) show ?thesis
    unfolding replaceClientsTx_def db_bind_Inr ex_def Let_def
    by (auto simp: db_bind_def db_query_no_fault [OF f])
qed

subsection \<open>Every operation keeps the schema\<close>

datatype db_op =
    OpInsertSystemMetric system_metric
  | OpInsertTrafficMetric traffic_metric
  | OpInsertClientTraffic "client_traffic list"
  | OpInsertHandshakeEvents "handshake_event list"
  | OpPruneBefore time
  | OpListClients
  | OpCountClients
  | OpInsertClient client
  | OpUpdateClient client
  | OpDeleteClient string
  | OpReplaceClients "string list \<Rightarrow> string list" "string list \<Rightarrow> string list" "string list \<Rightarrow> string list"
      "client list"

definition op_order :: "('k \<Rightarrow> 'k) \<Rightarrow> ('k \<Rightarrow> 'k) \<Rightarrow> ('k \<Rightarrow> 'k) \<Rightarrow> nat \<Rightarrow> 'k \<Rightarrow> 'k" where
  "op_order o0 o1 o2 n = (if n = 0 then o0 else if n = 1 then o1 else o2)"

fun db_step :: "db_op \<Rightarrow> db \<Rightarrow> db" where
  "db_step (OpInsertSystemMetric m) d = snd (InsertSystemMetric m d)"
| "db_step (OpInsertTrafficMetric m) d = snd (InsertTrafficMetric m d)"
| "db_step (OpInsertClientTraffic rows) d = snd (InsertClientTraffic rows d)"
| "db_step (OpInsertHandshakeEvents es) d = snd (InsertHandshakeEvents es d)"
| "db_step (OpPruneBefore c) d = snd (PruneBefore c d)"
| "db_step OpListClients d = snd (ListClients d)"
| "db_step OpCountClients d = snd (CountClients d)"
| "db_step (OpInsertClient c) d = snd (InsertClient c d)"
| "db_step (OpUpdateClient c) d = snd (UpdateClient c d)"
| "db_step (OpDeleteClient n) d = snd (DeleteClient n d)"
| "db_step (OpReplaceClients o0 o1 o2 want) d = snd (ReplaceClients (op_order o0 o1 o2) want d)"

named_theorems db_keeps \<open>operations that keep the schema\<close>

lemma keeps_ok [simp, intro]: "keeps P (db_ok what)"
  by (rule keeps_read_only) simp

lemma keeps_InsertSystemMetric [db_keeps]: "keeps tables_ok (InsertSystemMetric m)"
  unfolding InsertSystemMetric_def by (rule keeps_call) (auto simp: tables_ok_def)

lemma keeps_InsertTrafficMetric [db_keeps]: "keeps tables_ok (InsertTrafficMetric m)"
  unfolding InsertTrafficMetric_def by (rule keeps_call) (auto simp: tables_ok_def)

lemma keeps_InsertClientTraffic [db_keeps]: "keeps tables_ok (InsertClientTraffic rows)"
proof -
  have "keeps tables_ok (db_call w (\<lambda>t. Inr ((), put_client_traffic r t)))" for w r
    by (rule keeps_call) (auto simp: tables_ok_def put_client_traffic_def)
  then show ?thesis unfolding InsertClientTraffic_def
    by (auto intro!: keeps_tx keeps_bind keeps_each)
qed

lemma keeps_InsertHandshakeEvents [db_keeps]: "keeps tables_ok (InsertHandshakeEvents es)"
proof -
  have "keeps tables_ok (db_call w (\<lambda>t. Inr ((), put_handshake r t)))" for w r
    by (rule keeps_call) (auto simp: tables_ok_def put_handshake_def)
  then show ?thesis unfolding InsertHandshakeEvents_def
    by (auto intro!: keeps_tx keeps_bind keeps_each)
qed

lemma keeps_PruneBefore [db_keeps]: "keeps tables_ok (PruneBefore c)"
  unfolding PruneBefore_def Let_def
  by (intro keeps_tx keeps_bind keeps_return keeps_call) (auto simp: tables_ok_def prune_rows_def)

lemma read_only_ListClients: "read_only ListClients"
  unfolding ListClients_def by (rule read_only_query)

lemma read_only_CountClients: "read_only CountClients"
  unfolding CountClients_def by (rule read_only_select)

lemma keeps_InsertClient [db_keeps]: "keeps tables_ok (InsertClient c)"
  unfolding InsertClient_def by (rule keeps_call) (rule clients_ok_insert)

lemma keeps_UpdateClient [db_keeps]: "keeps tables_ok (UpdateClient c)"
  unfolding UpdateClient_def 
  by (rule keeps_call, rule clients_ok_update, assumption, assumption) (auto simp: b2i_def)

lemma keeps_DeleteClient [db_keeps]: "keeps tables_ok (DeleteClient n)"
  unfolding DeleteClient_def by (rule keeps_call) (rule clients_ok_delete)

lemma keeps_replace_insert: "keeps tables_ok (replace_insert ex wk k)"
  by (auto simp: replace_insert_def split: option.splits intro: keeps_call clients_ok_insert)

lemma keeps_replace_update: "keeps tables_ok (replace_update ex wk k)"
  unfolding replace_update_def
  by (auto split: option.splits)
    (rule keeps_call, rule clients_ok_update, assumption, assumption, auto simp: b2i_def)

lemma keeps_replace_delete: "keeps tables_ok (replace_delete ex wk k)"
  by (auto simp: replace_delete_def split: option.splits intro: keeps_call clients_ok_delete)

lemma keeps_ReplaceClients [db_keeps]: "keeps tables_ok (ReplaceClients order want)"
  unfolding ReplaceClients_def replaceClientsTx_def Let_def
  by (intro keeps_tx keeps_bind keeps_each keeps_replace_insert keeps_replace_update keeps_replace_delete
      keeps_read_only read_only_query)

lemma keepsD: "keeps P m \<Longrightarrow> P (tabs d) \<Longrightarrow> P (tabs (snd (m d)))"
  by (simp add: keeps_def)

lemmas [db_keeps] = keeps_read_only [OF read_only_ListClients] keeps_read_only [OF read_only_CountClients]

lemma db_step_ok: "tables_ok (tabs d) \<Longrightarrow> tables_ok (tabs (db_step ev d))"
  by (cases ev) (simp_all add: keepsD db_keeps)

interpretation db_ops: op_invariant "\<lambda>d. tables_ok (tabs d)" "\<lambda>_. True" db_step
  by unfold_locales (rule db_step_ok)

lemma tables_ok_empty: "tables_ok empty_tables"
  by (simp add: tables_ok_def clients_ok_def empty_tables_def)

subsection \<open>The time series\<close>

lemma in_replace_row: "r \<in> set (replace_row k v rows) \<longleftrightarrow> r = (k, v) \<or> r \<in> set rows \<and> fst r \<noteq> k"
  by (auto simp: replace_row_def)

lemma first_of_key_sub: "set (first_of_key rs) \<subseteq> set rs"
  by (induction rs) auto

lemma distinct_first_of_key: "distinct (map (\<lambda>r. snd (fst r)) (first_of_key rs))"
  by (induction rs) (auto simp: distinct_map_filter)

lemma first_of_key_cover: "r \<in> set rs \<Longrightarrow> \<exists>q \<in> set (first_of_key rs). snd (fst q) = snd (fst r)"
proof (induction rs)
  case (Cons a rs)
  show ?case
  proof (cases "snd (fst r) = snd (fst a)")
    case False
    with Cons.prems have "r \<in> set rs" by auto
    from Cons.IH [OF this] obtain q where "q \<in> set (first_of_key rs)" "snd (fst q) = snd (fst r)" by blast
    with False show ?thesis by (intro bexI [of _ q]) auto
  qed simp
qed simp

lemma sorted_first_of_key: "sorted_wrt P rs \<Longrightarrow> sorted_wrt P (first_of_key rs)"
  using first_of_key_sub by (induction rs) (fastforce simp: sorted_wrt_filter)+

lemma first_of_key_first:
  "sorted_wrt (\<lambda>x y. fst y \<le> fst x) rs \<Longrightarrow> q \<in> set (first_of_key rs) \<Longrightarrow> r \<in> set rs \<Longrightarrow>
    snd (fst r) = snd (fst q) \<Longrightarrow> fst r \<le> fst q"
proof (induction rs)
  case (Cons a rs)
  show ?case
  proof (cases "q = a")
    case True
    with Cons.prems show ?thesis by auto
  next
    case False
    with Cons.prems have "q \<in> set (first_of_key rs)" "snd (fst q) \<noteq> snd (fst a)" by auto
    with Cons.prems Cons.IH show ?thesis by auto
  qed
qed simp

lemma newest_first: "sorted_wrt (\<lambda>x y. fst y \<le> fst x) (rev (sort_key fst rs))"
  using sorted_sort_key [of fst rs] by (simp add: sorted_wrt_rev sorted_map)

lemma db_write_Inr:
  "db_call what (\<lambda>t. Inr (f t, g t)) d = (Inr x, d') \<Longrightarrow> x = f (tabs d) \<and> tabs d' = g (tabs d)"
  by (auto dest: db_call_Inr)

lemma ReplaceClients_runs:
  assumes "tables_ok (tabs d)" and "any_order order" and "no_clash (tabs d) want" and "faults d = []"
  shows "\<exists>d'. ReplaceClients order want d = (Inr (), d')"
  using replaceClientsTx_succeeds [OF assms] assms(4)
  unfolding ReplaceClients_def by (auto intro: db_tx_no_fault)

lemma ReplaceClients_replaced:
  assumes "tables_ok (tabs d)" and "any_order order" and "ReplaceClients order want d = (Inr (), d')"
  shows "tables_ok (tabs d') \<and>
    (\<forall>k. replaced (row_at (tabs d) k) (index_by PublicKey want k) (row_at (tabs d') k))"
proof -
  from assms(3) obtain d1 d2 where "tabs d1 = tabs d" "replaceClientsTx order want d1 = (Inr (), d2)"
    "tabs d' = tabs d2" by (rule ReplaceClients_Inr)
  with replaceClientsTx_exact [of d1 order want d2] assms(1,2) show ?thesis by simp
qed

subsection \<open>What the store promises\<close>


text \<open>
  C3. A whole-set replace that succeeds leaves exactly the wanted set, whatever the iteration
  order of the Go maps: for each public key the row is gone when the key is not wanted, has the
  wanted fields when it is, keeps id and creation time of an existing row, and an existing row
  whose fields did not change is not touched at all.
\<close>

theorem ReplaceClients_exact:
  assumes "tables_ok (tabs d)" and "any_order order" and "ReplaceClients order want d = (Inr (), d')"
  shows "tables_ok (tabs d') \<and>
    (\<forall>k. replaced (row_at (tabs d) k) (index_by PublicKey want k) (row_at (tabs d') k))"
  using assms by (rule ReplaceClients_replaced)

definition peer :: "string \<Rightarrow> string \<Rightarrow> string \<Rightarrow> client" where
  "peer n k a = \<lparr>ID = 0, Name = n, PublicKey = k, Address = a, Enabled = True, Note = None,
     CreatedAt = 0, UpdatedAt = 0\<rparr>"

lemma any_order_id: "any_order (\<lambda>n ks. ks)"
  by (simp add: any_order_def)

lemma peer_fresh: "no_clash empty_tables [peer n k a]"
  by (simp add: no_clash_def peer_def empty_tables_def)

theorem ReplaceClients_exact_witness:
  "\<exists>d'. ReplaceClients (\<lambda>n ks. ks) [peer ''b'' ''K2'' ''10.0.0.2/32''] (open_db []) = (Inr (), d') \<and>
    row_at (tabs d') ''K1'' = None"
proof -
  let ?want = "[peer ''b'' ''K2'' ''10.0.0.2/32'']"
  have ok: "tables_ok (tabs (open_db []))" by (simp add: open_db_def tables_ok_empty)
  then obtain d' where d': "ReplaceClients (\<lambda>n ks. ks) ?want (open_db []) = (Inr (), d')"
    using ReplaceClients_runs [OF ok any_order_id, of ?want] by (auto simp: open_db_def peer_fresh)
  have i: "index_by PublicKey ?want ''K1'' = None" by code_simp
  from ReplaceClients_exact [OF ok any_order_id d'] have
    "replaced (row_at (tabs (open_db [])) ''K1'') (index_by PublicKey ?want ''K1'') (row_at (tabs d') ''K1'')"
    by blast
  with d' show ?thesis unfolding i by (auto simp: replaced_def)
qed

text \<open>
  A whole-set replace that fails, for whatever reason and at whatever step, leaves every
  table as it was.
\<close>

theorem ReplaceClients_all_or_nothing:
  "case ReplaceClients order want d of (Inl e, d') \<Rightarrow> tabs d' = tabs d | (Inr _, d') \<Rightarrow> True"
  using atomicD [OF atomic_tx] unfolding ReplaceClients_def
  by (auto split: prod.split sum.split)

text \<open>
  C7. Without driver errors a whole-set replace does succeed, in every iteration order, when
  the payload has no duplicates and no wanted peer takes the name or the address that another
  wanted peer has in the table.
\<close>

theorem ReplaceClients_succeeds:
  assumes "tables_ok (tabs d)" and "any_order order" and "no_clash (tabs d) want" and "faults d = []"
  shows "\<exists>d'. ReplaceClients order want d = (Inr (), d')"
  using assms by (rule ReplaceClients_runs)

theorem ReplaceClients_succeeds_witness:
  "\<exists>d'. ReplaceClients (\<lambda>n ks. rev ks) [peer ''a'' ''K1'' ''10.0.0.1/32'', peer ''b'' ''K2'' ''10.0.0.2/32''] (open_db [])
    = (Inr (), d')"
proof (rule ReplaceClients_succeeds)
  show "tables_ok (tabs (open_db []))" by (simp add: open_db_def tables_ok_empty)
  show "any_order (\<lambda>n ks. rev ks)" by (simp add: any_order_def)
  show "no_clash (tabs (open_db [])) [peer ''a'' ''K1'' ''10.0.0.1/32'', peer ''b'' ''K2'' ''10.0.0.2/32'']"
    by (simp add: no_clash_def peer_def open_db_def empty_tables_def)
  show "faults (open_db []) = []" by (simp add: open_db_def)
qed

text \<open>
  Two peers of the table that trade their addresses: the replace fails in every iteration
  order, whether the driver fails or not, and leaves the table as it was, because the first of
  the two updates meets the address the other row still holds.
\<close>

theorem ReplaceClients_swap_fails:
  assumes "tables_ok (tabs d)" and "any_order order"
    and "row_at (tabs d) ka = Some a" and "row_at (tabs d) kb = Some b" and "ka \<noteq> kb"
    and "index_by PublicKey want ka = Some ca" and "Address ca = r_address b"
    and "index_by PublicKey want kb = Some cb" and "Address cb = r_address a"
  shows "\<exists>e d'. ReplaceClients order want d = (Inl e, d') \<and> tabs d' = tabs d"
proof -
  obtain r d' where r: "ReplaceClients order want d = (r, d')" by fastforce
  show ?thesis
  proof (cases r)
    case (Inl e)
    with r atomicD [OF atomic_tx] show ?thesis unfolding ReplaceClients_def by blast
  next
    case (Inr u)
    with r have "ReplaceClients order want d = (Inr (), d')" by simp
    then obtain d1 d2 where "tabs d1 = tabs d" "replaceClientsTx order want d1 = (Inr (), d2)"
      by (rule ReplaceClients_Inr)
    with replaceClientsTx_swap [of d1 order ka a kb b want ca cb d2] assms show ?thesis by simp
  qed
qed

definition two_peers :: db where
  "two_peers = \<lparr>tabs = empty_tables\<lparr>clients := [row_of_client 1 (peer ''a'' ''K1'' ''10.0.0.1/32''),
     row_of_client 2 (peer ''b'' ''K2'' ''10.0.0.2/32'')], client_seq := 2\<rparr>, faults = []\<rparr>"

theorem ReplaceClients_swap_fails_witness:
  "\<exists>e d'. ReplaceClients (\<lambda>n ks. rev ks) [peer ''a'' ''K1'' ''10.0.0.2/32'', peer ''b'' ''K2'' ''10.0.0.1/32''] two_peers
    = (Inl e, d') \<and> tabs d' = tabs two_peers"
proof (rule ReplaceClients_swap_fails)
  show "any_order (\<lambda>n ks. rev ks)" by (simp add: any_order_def)
  show "tables_ok (tabs two_peers)"
    by (simp add: two_peers_def tables_ok_def clients_ok_def empty_tables_def row_of_client_def peer_def b2i_def)
  show "row_at (tabs two_peers) ''K1'' = Some (row_of_client 1 (peer ''a'' ''K1'' ''10.0.0.1/32''))" by code_simp
  show "row_at (tabs two_peers) ''K2'' = Some (row_of_client 2 (peer ''b'' ''K2'' ''10.0.0.2/32''))" by code_simp
  show "index_by PublicKey [peer ''a'' ''K1'' ''10.0.0.2/32'', peer ''b'' ''K2'' ''10.0.0.1/32''] ''K1'' =
    Some (peer ''a'' ''K1'' ''10.0.0.2/32'')" by code_simp
  show "index_by PublicKey [peer ''a'' ''K1'' ''10.0.0.2/32'', peer ''b'' ''K2'' ''10.0.0.1/32''] ''K2'' =
    Some (peer ''b'' ''K2'' ''10.0.0.1/32'')" by code_simp
qed (simp_all add: peer_def row_of_client_def)

text \<open>
  A retention sweep either fails and changes nothing, or removes from the four time series
  exactly the rows older than the cutoff (a row at the cutoff stays), returns their number and
  leaves the clients alone.
\<close>

theorem PruneBefore_exact:
  "case PruneBefore cutoff d of
     (Inl e, d') \<Rightarrow> tabs d' = tabs d
   | (Inr n, d') \<Rightarrow> (let c = unix_secs cutoff; t = tabs d in
       tabs d' = t\<lparr>system_metrics := filter (\<lambda>r. c \<le> fst r) (system_metrics t),
                   traffic_metrics := filter (\<lambda>r. c \<le> fst r) (traffic_metrics t),
                   client_traffics := filter (\<lambda>r. c \<le> fst (fst r)) (client_traffics t),
                   handshake_events := filter (\<lambda>r. c \<le> fst (fst r)) (handshake_events t)\<rparr> \<and>
       n = int (length (filter (\<lambda>r. fst r < c) (system_metrics t)) +
                length (filter (\<lambda>r. fst r < c) (traffic_metrics t)) +
                length (filter (\<lambda>r. fst (fst r) < c) (client_traffics t)) +
                length (filter (\<lambda>r. fst (fst r) < c) (handshake_events t))))"
proof (cases "PruneBefore cutoff d")
  case (Pair r d')
  show ?thesis
  proof (cases r)
    case (Inl e)
    with Pair atomicD [OF atomic_tx] show ?thesis unfolding PruneBefore_def Let_def by simp
  next
    case (Inr n)
    with Pair have run: "PruneBefore cutoff d = (Inr n, d')" by simp
    show ?thesis unfolding run prod.case sum.case using run unfolding PruneBefore_def Let_def
      by (elim db_tx_Inr) (auto simp: db_bind_Inr prune_rows_def pruned_rows_def not_less dest!: db_write_Inr)
  qed
qed

text \<open>
  The query behind the recent-handshakes panel returns each peer at most once, newest
  first, with the latest handshake the peer has in the range; without a limit no peer of the
  range is missing.
\<close>

theorem QueryLatestHandshakePerPeer_latest:
  assumes "QueryLatestHandshakePerPeer from to n d = (Inr es, d')"
  shows "distinct (map he_PublicKey es) \<and>
    sorted_wrt (\<lambda>x y. (he_TS y, he_PublicKey y) \<le> (he_TS x, he_PublicKey x)) es \<and>
    (\<forall>e \<in> set es. ((unix_secs (he_TS e), he_PublicKey e), he_Name e) \<in> set (handshake_events (tabs d)) \<and>
       between from to (unix_secs (he_TS e)) \<and>
       (\<forall>ts name. ((ts, he_PublicKey e), name) \<in> set (handshake_events (tabs d)) \<and> between from to ts \<longrightarrow>
          ts \<le> unix_secs (he_TS e))) \<and>
    (n \<le> 0 \<longrightarrow> (\<forall>ts k name. ((ts, k), name) \<in> set (handshake_events (tabs d)) \<and> between from to ts \<longrightarrow>
       k \<in> he_PublicKey ` set es))"
proof -
  define rows where "rows = rev (sort_key fst (filter (\<lambda>r. between from to (fst (fst r))) (handshake_events (tabs d))))"
  define fk where "fk = first_of_key rows"
  have srt: "sorted_wrt (\<lambda>x y. fst y \<le> fst x) rows" unfolding rows_def by (rule newest_first)
  have rin: "r \<in> set rows \<longleftrightarrow> r \<in> set (handshake_events (tabs d)) \<and> between from to (fst (fst r))" for r
    by (auto simp: rows_def)
  have es: "es = map handshake_of (limit_rows n fk)"
    using assms by (auto simp: QueryLatestHandshakePerPeer_def fk_def rows_def dest!: db_query_Inr)
  have sub: "set (limit_rows n fk) \<subseteq> set fk" by (auto simp: limit_rows_def dest: in_set_takeD)
  have key: "he_PublicKey (handshake_of r) = snd (fst r)" "he_TS (handshake_of r) = unix_time (fst (fst r))"
    "he_Name (handshake_of r) = snd r" for r by (auto simp: handshake_of_def split: prod.split)
  have dist: "distinct (map (\<lambda>r. snd (fst r)) (limit_rows n fk))"
    using distinct_first_of_key [of rows] by (auto simp: limit_rows_def fk_def take_map [symmetric])
  have srt2: "sorted_wrt (\<lambda>x y. fst y \<le> fst x) (limit_rows n fk)"
    using sorted_first_of_key [OF srt] by (auto simp: limit_rows_def fk_def sorted_wrt_take)
  have a: "distinct (map he_PublicKey es)"
    using dist by (simp add: es comp_def key)
  have b: "sorted_wrt (\<lambda>x y. (he_TS y, he_PublicKey y) \<le> (he_TS x, he_PublicKey x)) es"
    using srt2 unfolding es sorted_wrt_map key
    by (rule sorted_wrt_mono_rel [rotated]) (auto simp: less_eq_prod_def)
  have c: "((unix_secs (he_TS e), he_PublicKey e), he_Name e) \<in> set (handshake_events (tabs d)) \<and>
       between from to (unix_secs (he_TS e)) \<and>
       (\<forall>ts name. ((ts, he_PublicKey e), name) \<in> set (handshake_events (tabs d)) \<and> between from to ts \<longrightarrow>
          ts \<le> unix_secs (he_TS e))" if e: "e \<in> set es" for e
  proof -
    from e es sub obtain q where q: "q \<in> set fk" "e = handshake_of q" by auto
    then have qr: "q \<in> set rows" using first_of_key_sub fk_def by blast
    have "ts \<le> fst (fst q)" if "((ts, snd (fst q)), name) \<in> set rows" for ts name
      using first_of_key_first [OF srt q(1) [unfolded fk_def] that] by (simp add: less_eq_prod_def) auto
    with qr show ?thesis unfolding q(2) key by (auto simp: rin)
  qed
  have "k \<in> he_PublicKey ` set es" if n: "n \<le> 0"
    and k: "((ts, k), name) \<in> set (handshake_events (tabs d))" "between from to ts" for ts k name
  proof -
    from k have "((ts, k), name) \<in> set rows" by (simp add: rin)
    from first_of_key_cover [OF this] obtain q where "q \<in> set fk" "snd (fst q) = k" by (auto simp: fk_def)
    with n show ?thesis unfolding es by (auto simp: limit_rows_def image_iff key intro!: bexI [of _ q])
  qed
  with a b c show ?thesis by blast
qed

theorem QueryLatestHandshakePerPeer_latest_witness:
  "distinct (map he_PublicKey [\<lparr>he_TS = unix_time 7, he_PublicKey = ''K'', he_Name = ''b''\<rparr>])"
proof -
  let ?d = "\<lparr>tabs = empty_tables\<lparr>handshake_events := [((7, ''K''), ''b''), ((5, ''K''), ''a'')]\<rparr>, faults = []\<rparr>"
  have "QueryLatestHandshakePerPeer (unix_time 0) (unix_time 9) 0 ?d =
    (Inr [\<lparr>he_TS = unix_time 7, he_PublicKey = ''K'', he_Name = ''b''\<rparr>], ?d)" by code_simp
  from QueryLatestHandshakePerPeer_latest [OF this] show ?thesis by blast
qed

end
