(* ===== verification/ClientStore.thy ===== *)
theory ClientStore
  imports GoStrings
begin

text \<open>
  \<^verbatim>\<open>dashboard/internal/clientsfile\<close> (the manifest written at boot) and
  \<^verbatim>\<open>dashboard/internal/clientstore\<close> (the client list kept as one S3 object): the entry types, the
  canonical form, the no-op store and the S3 store. JSON is modelled by its values: the text of a
  document is the business of \<^verbatim>\<open>encoding/json\<close>, of which the decoder's treatment of objects (names
  compared without case, the last duplicate wins, unknown names ignored, missing ones left empty,
  \<^verbatim>\<open>null\<close> leaves the zero value) is written out.
\<close>

subsection \<open>JSON values\<close>

datatype json =
    JNull
  | JBool bool
  | JNum rat
  | JStr string
  | JArr "json list"
  | JObj "(string \<times> json) list"

definition lower_char :: "char \<Rightarrow> char" where
  "lower_char c = (let n = (of_char c :: nat) in if 65 \<le> n \<and> n \<le> 90 then char_of (n + 32) else c)"

definition to_lower :: "string \<Rightarrow> string" where
  "to_lower s = map lower_char s"

text \<open>A string field of a struct: the last member of that name; \<open>None\<close> is a type error.\<close>

definition string_member :: "string \<Rightarrow> (string \<times> json) list \<Rightarrow> string option" where
  "string_member name ms =
     fold (\<lambda>(k, v) acc.
             if to_lower k \<noteq> name then acc
             else (case v of JStr s \<Rightarrow> map_option (\<lambda>_. s) acc | JNull \<Rightarrow> acc | _ \<Rightarrow> None))
       ms (Some [])"

fun traverse :: "('a \<Rightarrow> 'b option) \<Rightarrow> 'a list \<Rightarrow> 'b list option" where
  "traverse f [] = Some []"
| "traverse f (x # xs) =
     (case f x of None \<Rightarrow> None
      | Some y \<Rightarrow> map_option (\<lambda>ys. y # ys) (traverse f xs))"

lemma traverse_map [simp]: "(\<And>x. x \<in> set xs \<Longrightarrow> f (g x) = Some x) \<Longrightarrow> traverse f (map g xs) = Some xs"
  by (induction xs) auto

lemma traverse_length: "traverse f xs = Some ys \<Longrightarrow> length ys = length xs"
  by (induction xs arbitrary: ys) (auto split: option.splits)

subsection \<open>clientsfile.go\<close>

record manifest_client =
  mc_Name :: string
  mc_Address :: string
  mc_PublicKey :: string

datatype manifest_error = ManifestRead string | ManifestParse

fun manifest_of_json :: "json \<Rightarrow> manifest_client option" where
  "manifest_of_json (JObj ms) =
     (case (string_member ''name'' ms, string_member ''address'' ms, string_member ''public_key'' ms) of
        (Some n, Some a, Some k) \<Rightarrow> Some \<lparr>mc_Name = n, mc_Address = a, mc_PublicKey = k\<rparr>
      | _ \<Rightarrow> None)"
| "manifest_of_json JNull = Some \<lparr>mc_Name = [], mc_Address = [], mc_PublicKey = []\<rparr>"
| "manifest_of_json _ = None"

text \<open>\<open>read\<close> is \<^verbatim>\<open>os.ReadFile\<close>; the text it gives parses to a value or not at all.\<close>

definition manifest_Load :: "(string \<Rightarrow> string + json option) \<Rightarrow> string \<Rightarrow> manifest_error + manifest_client list" where
  "manifest_Load read path =
     (case read path of
        Inl e \<Rightarrow> Inl (ManifestRead e)
      | Inr None \<Rightarrow> Inl ManifestParse
      | Inr (Some JNull) \<Rightarrow> Inr []
      | Inr (Some (JArr vs)) \<Rightarrow>
          (case traverse manifest_of_json vs of None \<Rightarrow> Inl ManifestParse | Some cs \<Rightarrow> Inr cs)
      | Inr (Some _) \<Rightarrow> Inl ManifestParse)"

definition ByPublicKey :: "manifest_client list \<Rightarrow> (string \<rightharpoonup> manifest_client)" where
  "ByPublicKey cs = index_by mc_PublicKey cs"

definition ByName :: "manifest_client list \<Rightarrow> (string \<rightharpoonup> manifest_client)" where
  "ByName cs = index_by mc_Name cs"

subsection \<open>clientstore.go\<close>

record entry =
  e_Name :: string
  e_Address :: string
  e_PublicKey :: string

datatype store_error = ErrNotFound | StoreErr string

text \<open>
  The \<^verbatim>\<open>Store\<close> interface over an outside world \<open>'w\<close>: what it gives and what it leaves behind.
\<close>

datatype 'w store =
    NoopStore
  | Store "'w \<Rightarrow> (store_error + entry list) \<times> 'w" "entry list \<Rightarrow> 'w \<Rightarrow> store_error option \<times> 'w"

fun store_Load :: "'w store \<Rightarrow> 'w \<Rightarrow> (store_error + entry list) \<times> 'w" where
  "store_Load NoopStore w = (Inl ErrNotFound, w)"
| "store_Load (Store ld sv) w = ld w"

fun store_Save :: "'w store \<Rightarrow> entry list \<Rightarrow> 'w \<Rightarrow> store_error option \<times> 'w" where
  "store_Save NoopStore es w = (None, w)"
| "store_Save (Store ld sv) es w = sv es w"

definition entry_json :: "entry \<Rightarrow> json" where
  "entry_json e = JObj [(''name'', JStr (e_Name e)), (''address'', JStr (e_Address e)),
     (''public_key'', JStr (e_PublicKey e))]"

text \<open>\<^verbatim>\<open>Canonical\<close>: sorted by address; never \<^verbatim>\<open>null\<close>, since the copied slice is not nil.\<close>

definition Canonical :: "entry list \<Rightarrow> json" where
  "Canonical es = JArr (map entry_json (sort_key e_Address es))"

fun entry_of_json :: "json \<Rightarrow> entry option" where
  "entry_of_json (JObj ms) =
     (case (string_member ''name'' ms, string_member ''address'' ms, string_member ''public_key'' ms) of
        (Some n, Some a, Some k) \<Rightarrow> Some \<lparr>e_Name = n, e_Address = a, e_PublicKey = k\<rparr>
      | _ \<Rightarrow> None)"
| "entry_of_json JNull = Some \<lparr>e_Name = [], e_Address = [], e_PublicKey = []\<rparr>"
| "entry_of_json _ = None"

fun entries_of_json :: "json \<Rightarrow> entry list option" where
  "entries_of_json JNull = Some []"
| "entries_of_json (JArr vs) = traverse entry_of_json vs"
| "entries_of_json _ = None"

subsection \<open>s3store.go\<close>

text \<open>The error of a command: it ran and exited with a status, or it could not be run.\<close>

datatype run_error = ExitError string | RunFailed string

definition isNoSuchKey :: "run_error \<Rightarrow> bool" where
  "isNoSuchKey e =
     (case e of
        RunFailed _ \<Rightarrow> False
      | ExitError stderr \<Rightarrow>
          (let msg = to_lower stderr
           in if contains_str ''nosuchkey'' msg \<or> contains_str ''no such key'' msg then True
              else contains_str ''404'' msg))"

text \<open>
  What \<^verbatim>\<open>S3Store\<close> calls outside the program: temporary files (a name, or an error) and the
  \<^verbatim>\<open>aws\<close> command, which transfers the object from or to a file. The content of a file is the JSON
  value it holds, or none when it is not JSON.
\<close>

record 'w s3_env =
  create_temp :: "'w \<Rightarrow> (string + string) \<times> 'w"
  read_file :: "string \<Rightarrow> 'w \<Rightarrow> (string + json option) \<times> 'w"
  write_file :: "string \<Rightarrow> json \<Rightarrow> 'w \<Rightarrow> string option \<times> 'w"
  remove_file :: "string \<Rightarrow> 'w \<Rightarrow> 'w"
  run_cmd :: "string list \<Rightarrow> 'w \<Rightarrow> run_error option \<times> 'w"

definition S3_Load :: "'w s3_env \<Rightarrow> string \<Rightarrow> string \<Rightarrow> 'w \<Rightarrow> (store_error + entry list) \<times> 'w" where
  "S3_Load env bucket key w =
     (case create_temp env w of
        (Inl e, w1) \<Rightarrow> (Inl (StoreErr ''create temp file''), w1)
      | (Inr tmp, w1) \<Rightarrow>
          (case run_cmd env [''aws'', ''s3api'', ''get-object'', ''--bucket'', bucket, ''--key'', key, tmp] w1 of
             (Some e, w2) \<Rightarrow>
               (Inl (if isNoSuchKey e then ErrNotFound else StoreErr ''aws s3api get-object''), remove_file env tmp w2)
           | (None, w2) \<Rightarrow>
               (case read_file env tmp w2 of
                  (Inl e, w3) \<Rightarrow> (Inl (StoreErr ''read downloaded''), remove_file env tmp w3)
                | (Inr None, w3) \<Rightarrow> (Inl (StoreErr ''parse''), remove_file env tmp w3)
                | (Inr (Some j), w3) \<Rightarrow>
                    ((case entries_of_json j of None \<Rightarrow> Inl (StoreErr ''parse'') | Some es \<Rightarrow> Inr es),
                     remove_file env tmp w3))))"

definition S3_Save :: "'w s3_env \<Rightarrow> string \<Rightarrow> string \<Rightarrow> entry list \<Rightarrow> 'w \<Rightarrow> store_error option \<times> 'w" where
  "S3_Save env bucket key es w =
     (let body = Canonical es
      in case create_temp env w of
           (Inl e, w1) \<Rightarrow> (Some (StoreErr ''create temp file''), w1)
         | (Inr tmp, w1) \<Rightarrow>
             (case write_file env tmp body w1 of
                (Some e, w2) \<Rightarrow> (Some (StoreErr ''write temp file''), remove_file env tmp w2)
              | (None, w2) \<Rightarrow>
                  (case run_cmd env [''aws'', ''s3api'', ''put-object'', ''--bucket'', bucket, ''--key'', key,
                                     ''--body'', tmp, ''--content-type'', ''application/json''] w2 of
                     (Some e, w3) \<Rightarrow> (Some (StoreErr ''aws s3api put-object''), remove_file env tmp w3)
                   | (None, w3) \<Rightarrow> (None, remove_file env tmp w3))))"

definition S3Store :: "'w s3_env \<Rightarrow> string \<Rightarrow> string \<Rightarrow> 'w store" where
  "S3Store env bucket key = Store (S3_Load env bucket key) (S3_Save env bucket key)"

subsection \<open>Saving and loading\<close>

lemma entry_of_json_json [simp]: "entry_of_json (entry_json e) = Some e"
proof -
  have l: "to_lower ''name'' = ''name''" "to_lower ''address'' = ''address''" "to_lower ''public_key'' = ''public_key''"
    by code_simp+
  show ?thesis by (simp add: entry_json_def string_member_def l)
qed

lemma entries_of_Canonical: "entries_of_json (Canonical es) = Some (sort_key e_Address es)"
  by (simp add: Canonical_def)

lemma sort_entries_unique:
  "mset es = mset fs \<Longrightarrow> distinct (map e_Address es) \<Longrightarrow> sort_key e_Address es = sort_key e_Address fs"
  by (rule sk.srt_order_free)



end
