(* ===== verification/Service.thy ===== *)
theory Service
  imports Alloc Db ClientStore
begin

text \<open>
  \<^verbatim>\<open>dashboard/internal/clients/service.go\<close>: the orchestration of client management. Every exported
  method runs under one mutex, so that a run of the service is a sequence of these functions. The
  live-apply step and the store are interfaces to an outside world \<open>'w\<close>; the clock is an argument
  of the methods that read it, and the iteration order of the Go maps in
  \<^verbatim>\<open>ReplaceClients\<close> an argument of the methods that reach it.
\<close>

subsection \<open>State\<close>

datatype 'w applier = NoopApplier | Applier "client list \<Rightarrow> 'w \<Rightarrow> string option \<times> 'w"

fun applier_Apply :: "'w applier \<Rightarrow> client list \<Rightarrow> 'w \<Rightarrow> string option \<times> 'w" where
  "applier_Apply NoopApplier cs w = (None, w)"
| "applier_Apply (Applier f) cs w = f cs w"

record 'w service =
  svc_db :: db
  serverNet :: server_net
  applier :: "'w applier"
  svc_store :: "'w store"
  storeReady :: bool
  world :: 'w

datatype svc_error =
    SvcInvalid clients_error
  | SvcNameInUse string
  | SvcKeyInUse
  | SvcNotFound string
  | SvcDb string db_error
  | SvcApply string
  | SvcStore string store_error

type_synonym ('w, 'a) svc = "'w service \<Rightarrow> (svc_error + 'a) \<times> 'w service"

definition svc_return :: "'a \<Rightarrow> ('w, 'a) svc" where
  "svc_return x s = (Inr x, s)"

definition svc_fail :: "svc_error \<Rightarrow> ('w, 'a) svc" where
  "svc_fail e s = (Inl e, s)"

definition svc_bind :: "('w, 'a) svc \<Rightarrow> ('a \<Rightarrow> ('w, 'b) svc) \<Rightarrow> ('w, 'b) svc" where
  "svc_bind m f s = (case m s of (Inl e, s') \<Rightarrow> (Inl e, s') | (Inr x, s') \<Rightarrow> f x s')"

text \<open>A call into the database, its error wrapped with the text of the call site.\<close>

definition with_db :: "string \<Rightarrow> 'a dbm \<Rightarrow> ('w, 'a) svc" where
  "with_db what m s =
     (case m (svc_db s) of
        (Inl e, d) \<Rightarrow> (Inl (SvcDb what e), s\<lparr>svc_db := d\<rparr>)
      | (Inr x, d) \<Rightarrow> (Inr x, s\<lparr>svc_db := d\<rparr>))"

definition NewService :: "db \<Rightarrow> string \<Rightarrow> 'w \<Rightarrow> 'w service" where
  "NewService d s w =
     (let sn = (case ParseServerNet s of
                  Inr n \<Rightarrow> n
                | Inl e \<Rightarrow> (case ParseServerNet [] of Inr n \<Rightarrow> n
                            | Inl e' \<Rightarrow> \<lparr>Subnet = None, ServerIP = []\<rparr>))
      in \<lparr>svc_db = d, serverNet = sn, applier = NoopApplier, svc_store = NoopStore, storeReady = True, world = w\<rparr>)"

definition SetApplier :: "'w applier option \<Rightarrow> 'w service \<Rightarrow> 'w service" where
  "SetApplier a s = (case a of None \<Rightarrow> s | Some f \<Rightarrow> s\<lparr>applier := f\<rparr>)"

definition SetStore :: "'w store option \<Rightarrow> 'w service \<Rightarrow> 'w service" where
  "SetStore st s = (case st of None \<Rightarrow> s | Some f \<Rightarrow> s\<lparr>svc_store := f\<rparr>)"

definition StoreReady :: "'w service \<Rightarrow> bool" where
  "StoreReady s = storeReady s"

definition setStoreReady :: "bool \<Rightarrow> 'w service \<Rightarrow> 'w service" where
  "setStoreReady ready s = s\<lparr>storeReady := ready\<rparr>"

subsection \<open>Projections\<close>

definition addressesOf :: "client list \<Rightarrow> string list" where
  "addressesOf cs = map Address cs"

definition addressesExcluding :: "client list \<Rightarrow> int \<Rightarrow> string list" where
  "addressesExcluding cs i = map Address (filter (\<lambda>c. ID c \<noteq> i) cs)"

definition noteToNull :: "string \<Rightarrow> string option" where
  "noteToNull s = (if s = [] then None else Some s)"

definition entry_of_client :: "client \<Rightarrow> entry" where
  "entry_of_client c = \<lparr>e_Name = Name c, e_Address = Address c, e_PublicKey = PublicKey c\<rparr>"

definition entry_of_manifest :: "manifest_client \<Rightarrow> entry" where
  "entry_of_manifest c = \<lparr>e_Name = mc_Name c, e_Address = mc_Address c, e_PublicKey = mc_PublicKey c\<rparr>"

subsection \<open>The live-apply step and the write-through\<close>

definition svc_List :: "('w, client list) svc" where
  "svc_List = with_db ''list'' ListClients"

definition applyLocked :: "('w, unit) svc" where
  "applyLocked =
     svc_bind (with_db ''clients: apply list'' ListClients)
       (\<lambda>all s. case applier_Apply (applier s) all (world s) of
          (Some e, w) \<Rightarrow> (Inl (SvcApply e), s\<lparr>world := w\<rparr>)
        | (None, w) \<Rightarrow> (Inr (), s\<lparr>world := w\<rparr>))"

text \<open>The probe of the store: \<open>None\<close> is a store that is reachable, and trusted from now on.\<close>

definition attemptStoreHealLocked :: "'w service \<Rightarrow> store_error option \<times> 'w service" where
  "attemptStoreHealLocked s =
     (case store_Load (svc_store s) (world s) of
        (Inr es, w) \<Rightarrow> (None, s\<lparr>storeReady := True, world := w\<rparr>)
      | (Inl e, w) \<Rightarrow>
          if e = ErrNotFound then (None, s\<lparr>storeReady := True, world := w\<rparr>)
          else (Some e, s\<lparr>world := w\<rparr>))"

definition save_now :: "('w, unit) svc" where
  "save_now =
     svc_bind (with_db ''clients: store save list'' ListClients)
       (\<lambda>all s. case store_Save (svc_store s) (map entry_of_client all) (world s) of
          (_, w) \<Rightarrow> (Inr (), s\<lparr>world := w\<rparr>))"

definition saveStoreLocked :: "('w, unit) svc" where
  "saveStoreLocked s =
     (if \<not> storeReady s then
        (case attemptStoreHealLocked s of
           (Some e, s') \<Rightarrow> (Inr (), s')
         | (None, s') \<Rightarrow> save_now s')
      else save_now s)"

definition RecheckStore :: "('w, unit) svc" where
  "RecheckStore s =
     (if storeReady s then (Inr (), s)
      else (case svc_store s of
              NoopStore \<Rightarrow> (Inr (), s)
            | Store ld sv \<Rightarrow>
                (case attemptStoreHealLocked s of
                   (Some e, s') \<Rightarrow> (Inl (SvcStore ''recheck'' e), s')
                 | (None, s') \<Rightarrow> (Inr (), s'))))"

subsection \<open>Seed, Add, Update, ReplaceAll, Delete, Reconcile\<close>

definition manifest_record :: "time \<Rightarrow> manifest_client \<Rightarrow> client" where
  "manifest_record now c = \<lparr>ID = 0, Name = mc_Name c, PublicKey = mc_PublicKey c, Address = mc_Address c,
     Enabled = True, Note = None, CreatedAt = now, UpdatedAt = now\<rparr>"

fun seed_loop :: "time \<Rightarrow> manifest_client list \<Rightarrow> ('w, unit) svc" where
  "seed_loop now [] = svc_return ()"
| "seed_loop now (c # cs) =
     svc_bind (with_db ''clients: seed insert'' (InsertClient (manifest_record now c))) (\<lambda>_. seed_loop now cs)"

definition Seed :: "time \<Rightarrow> manifest_client list \<Rightarrow> ('w, unit) svc" where
  "Seed now seed =
     svc_bind (with_db ''clients: seed count'' CountClients)
       (\<lambda>n. if n > 0 then svc_return () else seed_loop now seed)"

record add_params =
  ap_Name :: string
  ap_PublicKey :: string
  ap_Address :: string
  ap_Note :: string

text \<open>The scan of the existing clients: the first one that has the name or the key.\<close>

fun add_conflict :: "add_params \<Rightarrow> client list \<Rightarrow> svc_error option" where
  "add_conflict p [] = None"
| "add_conflict p (c # cs) =
     (if Name c = ap_Name p then Some (SvcNameInUse (ap_Name p))
      else if PublicKey c = ap_PublicKey p then Some SvcKeyInUse
      else add_conflict p cs)"

text \<open>Allocation always returns (\<open>AllocateAddress_returns\<close>), so its value can be taken.\<close>

definition choose_address :: "server_net \<Rightarrow> string \<Rightarrow> string list \<Rightarrow> clients_error + string" where
  "choose_address sn a used =
     (if a = [] then the (AllocateAddress sn used) else ValidateOverride sn a used)"

definition add_record :: "time \<Rightarrow> add_params \<Rightarrow> string \<Rightarrow> client" where
  "add_record now p a = \<lparr>ID = 0, Name = ap_Name p, PublicKey = ap_PublicKey p, Address = a, Enabled = True,
     Note = noteToNull (ap_Note p), CreatedAt = now, UpdatedAt = now\<rparr>"

text \<open>The write, the live apply, the write-through: the tail of \<^verbatim>\<open>Add\<close>.\<close>

definition add_insert :: "client \<Rightarrow> ('w, client) svc" where
  "add_insert rec =
     svc_bind (with_db ''clients: add insert'' (InsertClient rec))
       (\<lambda>_. svc_bind applyLocked (\<lambda>_. svc_bind saveStoreLocked (\<lambda>_. svc_return rec)))"

definition Add :: "time \<Rightarrow> add_params \<Rightarrow> ('w, client) svc" where
  "Add now p s0 =
     (if ValidateName (ap_Name p) \<noteq> None then (Inl (SvcInvalid (the (ValidateName (ap_Name p)))), s0)
      else if ValidatePublicKey (ap_PublicKey p) \<noteq> None
      then (Inl (SvcInvalid (the (ValidatePublicKey (ap_PublicKey p)))), s0)
      else svc_bind (with_db ''clients: add list'' ListClients)
        (\<lambda>existing s.
           case add_conflict p existing of
             Some e \<Rightarrow> (Inl e, s)
           | None \<Rightarrow>
               (case choose_address (serverNet s) (ap_Address p) (addressesOf existing) of
                  Inl e \<Rightarrow> (Inl (SvcInvalid e), s)
                | Inr a \<Rightarrow> add_insert (add_record now p a) s)) s0)"

record update_params =
  up_Name :: "string option"
  up_PublicKey :: "string option"
  up_Address :: "string option"
  up_Note :: "string option"
  up_Enabled :: "bool option"

text \<open>The edits of \<^verbatim>\<open>Update\<close>, one field after the other on the row so far.\<close>

definition edit_name :: "client list \<Rightarrow> string option \<Rightarrow> client \<Rightarrow> svc_error + client" where
  "edit_name existing p c =
     (case p of
        None \<Rightarrow> Inr c
      | Some n \<Rightarrow>
          if n = Name c then Inr c
          else if ValidateName n \<noteq> None then Inl (SvcInvalid (the (ValidateName n)))
          else if \<exists>x \<in> set existing. ID x \<noteq> ID c \<and> Name x = n then Inl (SvcNameInUse n)
          else Inr (c\<lparr>Name := n\<rparr>))"

definition edit_key :: "client list \<Rightarrow> string option \<Rightarrow> client \<Rightarrow> svc_error + client" where
  "edit_key existing p c =
     (case p of
        None \<Rightarrow> Inr c
      | Some k \<Rightarrow>
          if k = PublicKey c then Inr c
          else if ValidatePublicKey k \<noteq> None then Inl (SvcInvalid (the (ValidatePublicKey k)))
          else if \<exists>x \<in> set existing. ID x \<noteq> ID c \<and> PublicKey x = k then Inl SvcKeyInUse
          else Inr (c\<lparr>PublicKey := k\<rparr>))"

definition edit_address :: "server_net \<Rightarrow> client list \<Rightarrow> string option \<Rightarrow> client \<Rightarrow> svc_error + client" where
  "edit_address sn existing p c =
     (case p of
        None \<Rightarrow> Inr c
      | Some a \<Rightarrow>
          (case ValidateOverride sn a (addressesExcluding existing (ID c)) of
             Inl e \<Rightarrow> Inl (SvcInvalid e)
           | Inr a' \<Rightarrow> Inr (c\<lparr>Address := a'\<rparr>)))"

definition edit_rest :: "time \<Rightarrow> update_params \<Rightarrow> client \<Rightarrow> client" where
  "edit_rest now p c =
     (let c1 = (case up_Note p of None \<Rightarrow> c | Some n \<Rightarrow> c\<lparr>Note := noteToNull n\<rparr>);
          c2 = (case up_Enabled p of None \<Rightarrow> c1 | Some b \<Rightarrow> c1\<lparr>Enabled := b\<rparr>)
      in c2\<lparr>UpdatedAt := now\<rparr>)"

definition sum_bind :: "'e + 'a \<Rightarrow> ('a \<Rightarrow> 'e + 'b) \<Rightarrow> 'e + 'b" where
  "sum_bind r f = (case r of Inl e \<Rightarrow> Inl e | Inr x \<Rightarrow> f x)"

definition edit_client :: "server_net \<Rightarrow> client list \<Rightarrow> time \<Rightarrow> update_params \<Rightarrow> client \<Rightarrow> svc_error + client" where
  "edit_client sn existing now p c =
     sum_bind (edit_name existing (up_Name p) c)
       (\<lambda>c1. sum_bind (edit_key existing (up_PublicKey p) c1)
       (\<lambda>c2. sum_bind (edit_address sn existing (up_Address p) c2)
       (\<lambda>c3. Inr (edit_rest now p c3))))"

definition update_write :: "update_params \<Rightarrow> client \<Rightarrow> ('w, client) svc" where
  "update_write p updated =
     svc_bind (with_db ''clients: update write'' (UpdateClient updated))
       (\<lambda>_. svc_bind applyLocked
       (\<lambda>_. svc_bind (if up_Name p \<noteq> None \<or> up_PublicKey p \<noteq> None \<or> up_Address p \<noteq> None
                      then saveStoreLocked else svc_return ())
       (\<lambda>_. svc_return updated)))"

definition Update :: "time \<Rightarrow> string \<Rightarrow> update_params \<Rightarrow> ('w, client) svc" where
  "Update now name p =
     svc_bind (with_db ''clients: update list'' ListClients)
       (\<lambda>existing s.
          case find (\<lambda>c. Name c = name) existing of
            None \<Rightarrow> (Inl (SvcNotFound name), s)
          | Some c \<Rightarrow>
              (case edit_client (serverNet s) existing now p c of
                 Inl e \<Rightarrow> (Inl e, s)
               | Inr updated \<Rightarrow> update_write p updated s))"

definition replace_record :: "time \<Rightarrow> replace_entry \<Rightarrow> client" where
  "replace_record now e = \<lparr>ID = 0, Name = re_Name e, PublicKey = re_PublicKey e, Address = re_Address e,
     Enabled = True, Note = None, CreatedAt = now, UpdatedAt = now\<rparr>"

definition ReplaceAll :: "time \<Rightarrow> (nat \<Rightarrow> string list \<Rightarrow> string list) \<Rightarrow> replace_entry list \<Rightarrow>
    ('w, client list) svc" where
  "ReplaceAll now order es s =
     (case validateSet (serverNet s) es of
        Some e \<Rightarrow> (Inl (SvcInvalid e), s)
      | None \<Rightarrow>
          svc_bind (with_db ''clients: replace all'' (ReplaceClients order (map (replace_record now) es)))
            (\<lambda>_. svc_bind applyLocked (\<lambda>_. svc_bind saveStoreLocked (\<lambda>_. svc_List))) s)"

definition Delete :: "string \<Rightarrow> ('w, unit) svc" where
  "Delete name =
     svc_bind (with_db ''clients: delete'' (DeleteClient name))
       (\<lambda>_. svc_bind applyLocked (\<lambda>_. saveStoreLocked))"

definition Reconcile :: "('w, unit) svc" where
  "Reconcile = applyLocked"

subsection \<open>The boot path of the cloud mode\<close>

definition fail_not_ready :: "('w, 'a) svc \<Rightarrow> ('w, 'a) svc" where
  "fail_not_ready m s =
     (case m s of
        (Inl e, s') \<Rightarrow> (Inl e, setStoreReady False s')
      | (Inr x, s') \<Rightarrow> (Inr x, s'))"

definition save_or_fail :: "string \<Rightarrow> entry list \<Rightarrow> ('w, unit) svc" where
  "save_or_fail what es s =
     (case store_Save (svc_store s) es (world s) of
        (Some e, w) \<Rightarrow> (Inl (SvcStore what e), s\<lparr>world := w\<rparr>)
      | (None, w) \<Rightarrow> (Inr (), s\<lparr>world := w\<rparr>))"

definition mark_ready :: "('w, unit) svc" where
  "mark_ready s = (Inr (), setStoreReady True s)"

definition reconcileFromEmptyStore :: "time \<Rightarrow> manifest_client list \<Rightarrow> ('w, unit) svc" where
  "reconcileFromEmptyStore now localSeed =
     svc_bind (fail_not_ready (with_db ''clients: count clients before store heal'' CountClients))
       (\<lambda>n. if n > 0 then
              svc_bind (fail_not_ready (with_db ''clients: list clients to heal store'' ListClients))
                (\<lambda>all. svc_bind (fail_not_ready (save_or_fail ''clients: heal store from db'' (map entry_of_client all)))
                (\<lambda>_. mark_ready))
            else
              svc_bind (fail_not_ready (save_or_fail ''clients: seed store from local boot seed'' (map entry_of_manifest localSeed)))
                (\<lambda>_. svc_bind (fail_not_ready (Seed now localSeed))
                (\<lambda>_. svc_bind (fail_not_ready Reconcile)
                (\<lambda>_. mark_ready))))"

definition reconcileFromHardStoreError :: "time \<Rightarrow> manifest_client list \<Rightarrow> store_error \<Rightarrow> ('w, unit) svc" where
  "reconcileFromHardStoreError now localSeed loadErr s =
     svc_bind (with_db ''clients: count clients after store load error'' CountClients)
       (\<lambda>n. svc_bind (if n = 0 then svc_bind (Seed now localSeed) (\<lambda>_. Reconcile) else svc_return ())
       (\<lambda>_. svc_fail (SvcStore ''clients: load store'' loadErr)))
       (setStoreReady False s)"

definition entry_to_replace :: "entry \<Rightarrow> replace_entry" where
  "entry_to_replace e = \<lparr>re_Name = e_Name e, re_Address = e_Address e, re_PublicKey = e_PublicKey e\<rparr>"

definition ReconcileFromStore :: "time \<Rightarrow> (nat \<Rightarrow> string list \<Rightarrow> string list) \<Rightarrow> manifest_client list \<Rightarrow>
    ('w, unit) svc" where
  "ReconcileFromStore now order localSeed s0 =
     (case store_Load (svc_store s0) (world s0) of
        (r, w) \<Rightarrow>
          (let s = s0\<lparr>world := w\<rparr>
           in case r of
                Inl e \<Rightarrow>
                  if e \<noteq> ErrNotFound then reconcileFromHardStoreError now localSeed e s
                  else reconcileFromEmptyStore now localSeed s
              | Inr es \<Rightarrow>
                  if es = [] then reconcileFromEmptyStore now localSeed s
                  else svc_bind (fail_not_ready (ReplaceAll now order (map entry_to_replace es)))
                         (\<lambda>_. mark_ready) s))"

subsection \<open>Rules for the service's calls\<close>

text \<open>The rows as every read of the service sees them.\<close>

definition listed :: "tables \<Rightarrow> client list" where
  "listed t = map client_of_row (sort_key (\<lambda>r. (r_address r, r_id r)) (clients t))"

lemma set_listed: "set (listed t) = client_of_row ` set (clients t)"
  by (simp add: listed_def)

lemma svc_bind_Inr:
  "svc_bind m f s = (Inr y, s') \<longleftrightarrow> (\<exists>x s1. m s = (Inr x, s1) \<and> f x s1 = (Inr y, s'))"
  by (auto simp: svc_bind_def split: prod.splits sum.splits)

lemma svc_return_Inr [simp]: "svc_return x s = (Inr y, s') \<longleftrightarrow> y = x \<and> s' = s"
  by (auto simp: svc_return_def)

lemma with_db_Inr:
  assumes "with_db what m s = (Inr x, s')"
  shows "m (svc_db s) = (Inr x, svc_db s') \<and> s' = s\<lparr>svc_db := svc_db s'\<rparr>"
  using assms by (auto simp: with_db_def split: prod.splits sum.splits)

lemma list_Inr:
  assumes "with_db what ListClients s = (Inr all, s')"
  shows "all = listed (tabs (svc_db s)) \<and> tabs (svc_db s') = tabs (svc_db s) \<and>
    s' = s\<lparr>svc_db := svc_db s'\<rparr>"
  using with_db_Inr [OF assms] by (auto simp: ListClients_def listed_def dest!: db_query_Inr)

text \<open>A method that touches neither the tables nor the server network.\<close>

definition svc_reads :: "('w, 'a) svc \<Rightarrow> bool" where
  "svc_reads m \<longleftrightarrow>
     (\<forall>s. tabs (svc_db (snd (m s))) = tabs (svc_db s) \<and> serverNet (snd (m s)) = serverNet s)"

lemma svc_readsI:
  "(\<And>s r s'. m s = (r, s') \<Longrightarrow> tabs (svc_db s') = tabs (svc_db s) \<and> serverNet s' = serverNet s) \<Longrightarrow> svc_reads m"
  unfolding svc_reads_def by (metis prod.collapse)

lemma svc_readsD:
  "svc_reads m \<Longrightarrow> m s = (r, s') \<Longrightarrow> tabs (svc_db s') = tabs (svc_db s) \<and> serverNet s' = serverNet s"
  unfolding svc_reads_def by (metis snd_conv)

lemma svc_reads_bind [intro]: "svc_reads m \<Longrightarrow> (\<And>x. svc_reads (f x)) \<Longrightarrow> svc_reads (svc_bind m f)"
  unfolding svc_reads_def svc_bind_def by (auto split: prod.splits sum.splits) (metis snd_conv)+

lemma svc_reads_with_db [intro]: "read_only m \<Longrightarrow> svc_reads (with_db what m)"
  unfolding svc_reads_def with_db_def read_only_def
  by (auto split: prod.splits sum.splits) (metis snd_conv)+

lemma svc_reads_return [simp, intro]: "svc_reads (svc_return x)" "svc_reads (svc_fail e)"
  by (simp_all add: svc_reads_def svc_return_def svc_fail_def)

lemma svc_reads_List [simp, intro]: "svc_reads svc_List"
  unfolding svc_List_def by (intro svc_reads_with_db read_only_ListClients)

lemma svc_reads_apply [simp, intro]: "svc_reads applyLocked"
  unfolding applyLocked_def
  by (intro svc_reads_bind svc_reads_with_db read_only_ListClients)
    (auto simp: svc_reads_def split: prod.splits option.splits)

lemma svc_reads_save_now [simp, intro]: "svc_reads save_now"
  unfolding save_now_def
  by (intro svc_reads_bind svc_reads_with_db read_only_ListClients)
    (auto simp: svc_reads_def split: prod.splits)

lemma heal_frame:
  "attemptStoreHealLocked s = (e, s') \<Longrightarrow> svc_db s' = svc_db s \<and> serverNet s' = serverNet s"
  by (auto simp: attemptStoreHealLocked_def split: prod.splits sum.splits if_splits)

lemma svc_reads_save [simp, intro]: "svc_reads saveStoreLocked"
  by (rule svc_readsI)
    (auto simp: saveStoreLocked_def split: if_splits prod.splits option.splits
      dest!: heal_frame svc_readsD [OF svc_reads_save_now])

lemma svc_reads_recheck [simp, intro]: "svc_reads RecheckStore"
  by (rule svc_readsI)
    (auto simp: RecheckStore_def split: if_splits prod.splits option.splits store.splits dest!: heal_frame)

subsection \<open>Keeping an invariant of the tables\<close>

definition svc_keeps :: "('w service \<Rightarrow> bool) \<Rightarrow> ('w, 'a) svc \<Rightarrow> bool" where
  "svc_keeps P m \<longleftrightarrow> (\<forall>s. P s \<longrightarrow> P (snd (m s)))"

lemma svc_keepsD: "svc_keeps P m \<Longrightarrow> P s \<Longrightarrow> P (snd (m s))"
  by (simp add: svc_keeps_def)

lemma svc_keeps_bind [intro]: "svc_keeps P m \<Longrightarrow> (\<And>x. svc_keeps P (f x)) \<Longrightarrow> svc_keeps P (svc_bind m f)"
  unfolding svc_keeps_def svc_bind_def by (auto split: prod.splits sum.splits; metis snd_conv)

lemma svc_keeps_return [simp, intro]: "svc_keeps P (svc_return x)" "svc_keeps P (svc_fail e)"
  by (simp_all add: svc_keeps_def svc_return_def svc_fail_def)

text \<open>The invariant: the schema holds, and every row passes the validators.\<close>

definition row_valid :: "server_net \<Rightarrow> client_row \<Rightarrow> bool" where
  "row_valid sn r \<longleftrightarrow> nameRe (r_name r) \<and> pubKeyRe (r_public_key r) \<and> ValidateAddress sn (r_address r) = None"

definition valid_tables :: "server_net \<Rightarrow> tables \<Rightarrow> bool" where
  "valid_tables sn t \<longleftrightarrow> tables_ok t \<and> (\<forall>r \<in> set (clients t). row_valid sn r)"

definition svc_inv :: "server_net \<Rightarrow> 'w service \<Rightarrow> bool" where
  "svc_inv sn s \<longleftrightarrow> serverNet s = sn \<and> valid_tables sn (tabs (svc_db s))"

lemma svc_reads_keeps: "svc_reads m \<Longrightarrow> svc_keeps (svc_inv sn) m"
  by (auto simp: svc_keeps_def svc_reads_def svc_inv_def)

lemma with_db_keeps:
  assumes "keeps (valid_tables sn) m"
  shows "svc_keeps (svc_inv sn) (with_db what m)"
  unfolding svc_keeps_def
proof (intro allI impI)
  fix s :: "'w service" assume inv: "svc_inv sn s"
  obtain r d where m: "m (svc_db s) = (r, d)" by fastforce
  have "valid_tables sn (tabs d)"
    using keepsD [OF assms, of "svc_db s"] inv m by (simp add: svc_inv_def)
  then show "svc_inv sn (snd (with_db what m s))"
    using inv m by (cases r) (simp_all add: with_db_def svc_inv_def)
qed

lemma list_bind_keeps:
  assumes "\<And>s. svc_inv sn s \<Longrightarrow> svc_inv sn (snd (f (listed (tabs (svc_db s))) s))"
  shows "svc_keeps (svc_inv sn) (svc_bind (with_db what ListClients) f)"
  unfolding svc_keeps_def
proof (intro allI impI)
  fix s :: "'a service" assume inv: "svc_inv sn s"
  obtain r s1 where l: "with_db what ListClients s = (r, s1)" by fastforce
  have inv1: "svc_inv sn s1"
    using svc_reads_keeps [OF svc_reads_with_db [OF read_only_ListClients, of what]] inv l
    unfolding svc_keeps_def by (metis snd_conv)
  show "svc_inv sn (snd (svc_bind (with_db what ListClients) f s))"
  proof (cases r)
    case (Inl e)
    with l inv1 show ?thesis by (simp add: svc_bind_def)
  next
    case (Inr all)
    with l have "all = listed (tabs (svc_db s))" "tabs (svc_db s1) = tabs (svc_db s)"
      using list_Inr by blast+
    with assms [OF inv1] l Inr show ?thesis by (simp add: svc_bind_def)
  qed
qed

definition client_valid :: "server_net \<Rightarrow> client \<Rightarrow> bool" where
  "client_valid sn c \<longleftrightarrow> nameRe (Name c) \<and> pubKeyRe (PublicKey c) \<and> ValidateAddress sn (Address c) = None"

lemma row_valid_of_client [simp]: "row_valid sn (row_of_client i c) \<longleftrightarrow> client_valid sn c"
  by (simp add: row_valid_def row_of_client_def client_valid_def)

lemma insert_valid:
  "valid_tables sn t \<Longrightarrow> sql_insert_client c t = Inr (x, t') \<Longrightarrow> client_valid sn c \<Longrightarrow> valid_tables sn t'"
  using clients_ok_insert [of t c x t']
  by (auto simp: valid_tables_def sql_insert_client_def Let_def split: if_splits)

lemma update_valid:
  assumes "valid_tables sn t" and "sql_update_client f i t = Inr (x, t')"
    and "\<And>r. r_id (f r) = r_id r" and "\<And>r. r_enabled (f r) \<in> {0, 1}" and "\<And>r. row_valid sn r \<Longrightarrow> row_valid sn (f r)"
  shows "valid_tables sn t'"
proof -
  have "tables_ok t'"
    using assms(1-4) by (intro clients_ok_update [of t f i x t']) (auto simp: valid_tables_def)
  moreover have "clients t' = map (\<lambda>x. if r_id x = i then f x else x) (clients t)"
    using assms(2) by (auto simp: sql_update_client_def split: if_splits)
  ultimately show ?thesis using assms(1,5) by (auto simp: valid_tables_def)
qed

lemma delete_valid: "valid_tables sn t \<Longrightarrow> sql_delete_client P t = Inr (x, t') \<Longrightarrow> valid_tables sn t'"
  using clients_ok_delete [of t P x t'] by (auto simp: valid_tables_def sql_delete_client_def)

lemma InsertClient_valid: "client_valid sn c \<Longrightarrow> keeps (valid_tables sn) (InsertClient c)"
  unfolding InsertClient_def by (rule keeps_call) (rule insert_valid)

lemma UpdateClient_valid: "client_valid sn c \<Longrightarrow> keeps (valid_tables sn) (UpdateClient c)"
  unfolding UpdateClient_def
  by (rule keeps_call, rule update_valid, assumption, assumption)
    (auto simp: b2i_def row_valid_def client_valid_def)

lemma DeleteClient_valid: "keeps (valid_tables sn) (DeleteClient n)"
  unfolding DeleteClient_def by (rule keeps_call) (rule delete_valid)

lemma ReplaceClients_valid:
  assumes "\<forall>c \<in> set want. client_valid sn c"
  shows "keeps (valid_tables sn) (ReplaceClients order want)"
proof -
  have v: "index_by PublicKey want k = Some c \<Longrightarrow> client_valid sn c" for k c
    using assms by (auto dest: index_by_Some)
  have "keeps (valid_tables sn) (replace_insert ex (index_by PublicKey want) k)" for ex k
    by (auto simp: replace_insert_def v split: option.split intro!: keeps_call elim!: insert_valid)
  moreover have "keeps (valid_tables sn) (replace_update ex (index_by PublicKey want) k)" for ex k
    unfolding replace_update_def
    by (auto split: option.split)
      (rule keeps_call, rule update_valid, assumption, assumption,
       auto simp: b2i_def row_valid_def client_valid_def dest!: v)
  moreover have "keeps (valid_tables sn) (replace_delete ex (index_by PublicKey want) k)" for ex k
    by (auto simp: replace_delete_def split: option.split intro: keeps_call delete_valid)
  ultimately show ?thesis unfolding ReplaceClients_def replaceClientsTx_def Let_def
    by (intro keeps_tx keeps_bind keeps_each keeps_read_only [OF read_only_query]) simp_all
qed

subsection \<open>Every method keeps the invariant\<close>

text \<open>What comes from the boot manifest is inserted without validation.\<close>

definition manifest_valid :: "server_net \<Rightarrow> manifest_client \<Rightarrow> bool" where
  "manifest_valid sn c \<longleftrightarrow> nameRe (mc_Name c) \<and> pubKeyRe (mc_PublicKey c) \<and> ValidateAddress sn (mc_Address c) = None"

lemma seed_loop_keeps:
  "\<forall>c \<in> set cs. manifest_valid sn c \<Longrightarrow> svc_keeps (svc_inv sn) (seed_loop now cs)"
  by (induction cs)
    (auto intro!: svc_keeps_bind with_db_keeps InsertClient_valid
      simp: manifest_valid_def client_valid_def manifest_record_def)

lemma Seed_keeps: "\<forall>c \<in> set cs. manifest_valid sn c \<Longrightarrow> svc_keeps (svc_inv sn) (Seed now cs)"
  unfolding Seed_def
  by (auto intro!: svc_keeps_bind seed_loop_keeps svc_reads_keeps [OF svc_reads_with_db [OF read_only_CountClients]])

lemma choose_address_valid:
  assumes "choose_address sn a used = Inr x" and net: "Subnet sn = Some (v4_net v n)" "n \<le> 30"
  shows "ValidateAddress sn x = None \<and> (\<exists>h. x = host_cidr h \<and> \<not> reserved_host sn used h)"
proof -
  have "ValidateOverride sn x used = Inr x"
  proof (cases "a = []")
    case True
    with assms(1) obtain r where r: "AllocateAddress sn used = Some r" "r = Inr x"
      using AllocateAddress_returns [of sn used] by (auto simp: choose_address_def)
    then have "AllocateAddress sn used = Some (Inr x)" by simp
    then show ?thesis by (rule allocated_accepted [OF net])
  next
    case False
    with assms(1) have "ValidateOverride sn a used = Inr x" by (simp add: choose_address_def)
    with override_accepted [of sn a used x] show ?thesis by simp
  qed
  with override_accepted [of sn x used x] show ?thesis
    by (auto simp: ValidateAddress_None_iff)
qed

lemmas tail_keeps = svc_reads_keeps [OF svc_reads_apply] svc_reads_keeps [OF svc_reads_save]
  svc_reads_keeps [OF svc_reads_List] svc_keeps_return

text \<open>An IPv4 network with room for hosts: what the allocator is proved for.\<close>

definition usable_net :: "server_net \<Rightarrow> bool" where
  "usable_net sn \<longleftrightarrow> (\<exists>v n. n \<le> 30 \<and> Subnet sn = Some (v4_net v n))"

lemma chosen_valid:
  "usable_net sn \<Longrightarrow> choose_address sn a used = Inr x \<Longrightarrow> ValidateAddress sn x = None"
  unfolding usable_net_def using choose_address_valid by blast

lemma add_insert_keeps: "client_valid sn rec \<Longrightarrow> svc_keeps (svc_inv sn) (add_insert rec)"
  unfolding add_insert_def by (intro svc_keeps_bind with_db_keeps InsertClient_valid tail_keeps)

lemma Add_keeps:
  assumes net: "usable_net sn" shows "svc_keeps (svc_inv sn) (Add now p)"
proof (cases "ValidateName (ap_Name p) = None \<and> ValidatePublicKey (ap_PublicKey p) = None")
  case False
  then show ?thesis by (auto simp: Add_def svc_keeps_def)
next
  case True
  have "svc_keeps (svc_inv sn) (svc_bind (with_db ''clients: add list'' ListClients)
        (\<lambda>existing s.
           case add_conflict p existing of
             Some e \<Rightarrow> (Inl e, s)
           | None \<Rightarrow>
               (case choose_address (serverNet s) (ap_Address p) (addressesOf existing) of
                  Inl e \<Rightarrow> (Inl (SvcInvalid e), s)
                | Inr a \<Rightarrow> add_insert (add_record now p a) s)))"
  proof (rule list_bind_keeps)
    fix s :: "'b service" assume inv: "svc_inv sn s"
    have "svc_inv sn (snd (add_insert (add_record now p a) s))"
      if "choose_address (serverNet s) (ap_Address p) (addressesOf (listed (tabs (svc_db s)))) = Inr a" for a
    proof (rule svc_keepsD [where P = "svc_inv sn", OF add_insert_keeps inv])
      have "ValidateAddress sn a = None"
        using that inv chosen_valid [OF net] by (simp add: svc_inv_def)
      then show "client_valid sn (add_record now p a)" using True by (simp add: client_valid_def add_record_def)
    qed
    then show "svc_inv sn (snd (case add_conflict p (listed (tabs (svc_db s))) of
             Some e \<Rightarrow> (Inl e, s)
           | None \<Rightarrow>
               (case choose_address (serverNet s) (ap_Address p) (addressesOf (listed (tabs (svc_db s)))) of
                  Inl e \<Rightarrow> (Inl (SvcInvalid e), s)
                | Inr a \<Rightarrow> add_insert (add_record now p a) s)))"
      using inv by (auto split: option.split sum.split)
  qed
  with True show ?thesis by (simp add: Add_def svc_keeps_def)
qed

lemma edit_name_valid: "edit_name ex p c = Inr d \<Longrightarrow> client_valid sn c \<Longrightarrow> client_valid sn d \<and> ID d = ID c"
  by (auto simp: edit_name_def client_valid_def split: option.splits if_splits)

lemma edit_key_valid: "edit_key ex p c = Inr d \<Longrightarrow> client_valid sn c \<Longrightarrow> client_valid sn d \<and> ID d = ID c"
  by (auto simp: edit_key_def client_valid_def split: option.splits if_splits)

lemma edit_address_valid:
  "edit_address sn ex p c = Inr d \<Longrightarrow> client_valid sn c \<Longrightarrow> client_valid sn d \<and> ID d = ID c"
  by (auto simp: edit_address_def client_valid_def override_accepted ValidateAddress_None_iff
      split: option.splits sum.splits)

lemma edit_rest_valid: "client_valid sn (edit_rest now p c) = client_valid sn c" "ID (edit_rest now p c) = ID c"
  by (simp_all add: edit_rest_def client_valid_def Let_def split: option.split)

lemma edit_client_valid:
  assumes "edit_client sn ex now p c = Inr d" and c: "client_valid sn c"
  shows "client_valid sn d \<and> ID d = ID c"
proof -
  from assms(1) obtain c1 c2 c3 where e: "edit_name ex (up_Name p) c = Inr c1"
    "edit_key ex (up_PublicKey p) c1 = Inr c2" "edit_address sn ex (up_Address p) c2 = Inr c3"
    "d = edit_rest now p c3"
    by (auto simp: edit_client_def sum_bind_def split: sum.splits)
  from edit_name_valid [OF e(1) c] have 1: "client_valid sn c1 \<and> ID c1 = ID c" .
  from edit_key_valid [where sn = sn, OF e(2)] 1 have 2: "client_valid sn c2 \<and> ID c2 = ID c" by simp
  from edit_address_valid [OF e(3)] 2 have 3: "client_valid sn c3 \<and> ID c3 = ID c" by simp
  then show ?thesis by (simp add: e(4) edit_rest_valid)
qed

lemma listed_valid: "valid_tables sn t \<Longrightarrow> c \<in> set (listed t) \<Longrightarrow> client_valid sn c"
  by (auto simp: set_listed valid_tables_def row_valid_def client_valid_def client_of_row_def)

lemma maybe_save_keeps: "svc_keeps (svc_inv sn) (if b then saveStoreLocked else svc_return ())"
  by (cases b) (simp_all only: if_True if_False tail_keeps)

lemma update_write_keeps: "client_valid sn u \<Longrightarrow> svc_keeps (svc_inv sn) (update_write p u)"
  unfolding update_write_def
  by (intro svc_keeps_bind with_db_keeps UpdateClient_valid maybe_save_keeps tail_keeps)

lemma Update_keeps: "svc_keeps (svc_inv sn) (Update now name p)"
  unfolding Update_def
proof (rule list_bind_keeps)
  fix s :: "'b service" assume inv: "svc_inv sn s"
  show "svc_inv sn (snd (case find (\<lambda>c. Name c = name) (listed (tabs (svc_db s))) of
            None \<Rightarrow> (Inl (SvcNotFound name), s)
          | Some c \<Rightarrow>
              (case edit_client (serverNet s) (listed (tabs (svc_db s))) now p c of
                 Inl e \<Rightarrow> (Inl e, s) | Inr updated \<Rightarrow> update_write p updated s)))"
  proof (cases "find (\<lambda>c. Name c = name) (listed (tabs (svc_db s)))")
    case (Some c)
    then have cin: "c \<in> set (listed (tabs (svc_db s)))" by (auto dest: find_SomeD)
    have sn: "serverNet s = sn" "valid_tables sn (tabs (svc_db s))" using inv by (simp_all add: svc_inv_def)
    note cv = listed_valid [OF sn(2) cin]
    show ?thesis
    proof (cases "edit_client (serverNet s) (listed (tabs (svc_db s))) now p c")
      case (Inl e)
      with Some inv show ?thesis by simp
    next
      case (Inr u)
      then have "client_valid sn u" using edit_client_valid [OF _ cv] unfolding sn by blast
      from svc_keepsD [where P = "svc_inv sn", OF update_write_keeps [OF this] inv] Some Inr
      show ?thesis by simp
    qed
  qed (use inv in simp)
qed

lemma entry_ok_record: "entry_ok sn e \<Longrightarrow> client_valid sn (replace_record now e)"
  by (simp add: entry_ok_def client_valid_def replace_record_def)

lemma ReplaceAll_keeps: "svc_keeps (svc_inv sn) (ReplaceAll now order es)"
  unfolding svc_keeps_def
proof (intro allI impI)
  fix s :: "'w service" assume inv: "svc_inv sn s"
  show "svc_inv sn (snd (ReplaceAll now order es s))"
  proof (cases "validateSet (serverNet s) es")
    case None
    then have "\<forall>c \<in> set (map (replace_record now) es). client_valid sn c"
      using inv by (auto simp: validateSet_def validate_entries_None svc_inv_def entry_ok_record)
    from ReplaceClients_valid [OF this]
    have "svc_keeps (svc_inv sn) (svc_bind (with_db ''clients: replace all'' (ReplaceClients order (map (replace_record now) es)))
            (\<lambda>_. svc_bind applyLocked (\<lambda>_. svc_bind saveStoreLocked (\<lambda>_. svc_List))) :: ('w, client list) svc)"
      by (intro svc_keeps_bind with_db_keeps tail_keeps)
    from svc_keepsD [where P = "svc_inv sn", OF this inv] None show ?thesis by (simp add: ReplaceAll_def)
  qed (use inv in \<open>simp add: ReplaceAll_def\<close>)
qed

lemma Delete_keeps: "svc_keeps (svc_inv sn) (Delete name)"
  unfolding Delete_def by (intro svc_keeps_bind with_db_keeps DeleteClient_valid tail_keeps)

lemma Reconcile_keeps: "svc_keeps (svc_inv sn) Reconcile"
  unfolding Reconcile_def by (rule tail_keeps)

lemma setStoreReady_inv [simp]: "svc_inv sn (setStoreReady b s) = svc_inv sn s"
  by (simp add: setStoreReady_def svc_inv_def)

lemma mark_ready_keeps: "svc_keeps (svc_inv sn) mark_ready"
  by (simp add: svc_keeps_def mark_ready_def)

lemma fail_not_ready_keeps: "svc_keeps (svc_inv sn) m \<Longrightarrow> svc_keeps (svc_inv sn) (fail_not_ready m)"
  unfolding svc_keeps_def fail_not_ready_def by (auto split: prod.splits sum.splits; metis snd_conv)

lemma save_or_fail_reads: "svc_reads (save_or_fail what es)"
  by (rule svc_readsI) (auto simp: save_or_fail_def split: prod.splits option.splits)

lemma empty_store_keeps:
  assumes "\<forall>c \<in> set cs. manifest_valid sn c"
  shows "svc_keeps (svc_inv sn) (reconcileFromEmptyStore now cs)"
  unfolding reconcileFromEmptyStore_def
  by (intro svc_keeps_bind fail_not_ready_keeps svc_reads_keeps [OF svc_reads_with_db [OF read_only_CountClients]])
    (auto intro!: svc_keeps_bind fail_not_ready_keeps svc_reads_keeps [OF svc_reads_with_db [OF read_only_ListClients]]
      svc_reads_keeps [OF save_or_fail_reads] mark_ready_keeps Seed_keeps [OF assms] Reconcile_keeps)

lemma hard_error_keeps:
  assumes "\<forall>c \<in> set cs. manifest_valid sn c"
  shows "svc_keeps (svc_inv sn) (reconcileFromHardStoreError now cs e :: ('w, unit) svc)"
proof -
  have "svc_keeps (svc_inv sn) (svc_bind (with_db ''clients: count clients after store load error'' CountClients)
       (\<lambda>n. svc_bind (if n = 0 then svc_bind (Seed now cs) (\<lambda>_. Reconcile) else svc_return ())
       (\<lambda>_. svc_fail (SvcStore ''clients: load store'' e))) :: ('w, unit) svc)"
    by (intro svc_keeps_bind svc_reads_keeps [OF svc_reads_with_db [OF read_only_CountClients]])
      (auto intro!: svc_keeps_bind Seed_keeps [OF assms] Reconcile_keeps)
  then show ?thesis by (simp add: svc_keeps_def reconcileFromHardStoreError_def)
qed

lemma ReconcileFromStore_keeps:
  assumes "\<forall>c \<in> set cs. manifest_valid sn c"
  shows "svc_keeps (svc_inv sn) (ReconcileFromStore now order cs)"
  unfolding svc_keeps_def
proof (intro allI impI)
  fix s :: "'w service" assume inv: "svc_inv sn s"
  obtain r w where l: "store_Load (svc_store s) (world s) = (r, w)" by fastforce
  let ?s = "s\<lparr>world := w\<rparr>"
  have inv': "svc_inv sn ?s" using inv by (simp add: svc_inv_def)
  have "svc_keeps (svc_inv sn) (svc_bind (fail_not_ready (ReplaceAll now order (map entry_to_replace es))) (\<lambda>_. mark_ready))" for es
    by (intro svc_keeps_bind fail_not_ready_keeps ReplaceAll_keeps mark_ready_keeps)
  note steps = svc_keepsD [where P = "svc_inv sn", OF this inv']
    svc_keepsD [where P = "svc_inv sn", OF empty_store_keeps [OF assms] inv']
    svc_keepsD [where P = "svc_inv sn", OF hard_error_keeps [OF assms] inv']
  show "svc_inv sn (snd (ReconcileFromStore now order cs s))"
    by (auto simp: ReconcileFromStore_def l Let_def steps split: sum.split)
qed

subsection \<open>The service as a sequence of its methods\<close>

datatype 'w svc_op =
    OpAdd time add_params
  | OpUpdate time string update_params
  | OpReplaceAll time "nat \<Rightarrow> string list \<Rightarrow> string list" "replace_entry list"
  | OpDelete string
  | OpReconcile
  | OpRecheckStore
  | OpSeed time "manifest_client list"
  | OpReconcileFromStore time "nat \<Rightarrow> string list \<Rightarrow> string list" "manifest_client list"
  | OpSetApplier "'w applier option"
  | OpSetStore "'w store option"
  | OpList
  | OpWorld "'w \<Rightarrow> 'w" "bool list"

text \<open>
  Between two methods the world may change on its own, and the driver may fail on other calls
  than before.
\<close>

fun svc_step :: "'w svc_op \<Rightarrow> 'w service \<Rightarrow> 'w service" where
  "svc_step (OpAdd now p) s = snd (Add now p s)"
| "svc_step (OpUpdate now n p) s = snd (Update now n p s)"
| "svc_step (OpReplaceAll now order es) s = snd (ReplaceAll now order es s)"
| "svc_step (OpDelete n) s = snd (Delete n s)"
| "svc_step OpReconcile s = snd (Reconcile s)"
| "svc_step OpRecheckStore s = snd (RecheckStore s)"
| "svc_step (OpSeed now cs) s = snd (Seed now cs s)"
| "svc_step (OpReconcileFromStore now order cs) s = snd (ReconcileFromStore now order cs s)"
| "svc_step (OpSetApplier a) s = SetApplier a s"
| "svc_step (OpSetStore st) s = SetStore st s"
| "svc_step OpList s = snd (svc_List s)"
| "svc_step (OpWorld f fs) s = s\<lparr>world := f (world s), svc_db := (svc_db s)\<lparr>faults := fs\<rparr>\<rparr>"

fun legal_op :: "server_net \<Rightarrow> 'w svc_op \<Rightarrow> bool" where
  "legal_op sn (OpSeed now cs) = (\<forall>c \<in> set cs. manifest_valid sn c)"
| "legal_op sn (OpReconcileFromStore now order cs) = (\<forall>c \<in> set cs. manifest_valid sn c)"
| "legal_op sn _ = True"

lemma svc_step_inv:
  assumes "usable_net sn" and "svc_inv sn s" and "legal_op sn ev"
  shows "svc_inv sn (svc_step ev s)"
proof (cases ev)
  case (OpSetApplier a)
  with assms show ?thesis by (simp add: SetApplier_def svc_inv_def split: option.split)
next
  case (OpSetStore st)
  with assms show ?thesis by (simp add: SetStore_def svc_inv_def split: option.split)
next
  case (OpWorld f fs)
  with assms show ?thesis by (simp add: svc_inv_def)
qed (use assms in \<open>auto intro!: svc_keepsD [where P = "svc_inv sn"] Add_keeps Update_keeps ReplaceAll_keeps
      Delete_keeps Reconcile_keeps svc_reads_keeps [OF svc_reads_recheck] Seed_keeps ReconcileFromStore_keeps
      svc_reads_keeps [OF svc_reads_List]\<close>)

interpretation svc_ops: op_invariant "\<lambda>s. usable_net sn \<and> svc_inv sn s" "legal_op sn" svc_step for sn
  by unfold_locales (auto intro: svc_step_inv)

lemma NewService_inv:
  assumes "ParseServerNet str = Inr sn" shows "svc_inv sn (NewService (open_db fs) str w)"
  using assms by (simp add: NewService_def svc_inv_def valid_tables_def open_db_def tables_ok_empty)
    (simp add: empty_tables_def)

subsection \<open>What each call leaves behind\<close>

lemma applyLocked_Inr:
  assumes "applyLocked s = (Inr (), s')"
  shows "applier_Apply (applier s) (listed (tabs (svc_db s))) (world s) = (None, world s') \<and>
    tabs (svc_db s') = tabs (svc_db s) \<and> s' = s\<lparr>svc_db := svc_db s', world := world s'\<rparr>"
proof -
  from assms obtain all s1 where l: "with_db ''clients: apply list'' ListClients s = (Inr all, s1)"
    and a: "(case applier_Apply (applier s1) all (world s1) of
          (Some e, w) \<Rightarrow> (Inl (SvcApply e), s1\<lparr>world := w\<rparr>) | (None, w) \<Rightarrow> (Inr (), s1\<lparr>world := w\<rparr>)) = (Inr (), s')"
    unfolding applyLocked_def svc_bind_Inr by blast
  from list_Inr [OF l] have 1: "all = listed (tabs (svc_db s))" "tabs (svc_db s1) = tabs (svc_db s)"
    "s1 = s\<lparr>svc_db := svc_db s1\<rparr>" by blast+
  obtain r w where ap: "applier_Apply (applier s1) all (world s1) = (r, w)" by fastforce
  with a have "r = None" "s' = s1\<lparr>world := w\<rparr>" by (auto split: option.splits)
  moreover have "applier s1 = applier s" "world s1 = world s" by (subst 1(3), simp)+
  ultimately show ?thesis using ap 1 by (metis service.select_convs(1,6) service.surjective service.update_convs(1,6))
qed

lemma add_insert_Inr:
  assumes "add_insert rec s = (Inr c, s')"
  shows "c = rec \<and> sql_insert_client rec (tabs (svc_db s)) = Inr ((), tabs (svc_db s')) \<and>
    (\<exists>w. applier_Apply (applier s) (listed (tabs (svc_db s'))) (world s) = (None, w))"
proof -
  from assms obtain s1 s2 where i: "with_db ''clients: add insert'' (InsertClient rec) s = (Inr (), s1)"
    and a: "applyLocked s1 = (Inr (), s2)" and v: "saveStoreLocked s2 = (Inr (), s')" and c: "c = rec"
    by (auto simp: add_insert_def svc_bind_Inr)
  from with_db_Inr [OF i] have "InsertClient rec (svc_db s) = (Inr (), svc_db s1)" "s1 = s\<lparr>svc_db := svc_db s1\<rparr>"
    by blast+
  then have ins: "sql_insert_client rec (tabs (svc_db s)) = Inr ((), tabs (svc_db s1))"
    and w1: "applier s1 = applier s" "world s1 = world s"
    by (auto simp: InsertClient_def dest: db_call_Inr) (metis service.ext_inject service.surjective service.update_convs(1))+
  from applyLocked_Inr [OF a] svc_readsD [OF svc_reads_save v] ins w1 c show ?thesis by auto
qed

lemma add_conflict_None:
  "add_conflict p cs = None \<longleftrightarrow> (\<forall>c \<in> set cs. Name c \<noteq> ap_Name p \<and> PublicKey c \<noteq> ap_PublicKey p)"
  by (induction cs) auto

lemma Add_Inr:
  assumes "Add now p s = (Inr c, s')"
  obtains a s1 where "nameRe (ap_Name p)" "pubKeyRe (ap_PublicKey p)" "c = add_record now p a"
    "tabs (svc_db s1) = tabs (svc_db s)" "s1 = s\<lparr>svc_db := svc_db s1\<rparr>"
    "add_conflict p (listed (tabs (svc_db s))) = None"
    "choose_address (serverNet s) (ap_Address p) (addressesOf (listed (tabs (svc_db s)))) = Inr a"
    "add_insert (add_record now p a) s1 = (Inr c, s')"
proof -
  from assms have v: "nameRe (ap_Name p)" "pubKeyRe (ap_PublicKey p)"
    by (auto simp: Add_def split: if_splits)
  with assms obtain ex s1 where l: "with_db ''clients: add list'' ListClients s = (Inr ex, s1)"
    and rest: "(case add_conflict p ex of Some e \<Rightarrow> (Inl e, s1)
           | None \<Rightarrow> (case choose_address (serverNet s1) (ap_Address p) (addressesOf ex) of
                  Inl e \<Rightarrow> (Inl (SvcInvalid e), s1)
                | Inr a \<Rightarrow> add_insert (add_record now p a) s1)) = (Inr c, s')"
    by (auto simp: Add_def svc_bind_Inr)
  from list_Inr [OF l] have 1: "ex = listed (tabs (svc_db s))" "tabs (svc_db s1) = tabs (svc_db s)"
    "s1 = s\<lparr>svc_db := svc_db s1\<rparr>" by blast+
  then have sn: "serverNet s1 = serverNet s"
    by (metis service.ext_inject service.surjective service.update_convs(1))
  from rest obtain a where a: "add_conflict p ex = None"
    "choose_address (serverNet s1) (ap_Address p) (addressesOf ex) = Inr a"
    "add_insert (add_record now p a) s1 = (Inr c, s')"
    by (auto split: option.splits sum.splits)
  from add_insert_Inr [OF a(3)] have "c = add_record now p a" by blast
  with that v 1 a sn show thesis by simp
qed

lemma addressesOf_listed: "set (addressesOf (listed t)) = r_address ` set (clients t)"
  by (simp add: addressesOf_def set_listed image_image client_of_row_def)

subsection \<open>Saving to the store\<close>

lemma list_no_fault:
  assumes "faults (svc_db s) = []"
  shows "with_db what ListClients s = (Inr (listed (tabs (svc_db s))), s)"
  using assms by (simp add: with_db_def ListClients_def db_query_no_fault listed_def)

lemma save_now_eq:
  assumes "faults (svc_db s) = []"
  shows "save_now s = (Inr (), s\<lparr>world := snd (store_Save (svc_store s)
    (map entry_of_client (listed (tabs (svc_db s)))) (world s))\<rparr>)"
  using list_no_fault [OF assms] by (simp add: save_now_def svc_bind_def split: prod.split)

lemma save_heals:
  assumes "faults (svc_db s) = []" and "\<not> storeReady s" and "store_Load (svc_store s) (world s) = (Inr es, w)"
  shows "saveStoreLocked s = (Inr (), s\<lparr>storeReady := True, world := snd (store_Save (svc_store s)
    (map entry_of_client (listed (tabs (svc_db s)))) w)\<rparr>)"
  using assms by (simp add: saveStoreLocked_def attemptStoreHealLocked_def save_now_eq)

lemma save_gated:
  assumes "\<not> storeReady s" and "store_Load (svc_store s) (world s) = (Inl e, w)" and "e \<noteq> ErrNotFound"
  shows "saveStoreLocked s = (Inr (), s\<lparr>world := w\<rparr>)"
  using assms by (simp add: saveStoreLocked_def attemptStoreHealLocked_def)

subsection \<open>The boot decision table\<close>

lemma count_no_fault: "faults (svc_db s) = [] \<Longrightarrow>
    with_db what CountClients s = (Inr (int (length (clients (tabs (svc_db s))))), s)"
  by (cases s, cases "svc_db s") (simp add: with_db_def CountClients_def db_call_no_fault)

lemma fail_not_ready_Inr: "fail_not_ready m s = (Inr x, s') \<longleftrightarrow> m s = (Inr x, s')"
  by (auto simp: fail_not_ready_def split: prod.splits sum.splits)

lemma svc_reads_fail_not_ready: "svc_reads m \<Longrightarrow> svc_reads (fail_not_ready m)"
  unfolding svc_reads_def fail_not_ready_def setStoreReady_def
  by (auto split: prod.splits sum.splits; metis snd_conv)

lemma svc_reads_mark_ready: "svc_reads mark_ready"
  by (simp add: svc_reads_def mark_ready_def setStoreReady_def)

lemma count_Inr: "with_db what CountClients s = (Inr n, s') \<Longrightarrow>
    n = int (length (clients (tabs (svc_db s)))) \<and> tabs (svc_db s') = tabs (svc_db s) \<and> s' = s\<lparr>svc_db := svc_db s'\<rparr>"
  by (drule with_db_Inr) (auto simp: CountClients_def dest!: db_call_Inr)

text \<open>On the empty-store branch a table with rows is only read.\<close>

lemma empty_store_tabs:
  assumes "clients (tabs (svc_db s)) \<noteq> []"
  shows "tabs (svc_db (snd (reconcileFromEmptyStore now cs s))) = tabs (svc_db s)"
proof -
  obtain r s1 where c: "fail_not_ready (with_db ''clients: count clients before store heal'' CountClients) s = (r, s1)"
    by fastforce
  have t1: "tabs (svc_db s1) = tabs (svc_db s)"
    using svc_readsD [OF svc_reads_fail_not_ready [OF svc_reads_with_db [OF read_only_CountClients]] c] by blast
  show ?thesis
  proof (cases r)
    case (Inl e)
    with c t1 show ?thesis by (simp add: reconcileFromEmptyStore_def svc_bind_def)
  next
    case (Inr n)
    with c have "n > 0" using assms by (auto simp: fail_not_ready_Inr dest!: count_Inr)
    define heal :: "('a, unit) svc" where "heal = svc_bind (fail_not_ready (with_db ''clients: list clients to heal store'' ListClients))
                (\<lambda>all. svc_bind (fail_not_ready (save_or_fail ''clients: heal store from db'' (map entry_of_client all)))
                (\<lambda>_. mark_ready))"
    have "svc_reads heal" unfolding heal_def
      by (intro svc_reads_bind svc_reads_fail_not_ready svc_reads_with_db read_only_ListClients
          save_or_fail_reads svc_reads_mark_ready)
    moreover have "reconcileFromEmptyStore now cs s = heal s1"
      using c Inr \<open>n > 0\<close> by (simp add: reconcileFromEmptyStore_def heal_def svc_bind_def [of "fail_not_ready (with_db ''clients: count clients before store heal'' CountClients)"])
    ultimately show ?thesis using t1 unfolding svc_reads_def by simp
  qed
qed

text \<open>What a call leaves of everything but the world, the database and the readiness.\<close>

lemma with_db_world:
  "with_db what m s = (r, s1) \<Longrightarrow> world s1 = world s \<and> applier s1 = applier s \<and>
    svc_store s1 = svc_store s \<and> storeReady s1 = storeReady s"
  by (auto simp: with_db_def split: prod.splits sum.splits)

lemma applyLocked_world:
  assumes "applyLocked s = (r, s')"
  shows "storeReady s' = storeReady s \<and> svc_store s' = svc_store s \<and>
    (world s' = world s \<or> (\<exists>cs x. applier_Apply (applier s) cs (world s) = (x, world s')))"
proof -
  obtain q s1 where l: "with_db ''clients: apply list'' ListClients s = (q, s1)" by fastforce
  note w = with_db_world [OF l]
  show ?thesis
  proof (cases q)
    case (Inl e)
    with assms l w show ?thesis by (auto simp: applyLocked_def svc_bind_def)
  next
    case (Inr all)
    obtain x w' where a: "applier_Apply (applier s1) all (world s1) = (x, w')" by fastforce
    with assms l Inr have "s' = s1\<lparr>world := w'\<rparr>"
      by (auto simp: applyLocked_def svc_bind_def split: option.splits)
    with a w show ?thesis by auto
  qed
qed

lemma update_write_toggle:
  assumes "up_Name p = None" "up_PublicKey p = None" "up_Address p = None" and "update_write p u s = (r, s')"
  shows "storeReady s' = storeReady s \<and>
    (world s' = world s \<or> (\<exists>cs x. applier_Apply (applier s) cs (world s) = (x, world s')))"
proof -
  obtain q s1 where d: "with_db ''clients: update write'' (UpdateClient u) s = (q, s1)" by fastforce
  note w = with_db_world [OF d]
  show ?thesis
  proof (cases q)
    case (Inl e)
    with assms d w show ?thesis by (auto simp: update_write_def svc_bind_def)
  next
    case (Inr x)
    obtain y s2 where a: "applyLocked s1 = (y, s2)" by fastforce
    with assms d Inr have "s' = s2"
      by (cases y) (auto simp: update_write_def svc_bind_def svc_return_def)
    with applyLocked_world [OF a] w show ?thesis by auto
  qed
qed

lemma Update_toggle:
  assumes "up_Name p = None" "up_PublicKey p = None" "up_Address p = None" and "Update now name p s = (r, s')"
  shows "storeReady s' = storeReady s \<and>
    (world s' = world s \<or> (\<exists>cs x. applier_Apply (applier s) cs (world s) = (x, world s')))"
proof -
  obtain q s1 where l: "with_db ''clients: update list'' ListClients s = (q, s1)" by fastforce
  note w = with_db_world [OF l]
  show ?thesis
  proof (cases q)
    case (Inl e)
    with assms l w show ?thesis by (auto simp: Update_def svc_bind_def)
  next
    case (Inr ex)
    show ?thesis
    proof (cases "find (\<lambda>c. Name c = name) ex")
      case None
      with assms l w Inr show ?thesis by (auto simp: Update_def svc_bind_def)
    next
      case (Some c)
      show ?thesis
      proof (cases "edit_client (serverNet s1) ex now p c")
        case (Inl e)
        with assms l w Inr Some show ?thesis by (auto simp: Update_def svc_bind_def)
      next
        case (Inr u)
        with assms l \<open>q = Inr ex\<close> Some have "update_write p u s1 = (r, s')" by (simp add: Update_def svc_bind_def)
        from update_write_toggle [OF assms(1-3) this] w show ?thesis by auto
      qed
    qed
  qed
qed

lemma insert_no_fault:
  assumes "faults (svc_db s) = []" and "sql_insert_client c (tabs (svc_db s)) = Inr ((), t)"
  shows "with_db what (InsertClient c) s = (Inr (), s\<lparr>svc_db := (svc_db s)\<lparr>tabs := t\<rparr>\<rparr>)"
  using assms by (simp add: with_db_def InsertClient_def db_call_no_fault)

lemma insert_free:
  assumes "\<forall>r \<in> set (clients t). r_name r \<noteq> Name c \<and> r_public_key r \<noteq> PublicKey c \<and> r_address r \<noteq> Address c"
  shows "sql_insert_client c t = Inr ((), t\<lparr>clients := clients t @ [row_of_client (client_seq t + 1) c],
    client_seq := client_seq t + 1\<rparr>)"
  using assms by (auto simp: sql_insert_client_def Let_def row_conflict_def row_of_client_def)

text \<open>A chosen address is held by no row of a valid table.\<close>

lemma chosen_free:
  assumes "usable_net sn" and "choose_address sn a (addressesOf (listed t)) = Inr x"
  shows "\<forall>r \<in> set (clients t). r_address r \<noteq> x"
proof
  fix r assume r: "r \<in> set (clients t)"
  from assms obtain h where h: "x = host_cidr h" "\<not> reserved_host sn (addressesOf (listed t)) h"
    unfolding usable_net_def using choose_address_valid by blast
  have "r_address r \<in> set (addressesOf (listed t))" using r by (simp add: addressesOf_listed)
  with h show "r_address r \<noteq> x" by (auto simp: reserved_host_def)
qed

subsection \<open>What the service promises\<close>

definition default_net_value :: server_net where
  "default_net_value = \<lparr>Subnet = Some (v4_net 0xAC100F01 24), ServerIP = u32_bytes 0xAC100F01\<rparr>"

lemma parse_default: "ParseServerNet [] = Inr default_net_value"
  unfolding default_net_value_def by (rule default_net)

lemma usable_default: "usable_net default_net_value"
  unfolding usable_net_def default_net_value_def by (intro exI [of _ "0xAC100F01"] exI [of _ 24]) simp

text \<open>
  C1. Whatever sequence of its methods runs, with driver errors, failing live applies and a
  changing store in between, every row of the table keeps a valid name, a valid key and an
  address inside the server network, and the schema holds, provided that what is seeded from the
  boot manifest is valid (the seed is not validated by the code).
\<close>

theorem service_invariant:
  assumes "ParseServerNet str = Inr sn" and "usable_net sn" and "\<forall>ev \<in> set evs. legal_op sn ev"
  shows "valid_tables sn (tabs (svc_db (fold svc_step evs (NewService (open_db fs) str w))))"
  using svc_ops.run_inv [of sn "NewService (open_db fs) str w" evs] NewService_inv [OF assms(1), of fs w] assms(2,3)
  by (simp add: svc_inv_def)

theorem service_invariant_witness:
  "valid_tables default_net_value
     (tabs (svc_db (fold svc_step [OpDelete ''x'', OpRecheckStore] (NewService (open_db [True]) [] ()))))"
  by (rule service_invariant) (simp_all add: parse_default usable_default)

lemma insert_Inr:
  "sql_insert_client c t = Inr (u, t') \<Longrightarrow>
    clients t' = clients t @ [row_of_client (client_seq t + 1) c] \<and>
    (\<forall>r \<in> set (clients t). \<not> row_conflict r (row_of_client i c))"
  by (auto simp: sql_insert_client_def Let_def row_conflict_def row_of_client_def split: if_splits)


definition key_of :: "char \<Rightarrow> string" where
  "key_of c = replicate 43 c @ ''=''"

definition laptop :: add_params where
  "laptop = \<lparr>ap_Name = ''laptop'', ap_PublicKey = key_of CHR ''A'', ap_Address = ''172.16.15.9/32'', ap_Note = []\<rparr>"

lemma laptop_chosen:
  "choose_address default_net_value (ap_Address laptop) [] = Inr ''172.16.15.9/32''"
proof -
  have "host_cidr 0xAC100F09 = ''172.16.15.9/32''" by code_simp
  moreover have "net_contains (v4_net 0xAC100F01 24) (u32_bytes 0xAC100F09)" by code_simp
  ultimately have "ValidateOverride default_net_value ''172.16.15.9/32'' [] = Inr ''172.16.15.9/32''"
    unfolding override_accepted
    by (auto simp: default_net_value_def reserved_host_def ipToUint32_def intro!: exI [of _ "0xAC100F09"])
  then show ?thesis by (simp add: choose_address_def laptop_def)
qed

lemma laptop_fields: "nameRe (ap_Name laptop)" "pubKeyRe (ap_PublicKey laptop)" by code_simp+

text \<open>An Add on a fresh service without driver errors comes down to the apply and the save.\<close>

lemma add_on_empty:
  assumes net: "serverNet s = default_net_value" and empty: "tabs (svc_db s) = empty_tables"
    and f: "faults (svc_db s) = []"
  shows "Add now laptop s =
    (let rec = add_record now laptop ''172.16.15.9/32'';
         s1 = s\<lparr>svc_db := (svc_db s)\<lparr>tabs := empty_tables\<lparr>clients := [row_of_client 1 rec], client_seq := 1\<rparr>\<rparr>\<rparr>
     in svc_bind applyLocked (\<lambda>_. svc_bind saveStoreLocked (\<lambda>_. svc_return rec)) s1)"
proof -
  let ?rec = "add_record now laptop ''172.16.15.9/32''"
  have l: "listed empty_tables = []" by (simp add: listed_def empty_tables_def)
  have i: "sql_insert_client ?rec empty_tables =
      Inr ((), empty_tables\<lparr>clients := [row_of_client 1 ?rec], client_seq := 1\<rparr>)"
    by (simp add: sql_insert_client_def empty_tables_def Let_def)
  have "Add now laptop s = add_insert ?rec s"
    using laptop_fields laptop_chosen net
    by (simp add: Add_def svc_bind_def list_no_fault [OF f] empty l addressesOf_def)
  then show ?thesis
    using insert_no_fault [OF f, of ?rec] i empty by (simp add: add_insert_def svc_bind_def Let_def)
qed

lemma fresh_service:
  "serverNet (NewService (open_db []) [] w) = default_net_value"
  "tabs (svc_db (NewService (open_db []) [] w)) = empty_tables"
  "faults (svc_db (NewService (open_db []) [] w)) = []"
  by (simp_all add: NewService_def parse_default open_db_def)

lemma apply_no_fault:
  assumes "faults (svc_db s) = []"
  shows "applyLocked s =
    (case applier_Apply (applier s) (listed (tabs (svc_db s))) (world s) of
       (Some e, w) \<Rightarrow> (Inl (SvcApply e), s\<lparr>world := w\<rparr>) | (None, w) \<Rightarrow> (Inr (), s\<lparr>world := w\<rparr>))"
  using list_no_fault [OF assms] by (simp add: applyLocked_def svc_bind_def)

lemma add_on_empty_noop:
  assumes "serverNet s = default_net_value" and "tabs (svc_db s) = empty_tables" and "faults (svc_db s) = []"
    and "applier s = NoopApplier" and "storeReady s" and "svc_store s = NoopStore"
  shows "Add now laptop s = (Inr (add_record now laptop ''172.16.15.9/32''),
    s\<lparr>svc_db := (svc_db s)\<lparr>tabs := empty_tables\<lparr>clients := [row_of_client 1 (add_record now laptop ''172.16.15.9/32'')],
      client_seq := 1\<rparr>\<rparr>\<rparr>)"
  using assms(4-6) unfolding add_on_empty [OF assms(1-3)] Let_def
  by (simp add: svc_bind_def apply_no_fault saveStoreLocked_def save_now_eq svc_return_def assms(3))


text \<open>
  When the live apply fails, Add reports the error but the row stays in the table: nothing
  rolls the insert back, and the same Add tried again is refused because the name is in use.
\<close>

theorem Add_apply_failure_keeps_row:
  assumes "usable_net (serverNet s)" and "faults (svc_db s) = []"
    and "applier s = Applier (\<lambda>cs w. (Some e, w))"
    and "nameRe (ap_Name p)" and "pubKeyRe (ap_PublicKey p)"
    and "add_conflict p (listed (tabs (svc_db s))) = None"
    and "choose_address (serverNet s) (ap_Address p) (addressesOf (listed (tabs (svc_db s)))) = Inr a"
  shows "\<exists>s'. Add now p s = (Inl (SvcApply e), s') \<and>
    clients (tabs (svc_db s')) =
      clients (tabs (svc_db s)) @ [row_of_client (client_seq (tabs (svc_db s)) + 1) (add_record now p a)] \<and>
    (\<exists>er. fst (Add later p s') = Inl er \<and> er \<in> {SvcNameInUse (ap_Name p), SvcKeyInUse})"
proof -
  let ?t = "tabs (svc_db s)" and ?rec = "add_record now p a"
  have free: "\<forall>r \<in> set (clients ?t). r_name r \<noteq> Name ?rec \<and> r_public_key r \<noteq> PublicKey ?rec \<and> r_address r \<noteq> Address ?rec"
    using assms(6) chosen_free [OF assms(1,7)]
    by (auto simp: add_conflict_None set_listed client_of_row_def add_record_def)
  let ?t' = "?t\<lparr>clients := clients ?t @ [row_of_client (client_seq ?t + 1) ?rec], client_seq := client_seq ?t + 1\<rparr>"
  let ?s' = "s\<lparr>svc_db := (svc_db s)\<lparr>tabs := ?t'\<rparr>\<rparr>"
  have run: "Add now p s = (Inl (SvcApply e), ?s')"
    using assms(4-7) insert_no_fault [OF assms(2) insert_free [OF free]] assms(2,3)
    by (simp add: Add_def svc_bind_def list_no_fault [OF assms(2)] add_insert_def apply_no_fault)
  have "client_of_row (row_of_client (client_seq ?t + 1) ?rec) \<in> set (listed ?t')"
    by (simp add: set_listed)
  moreover have "Name (client_of_row (row_of_client (client_seq ?t + 1) ?rec)) = ap_Name p"
    by (simp add: client_of_row_def row_of_client_def add_record_def)
  ultimately have "add_conflict p (listed ?t') \<noteq> None" using add_conflict_None by blast
  then obtain er where er: "add_conflict p (listed ?t') = Some er" by blast
  have "er \<in> {SvcNameInUse (ap_Name p), SvcKeyInUse}"
  proof -
    have "add_conflict p cs = Some er \<Longrightarrow> er \<in> {SvcNameInUse (ap_Name p), SvcKeyInUse}" for cs
      by (induction cs) (auto split: if_splits)
    with er show ?thesis by blast
  qed
  moreover have "fst (Add later p ?s') = Inl er"
    using assms(4,5) er list_no_fault [of ?s' "''clients: add list''"] assms(2)
    by (simp add: Add_def svc_bind_def)
  ultimately show ?thesis using run by auto
qed

theorem Add_apply_failure_keeps_row_witness:
  "\<exists>s'. Add 0 laptop (SetApplier (Some (Applier (\<lambda>cs w. (Some ''no sudo'', w)))) (NewService (open_db []) [] ())) =
      (Inl (SvcApply ''no sudo''), s') \<and> length (clients (tabs (svc_db s'))) = 1"
proof -
  let ?s = "SetApplier (Some (Applier (\<lambda>cs w. (Some ''no sudo'', w)))) (NewService (open_db []) [] ()) :: unit service"
  have c: "serverNet ?s = default_net_value" "tabs (svc_db ?s) = empty_tables" "faults (svc_db ?s) = []"
    "applier ?s = Applier (\<lambda>cs w. (Some ''no sudo'', w))"
    using fresh_service by (simp_all add: SetApplier_def)
  have l: "listed empty_tables = []" by (simp add: listed_def empty_tables_def)
  have "choose_address (serverNet ?s) (ap_Address laptop) (addressesOf (listed (tabs (svc_db ?s)))) = Inr ''172.16.15.9/32''"
    unfolding c l by (simp add: addressesOf_def laptop_chosen)
  moreover have "add_conflict laptop (listed (tabs (svc_db ?s))) = None" unfolding c l by simp
  moreover have "usable_net (serverNet ?s)" unfolding c by (rule usable_default)
  ultimately obtain s' where "Add 0 laptop ?s = (Inl (SvcApply ''no sudo''), s')"
    "clients (tabs (svc_db s')) = clients (tabs (svc_db ?s)) @
      [row_of_client (client_seq (tabs (svc_db ?s)) + 1) (add_record 0 laptop ''172.16.15.9/32'')]"
    using Add_apply_failure_keeps_row [OF _ c(3,4) laptop_fields, of _ 0 0] by blast
  then show ?thesis unfolding c by (simp add: empty_tables_def)
qed

text \<open>
  An edit that touches neither name nor key nor address (an enable, a disable, a note) never
  reads or writes the store, whatever its outcome: the world changes by at most one live apply.
\<close>

theorem Update_toggle_skips_store:
  assumes "up_Name p = None" and "up_PublicKey p = None" and "up_Address p = None" and "Update now name p s = (r, s')"
  shows "storeReady s' = storeReady s \<and>
    (world s' = world s \<or> (\<exists>cs x. applier_Apply (applier s) cs (world s) = (x, world s')))"
  using assms by (rule Update_toggle)

theorem Update_toggle_skips_store_witness:
  "\<exists>r s'. Update 0 ''x'' \<lparr>up_Name = None, up_PublicKey = None, up_Address = None, up_Note = None, up_Enabled = Some False\<rparr>
      (NewService (open_db []) [] (7 :: nat)) = (r, s') \<and> world s' = 7"
proof -
  let ?p = "\<lparr>up_Name = None, up_PublicKey = None, up_Address = None, up_Note = None, up_Enabled = Some False\<rparr>"
  let ?s = "NewService (open_db []) [] (7 :: nat)"
  obtain r s' where u: "Update 0 ''x'' ?p ?s = (r, s')" by fastforce
  have "applier ?s = NoopApplier" "world ?s = 7" by (simp_all add: NewService_def)
  with Update_toggle_skips_store [OF _ _ _ u] u show ?thesis by auto
qed


definition one_client :: db where
  "one_client = \<lparr>tabs = empty_tables\<lparr>clients := [row_of_client 1 (peer ''a'' ''K1'' ''172.16.15.2/32'')], client_seq := 1\<rparr>, faults = []\<rparr>"


lemma ReplaceAll_Inr:
  assumes "ReplaceAll now order es s = (Inr cs, s')"
  obtains d where "validateSet (serverNet s) es = None"
    "ReplaceClients order (map (replace_record now) es) (svc_db s) = (Inr (), d)" "tabs (svc_db s') = tabs d"
proof -
  have v: "validateSet (serverNet s) es = None"
    using assms by (auto simp: ReplaceAll_def split: option.splits)
  with assms obtain s1 s2 s3 where r: "with_db ''clients: replace all'' (ReplaceClients order (map (replace_record now) es)) s = (Inr (), s1)"
    "applyLocked s1 = (Inr (), s2)" "saveStoreLocked s2 = (Inr (), s3)" "svc_List s3 = (Inr cs, s')"
    by (auto simp: ReplaceAll_def svc_bind_Inr)
  from with_db_Inr [OF r(1)] have "ReplaceClients order (map (replace_record now) es) (svc_db s) = (Inr (), svc_db s1)" by blast
  moreover have "tabs (svc_db s') = tabs (svc_db s1)"
    using svc_readsD [OF svc_reads_apply r(2)] svc_readsD [OF svc_reads_save r(3)] svc_readsD [OF svc_reads_List r(4)] by simp
  ultimately show thesis using that v by blast
qed

text \<open>
  A boot that finds a non-empty stored list and succeeds leaves the table equal to that list,
  key by key, keeping ids and creation times of surviving peers, and trusts the store.
\<close>

theorem boot_restores_exactly:
  assumes "store_Load (svc_store s) (world s) = (Inr es, w)" and "es \<noteq> []"
    and "tables_ok (tabs (svc_db s))" and "any_order order"
    and "ReconcileFromStore now order cs s = (Inr (), s')"
  shows "storeReady s' \<and>
    (\<forall>k. replaced (row_at (tabs (svc_db s)) k)
      (index_by PublicKey (map (replace_record now \<circ> entry_to_replace) es) k) (row_at (tabs (svc_db s')) k))"
proof -
  from assms(1,2,5) obtain ds s1 where "ReplaceAll now order (map entry_to_replace es) (s\<lparr>world := w\<rparr>) = (Inr ds, s1)"
    "mark_ready s1 = (Inr (), s')"
    by (auto simp: ReconcileFromStore_def Let_def svc_bind_Inr fail_not_ready_Inr)
  then obtain d where d: "ReplaceClients order (map (replace_record now) (map entry_to_replace es)) (svc_db s) = (Inr (), d)"
    "tabs (svc_db s') = tabs d" "storeReady s'"
    by (elim ReplaceAll_Inr) (auto simp: mark_ready_def setStoreReady_def)
  from ReplaceClients_replaced [OF assms(3,4) d(1)] d(2,3) show ?thesis by simp
qed

text \<open>
  A boot whose store cannot be read neither writes the store nor touches a table that has
  rows: it reports the error and withholds write-through, and every later write-through is
  skipped as long as the store stays unreadable.
\<close>

theorem boot_unreadable_store_is_left_alone:
  assumes "store_Load (svc_store s) (world s) = (Inl e, w)" and "e \<noteq> ErrNotFound"
    and "clients (tabs (svc_db s)) \<noteq> []"
  shows "\<exists>er s'. ReconcileFromStore now order cs s = (Inl er, s') \<and> \<not> storeReady s' \<and>
    tabs (svc_db s') = tabs (svc_db s) \<and> world s' = w \<and>
    (store_Load (svc_store s) w = (Inl e, w2) \<longrightarrow> saveStoreLocked s' = (Inr (), s'\<lparr>world := w2\<rparr>))"
proof -
  let ?s = "setStoreReady False (s\<lparr>world := w\<rparr>)"
  obtain r s1 where c: "with_db ''clients: count clients after store load error'' CountClients ?s = (r, s1)" by fastforce
  note w1 = with_db_world [OF c]
  have t1: "tabs (svc_db s1) = tabs (svc_db s)"
    using svc_readsD [OF svc_reads_with_db [OF read_only_CountClients] c] by (simp add: setStoreReady_def)
  have "\<exists>er. ReconcileFromStore now order cs s = (Inl er, s1)"
  proof (cases r)
    case (Inl er)
    with c assms show ?thesis
      by (simp add: ReconcileFromStore_def Let_def reconcileFromHardStoreError_def svc_bind_def)
  next
    case (Inr n)
    with c have "n \<noteq> 0" using assms(3) by (auto simp: setStoreReady_def dest!: count_Inr)
    with Inr c assms show ?thesis
      by (simp add: ReconcileFromStore_def Let_def reconcileFromHardStoreError_def svc_bind_def svc_return_def svc_fail_def)
  qed
  moreover have "\<not> storeReady s1" "world s1 = w" "svc_store s1 = svc_store s" using w1 by (simp_all add: setStoreReady_def)
  ultimately show ?thesis using t1 save_gated [of s1 e w2] assms(2) by auto
qed

text \<open>A stored object that can be out of reach for a while, as a concrete world.\<close>

record cloud =
  cl_obj :: "entry list option"
  cl_down :: bool

definition cloud_store :: "cloud store" where
  "cloud_store = Store
     (\<lambda>w. (if cl_down w then Inl (StoreErr ''unreachable'')
           else (case cl_obj w of None \<Rightarrow> Inl ErrNotFound | Some es \<Rightarrow> Inr es), w))
     (\<lambda>es w. if cl_down w then (Some (StoreErr ''unreachable''), w) else (None, w\<lparr>cl_obj := Some es\<rparr>))"

definition phone :: entry where
  "phone = \<lparr>e_Name = ''phone'', e_Address = ''172.16.15.5/32'', e_PublicKey = replicate 43 CHR ''P'' @ ''=''\<rparr>"

definition cloud_service :: "db \<Rightarrow> cloud \<Rightarrow> cloud service" where
  "cloud_service d w = SetStore (Some cloud_store) (NewService d [] w)"

lemma cloud_service_simps:
  "svc_store (cloud_service d w) = cloud_store" "world (cloud_service d w) = w"
  "svc_db (cloud_service d w) = d" "applier (cloud_service d w) = NoopApplier"
  "serverNet (cloud_service d w) = default_net_value" "storeReady (cloud_service d w)"
  by (simp_all add: cloud_service_def SetStore_def NewService_def parse_default)

theorem boot_unreadable_store_is_left_alone_witness:
  "\<exists>er s'. ReconcileFromStore 0 (\<lambda>n ks. ks) [] (cloud_service one_client \<lparr>cl_obj = Some [phone], cl_down = True\<rparr>) = (Inl er, s') \<and>
    world s' = \<lparr>cl_obj = Some [phone], cl_down = True\<rparr>"
  using boot_unreadable_store_is_left_alone
    [of "cloud_service one_client \<lparr>cl_obj = Some [phone], cl_down = True\<rparr>" "StoreErr ''unreachable''"
        "\<lparr>cl_obj = Some [phone], cl_down = True\<rparr>" 0 "\<lambda>n ks. ks" "[]" "\<lparr>cl_obj = Some [phone], cl_down = True\<rparr>"]
  by (auto simp: cloud_service_simps cloud_store_def one_client_def)

lemma phone_valid: "validateSet default_net_value [entry_to_replace phone] = None"
proof -
  have "ValidateAddress default_net_value (e_Address phone) = None" unfolding default_net_value_def phone_def by code_simp
  moreover have "nameRe (e_Name phone)" "pubKeyRe (e_PublicKey phone)" unfolding phone_def by code_simp+
  moreover have "e_Address phone \<noteq> []" by (simp add: phone_def)
  ultimately show ?thesis by (simp add: validateSet_def validate_entries_None entry_ok_def entry_to_replace_def)
qed

text \<open>A bulk replace on an empty table with no appliers, stores or faults in the way.\<close>

lemma replace_all_runs:
  assumes v: "validateSet (serverNet s) es = None" and ok: "tables_ok (tabs (svc_db s))"
    and e: "clients (tabs (svc_db s)) = []" and f: "faults (svc_db s) = []"
    and ap: "applier s = NoopApplier" and rd: "storeReady s"
  shows "\<exists>cs s'. ReplaceAll now (\<lambda>n ks. ks) es s = (Inr cs, s')"
proof -
  have "no_clash (tabs (svc_db s)) (map (replace_record now) es)"
    using v e by (simp add: no_clash_def validateSet_def validate_entries_None replace_record_def comp_def)
  from replaceClientsTx_succeeds [OF ok any_order_id this f] obtain d where
    "replaceClientsTx (\<lambda>n ks. ks) (map (replace_record now) es) (svc_db s) = (Inr (), d)" "faults d = []" by blast
  then have r: "ReplaceClients (\<lambda>n ks. ks) (map (replace_record now) es) (svc_db s) = (Inr (), d)"
    unfolding ReplaceClients_def by (intro db_tx_no_fault [OF f])
  then have w: "with_db ''clients: replace all'' (ReplaceClients (\<lambda>n ks. ks) (map (replace_record now) es)) s = (Inr (), s\<lparr>svc_db := d\<rparr>)"
    by (simp add: with_db_def)
  show ?thesis using v \<open>faults d = []\<close> ap rd
    by (simp add: ReplaceAll_def svc_bind_def w apply_no_fault saveStoreLocked_def save_now_eq svc_List_def list_no_fault)
qed

theorem boot_restores_exactly_witness:
  "\<exists>s'. ReconcileFromStore 0 (\<lambda>n ks. ks) [] (cloud_service (open_db []) \<lparr>cl_obj = Some [phone], cl_down = False\<rparr>) = (Inr (), s') \<and>
    storeReady s' \<and> row_at (tabs (svc_db s')) ''K1'' = None"
proof -
  let ?w = "\<lparr>cl_obj = Some [phone], cl_down = False\<rparr>"
  let ?s = "cloud_service (open_db []) ?w"
  have l: "store_Load (svc_store ?s) (world ?s) = (Inr [phone], ?w)"
    by (simp add: cloud_service_simps cloud_store_def)
  have ok: "tables_ok (tabs (svc_db ?s))" by (simp add: cloud_service_simps open_db_def tables_ok_empty)
  have "\<exists>cs s1. ReplaceAll 0 (\<lambda>n ks. ks) (map entry_to_replace [phone]) (?s\<lparr>world := ?w\<rparr>) = (Inr cs, s1)"
    by (rule replace_all_runs)
      (simp_all add: cloud_service_simps phone_valid open_db_def tables_ok_empty, simp add: empty_tables_def)
  then obtain s' where s': "ReconcileFromStore 0 (\<lambda>n ks. ks) [] ?s = (Inr (), s')"
    using l by (auto simp: ReconcileFromStore_def Let_def svc_bind_def fail_not_ready_def mark_ready_def)
  have "length (e_PublicKey phone) = 44" by (simp add: phone_def)
  then have "e_PublicKey phone \<noteq> ''K1''" by auto
  then have i: "index_by PublicKey (map (replace_record 0 \<circ> entry_to_replace) [phone]) ''K1'' = None"
    by (simp add: index_by_None_iff replace_record_def entry_to_replace_def)
  from boot_restores_exactly [OF l _ ok any_order_id s'] have "storeReady s'"
    "replaced (row_at (tabs (svc_db ?s)) ''K1'')
      (index_by PublicKey (map (replace_record 0 \<circ> entry_to_replace) [phone]) ''K1'') (row_at (tabs (svc_db s')) ''K1'')"
    by blast+
  with s' show ?thesis unfolding i by (auto simp: replaced_def)
qed

text \<open>
  A write-through on a service whose store was unreadable at boot, once the store can be read
  again, overwrites whatever the store holds with the local list, without looking at it.
\<close>

theorem store_heal_overwrites:
  assumes "faults (svc_db s) = []" and "\<not> storeReady s" and "store_Load (svc_store s) (world s) = (Inr es, w)"
  shows "saveStoreLocked s = (Inr (), s\<lparr>storeReady := True, world := snd (store_Save (svc_store s)
    (map entry_of_client (listed (tabs (svc_db s)))) w)\<rparr>)"
  using assms by (rule save_heals)

theorem store_heal_overwrites_witness:
  "cl_obj (world (snd (saveStoreLocked (setStoreReady False
     (cloud_service one_client \<lparr>cl_obj = Some [phone], cl_down = False\<rparr>))))) =
   Some [\<lparr>e_Name = ''a'', e_Address = ''172.16.15.2/32'', e_PublicKey = ''K1''\<rparr>]"
proof -
  let ?w = "\<lparr>cl_obj = Some [phone], cl_down = False\<rparr>"
  let ?s = "setStoreReady False (cloud_service one_client ?w)"
  have c: "faults (svc_db ?s) = []" "\<not> storeReady ?s" "store_Load (svc_store ?s) (world ?s) = (Inr [phone], ?w)"
    by (simp_all add: setStoreReady_def cloud_service_simps one_client_def cloud_store_def)
  show ?thesis unfolding store_heal_overwrites [OF c]
    by (simp add: setStoreReady_def cloud_service_simps cloud_store_def one_client_def listed_def client_of_row_def
        row_of_client_def entry_of_client_def peer_def)
qed


end
