(* ===== verification/GoFmt.thy ===== *)
theory GoFmt
  imports GoStrings
begin

text \<open>
  The number and time formats of \<^verbatim>\<open>fmt\<close>, \<^verbatim>\<open>strconv\<close> and \<^verbatim>\<open>time\<close> the components print with. A
  finite float is its rational value; \<^verbatim>\<open>%.nf\<close> prints the exact decimal value rounded half to even.
\<close>

definition round_half_even :: "rat \<Rightarrow> int" where
  "round_half_even r =
     (let f = \<lfloor>r\<rfloor>; d = r - of_int f
      in if d < 1 / 2 then f else if d > 1 / 2 then f + 1 else if even f then f else f + 1)"

definition pad_left :: "nat \<Rightarrow> string \<Rightarrow> string" where
  "pad_left n s = replicate (n - length s) (CHR ''0'') @ s"

definition fmt_fixed :: "nat \<Rightarrow> rat \<Rightarrow> string" where
  "fmt_fixed p r =
     (let n = nat (round_half_even (\<bar>r\<bar> * 10 ^ p))
      in (if r < 0 then ''-'' else []) @ itoa_nat (n div 10 ^ p) @
         (if p = 0 then [] else CHR ''.'' # pad_left p (itoa_nat (n mod 10 ^ p))))"

text \<open>\<^verbatim>\<open>float64(n)\<close>: 53 bits of precision, ties to even.\<close>

fun bit_length :: "nat \<Rightarrow> nat" where
  "bit_length n = (if n = 0 then 0 else Suc (bit_length (n div 2)))"

declare bit_length.simps [simp del]

definition float64_int :: "int \<Rightarrow> rat" where
  "float64_int x =
     (let k = bit_length (nat \<bar>x\<bar>) - 53
      in of_int (round_half_even (of_int x / 2 ^ k) * 2 ^ k))"

lemma bit_length_le: "n < 2 ^ k \<Longrightarrow> bit_length n \<le> k"
proof (induction k arbitrary: n)
  case 0
  then show ?case by (simp add: bit_length.simps)
next
  case (Suc k)
  then have "n div 2 < 2 ^ k" by simp
  from Suc.IH [OF this] show ?case by (subst bit_length.simps) simp
qed

lemma round_half_even_int [simp]: "round_half_even (of_int x) = x"
  by (simp add: round_half_even_def Let_def)

lemma float64_int_exact: "\<bar>x\<bar> < 2 ^ 53 \<Longrightarrow> float64_int x = of_int x"
proof -
  assume "\<bar>x\<bar> < 2 ^ 53"
  then have "bit_length (nat \<bar>x\<bar>) \<le> 53" by (intro bit_length_le) simp
  then show ?thesis by (simp add: float64_int_def)
qed

subsection \<open>time.Duration\<close>

text \<open>The digits of a fraction of \<open>p\<close> places without its trailing zeros; empty for zero.\<close>

definition frac_digits :: "nat \<Rightarrow> nat \<Rightarrow> string" where
  "frac_digits p v =
     (let ds = rev (dropWhile (\<lambda>c. c = CHR ''0'') (rev (pad_left p (itoa_nat v))))
      in if v = 0 then [] else CHR ''.'' # ds)"

definition micro_sign :: string where
  "micro_sign = [char_of (0xC2 :: nat), char_of (0xB5 :: nat)]"

definition duration_string :: "duration \<Rightarrow> string" where
  "duration_string d =
     (let u = nat \<bar>d\<bar>; sign = (if d < 0 then ''-'' else [])
      in if u = 0 then ''0s''
         else if u < 10 ^ 9 then
           sign @ (if u < 10 ^ 3 then itoa_nat u @ ''ns''
                   else if u < 10 ^ 6 then itoa_nat (u div 10 ^ 3) @ frac_digits 3 (u mod 10 ^ 3) @ micro_sign @ ''s''
                   else itoa_nat (u div 10 ^ 6) @ frac_digits 6 (u mod 10 ^ 6) @ ''ms'')
         else
           (let s = u div 10 ^ 9; m = s div 60; h = m div 60;
                secs = itoa_nat (s mod 60) @ frac_digits 9 (u mod 10 ^ 9) @ ''s''
            in sign @ (if m = 0 then secs
                       else if h = 0 then itoa_nat (m mod 60) @ ''m'' @ secs
                       else itoa_nat h @ ''h'' @ itoa_nat (m mod 60) @ ''m'' @ secs)))"

subsection \<open>time.RFC3339, in UTC\<close>

text \<open>The civil date of a day number counted from 1970-01-01 (proleptic Gregorian).\<close>

definition civil_of_days :: "int \<Rightarrow> int \<times> int \<times> int" where
  "civil_of_days n =
     (let z = n + 719468; era = z div 146097; doe = z mod 146097;
          yoe = (doe - doe div 1460 + doe div 36524 - doe div 146096) div 365;
          doy = doe - (365 * yoe + yoe div 4 - yoe div 100);
          mp = (5 * doy + 2) div 153;
          d = doy - (153 * mp + 2) div 5 + 1;
          m = (if mp < 10 then mp + 3 else mp - 9);
          y = yoe + era * 400 + (if m \<le> 2 then 1 else 0)
      in (y, m, d))"

definition pad_int :: "nat \<Rightarrow> int \<Rightarrow> string" where
  "pad_int w n = (if n < 0 then ''-'' else []) @ pad_left w (itoa_nat (nat \<bar>n\<bar>))"

definition rfc3339 :: "time \<Rightarrow> string" where
  "rfc3339 t =
     (let s = unix_secs t; (y, m, d) = civil_of_days (s div 86400); r = s mod 86400
      in pad_int 4 y @ ''-'' @ pad_int 2 m @ ''-'' @ pad_int 2 d @ ''T'' @
         pad_int 2 (r div 3600) @ '':'' @ pad_int 2 (r div 60 mod 60) @ '':'' @ pad_int 2 (r mod 60) @ ''Z'')"

end
