(* ===== verification/Alerts.thy ===== *)
theory Alerts
  imports GoFmt "HOL-Library.AList"
begin

text \<open>
  \<^verbatim>\<open>dashboard/internal/alerts\<close>: the edge-triggered alert evaluator (\<^verbatim>\<open>alerts.go\<close>) and the holder
  through which the server reads it (\<^verbatim>\<open>status.go\<close>). The evaluator is driven by one goroutine, the
  holder guards every access with its mutex, so that both are state passing. The Go maps of the
  evaluator are association lists with distinct keys; their order never shows, because what is
  read from them is sorted by key.
\<close>

subsection \<open>Types and defaults\<close>

type_synonym condition = string

definition DefaultCooldown :: duration where "DefaultCooldown = 30 * minute"
definition DefaultDiskThresholdPct :: rat where "DefaultDiskThresholdPct = 90"
definition DefaultCPUThresholdPct :: rat where "DefaultCPUThresholdPct = 90"
definition DefaultCPUSustain :: duration where "DefaultCPUSustain = 5 * minute"
definition DefaultTransferCapBytes :: int where "DefaultTransferCapBytes = 50 * 2 ^ 30"

definition ConditionServiceDown :: condition where "ConditionServiceDown = ''service-down''"
definition ConditionHighDisk :: condition where "ConditionHighDisk = ''high-disk''"
definition ConditionHighCPU :: condition where "ConditionHighCPU = ''high-cpu''"
definition ConditionTransferCap :: condition where "ConditionTransferCap = ''transfer-cap''"

lemmas condition_defs = ConditionServiceDown_def ConditionHighDisk_def ConditionHighCPU_def
  ConditionTransferCap_def

datatype kind = Fire | Recovery

fun kind_String :: "kind \<Rightarrow> string" where
  "kind_String Fire = ''FIRING''"
| "kind_String Recovery = ''RECOVERED''"

text \<open>\<^verbatim>\<open>MarshalJSON\<close>: the label in quotes.\<close>

definition kind_MarshalJSON :: "kind \<Rightarrow> string" where
  "kind_MarshalJSON k = CHR 0x22 # kind_String k @ [CHR 0x22]"

record event =
  evt_Condition :: condition
  evt_Key :: string
  evt_Kind :: kind
  evt_Detail :: string
  evt_At :: time

record filesystem_usage =
  fu_Mount :: string
  fu_PctFull :: rat

record peer_sample =
  ps_Name :: string
  ps_LastHandshake :: time
  ps_RxBytes :: int
  ps_TxBytes :: int

record alert_input =
  in_ServiceActive :: bool
  in_CPUPercent :: rat
  in_DiskUsage :: "filesystem_usage list"
  in_Peers :: "peer_sample list"

record alert_config =
  cfg_Cooldown :: duration
  cfg_Host :: string
  cfg_DiskThresholdPct :: rat
  cfg_CPUThresholdPct :: rat
  cfg_CPUSustain :: duration
  cfg_TransferCapBytes :: int

record transfer_counters =
  tc_rx :: int
  tc_tx :: int

record state_machine =
  sm_firing :: bool
  sm_lastFire :: time
  sm_cond :: condition
  sm_lastDetail :: string
  sm_firingSince :: time

record evaluator =
  ev_cooldown :: duration
  ev_host :: string
  ev_diskThresholdPct :: rat
  ev_cpuThresholdPct :: rat
  ev_cpuSustain :: duration
  ev_transferCapBytes :: int
  ev_states :: "(string \<times> state_machine) list"
  ev_cpuHighSince :: time
  ev_transferBaseline :: "(string \<times> transfer_counters) list"

record active_alert =
  aa_Condition :: condition
  aa_Key :: string
  aa_Detail :: string
  aa_Since :: time

definition new_machine :: state_machine where
  "new_machine = \<lparr>sm_firing = False, sm_lastFire = zero_time, sm_cond = [], sm_lastDetail = [],
     sm_firingSince = zero_time\<rparr>"

definition New :: "alert_config \<Rightarrow> evaluator" where
  "New cfg = \<lparr>
     ev_cooldown = (if cfg_Cooldown cfg \<le> 0 then DefaultCooldown else cfg_Cooldown cfg),
     ev_host = cfg_Host cfg,
     ev_diskThresholdPct = (if cfg_DiskThresholdPct cfg \<le> 0 then DefaultDiskThresholdPct else cfg_DiskThresholdPct cfg),
     ev_cpuThresholdPct = (if cfg_CPUThresholdPct cfg \<le> 0 then DefaultCPUThresholdPct else cfg_CPUThresholdPct cfg),
     ev_cpuSustain = (if cfg_CPUSustain cfg \<le> 0 then DefaultCPUSustain else cfg_CPUSustain cfg),
     ev_transferCapBytes = (if cfg_TransferCapBytes cfg \<le> 0 then DefaultTransferCapBytes else cfg_TransferCapBytes cfg),
     ev_states = [], ev_cpuHighSince = zero_time, ev_transferBaseline = []\<rparr>"

definition evaluator_Host :: "evaluator \<Rightarrow> string" where
  "evaluator_Host e = ev_host e"

subsection \<open>The state machine of one key\<close>

text \<open>The new state, the kind and whether to emit it.\<close>

definition sm_observe :: "bool \<Rightarrow> time \<Rightarrow> duration \<Rightarrow> state_machine \<Rightarrow> state_machine \<times> kind \<times> bool" where
  "sm_observe firingNow now cooldown s =
     (if firingNow then
        (if \<not> sm_firing s then (s\<lparr>sm_firing := True, sm_lastFire := now\<rparr>, Fire, True)
         else if time_sub now (sm_lastFire s) \<ge> cooldown then (s\<lparr>sm_lastFire := now\<rparr>, Fire, True)
         else (s, Fire, False))
      else if sm_firing s then (s\<lparr>sm_firing := False, sm_lastFire := zero_time\<rparr>, Recovery, True)
      else (s, Recovery, False))"

text \<open>What \<^verbatim>\<open>Evaluator.observe\<close> does to the machine of the key, and the event it appends.\<close>

definition machine_step :: "string \<Rightarrow> condition \<Rightarrow> bool \<Rightarrow> string \<Rightarrow> time \<Rightarrow> duration \<Rightarrow>
    state_machine \<Rightarrow> state_machine \<times> event list" where
  "machine_step key cond firingNow detail now cooldown sm0 =
     (let sm = sm0\<lparr>sm_cond := cond, sm_lastDetail := detail\<rparr>;
          wasFiring = sm_firing sm;
          (sm1, kind, emit) = sm_observe firingNow now cooldown sm;
          sm2 = (if \<not> wasFiring \<and> sm_firing sm1 then sm1\<lparr>sm_firingSince := now\<rparr>
                 else if wasFiring \<and> \<not> sm_firing sm1 then sm1\<lparr>sm_firingSince := zero_time\<rparr>
                 else sm1)
      in (sm2, if emit then [\<lparr>evt_Condition = cond, evt_Key = key, evt_Kind = kind, evt_Detail = detail,
                              evt_At = now\<rparr>] else []))"

definition machine_of :: "evaluator \<Rightarrow> string \<Rightarrow> state_machine" where
  "machine_of e key = (case map_of (ev_states e) key of None \<Rightarrow> new_machine | Some sm \<Rightarrow> sm)"

definition observe :: "event list \<Rightarrow> string \<Rightarrow> condition \<Rightarrow> bool \<Rightarrow> string \<Rightarrow> time \<Rightarrow> evaluator \<Rightarrow>
    event list \<times> evaluator" where
  "observe dst key cond firingNow detail now e =
     (case machine_step key cond firingNow detail now (ev_cooldown e) (machine_of e key) of
        (sm, evs) \<Rightarrow> (dst @ evs, e\<lparr>ev_states := AList.update key sm (ev_states e)\<rparr>))"

subsection \<open>The conditions\<close>

definition serviceDownDetail :: "alert_input \<Rightarrow> string" where
  "serviceDownDetail inp = (if in_ServiceActive inp then ''wg-quick@wg0 active'' else ''wg-quick@wg0 not active'')"

text \<open>The fullest of the filesystems over the threshold; the first one of them on a tie.\<close>

definition worst_disk :: "rat \<Rightarrow> filesystem_usage list \<Rightarrow> filesystem_usage option" where
  "worst_disk thr fss =
     fold (\<lambda>fs worst. if fu_PctFull fs \<ge> thr \<and> (case worst of None \<Rightarrow> True | Some w \<Rightarrow> fu_PctFull fs > fu_PctFull w)
                      then Some fs else worst) fss None"

definition diskObservation :: "alert_input \<Rightarrow> evaluator \<Rightarrow> bool \<times> string" where
  "diskObservation inp e =
     (case worst_disk (ev_diskThresholdPct e) (in_DiskUsage inp) of
        None \<Rightarrow> (False, ''all filesystems below threshold'')
      | Some w \<Rightarrow> (True, fu_Mount w @ '' at '' @ fmt_fixed 1 (fu_PctFull w) @ ''%''))"

definition cpuObservation :: "alert_input \<Rightarrow> time \<Rightarrow> evaluator \<Rightarrow> (bool \<times> string) \<times> evaluator" where
  "cpuObservation inp now e =
     (let pct = fmt_fixed 0 (in_CPUPercent inp)
      in if in_CPUPercent inp < ev_cpuThresholdPct e then
           ((False, ''CPU '' @ pct @ ''% below threshold''), e\<lparr>ev_cpuHighSince := zero_time\<rparr>)
         else
           (let e1 = (if is_zero (ev_cpuHighSince e) then e\<lparr>ev_cpuHighSince := now\<rparr> else e)
            in if time_sub now (ev_cpuHighSince e1) \<ge> ev_cpuSustain e
               then ((True, ''CPU '' @ pct @ ''% for >'' @ duration_string (ev_cpuSustain e)), e1)
               else ((False, ''CPU '' @ pct @ ''% high but not yet sustained''), e1)))"

text \<open>\<^verbatim>\<open>formatBytes\<close>: the loop divides until the value is below the unit.\<close>

fun unit_exp :: "nat \<Rightarrow> nat" where
  "unit_exp n = (if n \<ge> 1024 then Suc (unit_exp (n div 1024)) else 0)"

declare unit_exp.simps [simp del]

definition formatBytes :: "int \<Rightarrow> string" where
  "formatBytes b =
     (if b < 1024 then itoa b @ '' B''
      else (let k = unit_exp (nat (b div 1024))
            in fmt_fixed 1 (float64_int b / 1024 ^ (k + 1)) @ '' '' @ [''KMGTPE'' ! k] @ ''iB''))"

definition transferCapObservation :: "peer_sample \<Rightarrow> evaluator \<Rightarrow> (bool \<times> string) \<times> evaluator" where
  "transferCapObservation p e0 =
     (let cur = \<lparr>tc_rx = ps_RxBytes p, tc_tx = ps_TxBytes p\<rparr>;
          (base1, e1) = (case map_of (ev_transferBaseline e0) (ps_Name p) of
             Some b \<Rightarrow> (b, e0)
           | None \<Rightarrow> (cur, e0\<lparr>ev_transferBaseline := AList.update (ps_Name p) cur (ev_transferBaseline e0)\<rparr>));
          (base, e) = (if ps_RxBytes p < tc_rx base1 \<or> ps_TxBytes p < tc_tx base1
             then (cur, e1\<lparr>ev_transferBaseline := AList.update (ps_Name p) cur (ev_transferBaseline e1)\<rparr>)
             else (base1, e1));
          rxDelta = i64 (ps_RxBytes p - tc_rx base);
          txDelta = i64 (ps_TxBytes p - tc_tx base)
      in if rxDelta \<ge> ev_transferCapBytes e then ((True, ps_Name p @ '' downloaded '' @ formatBytes rxDelta), e)
         else if txDelta \<ge> ev_transferCapBytes e then ((True, ps_Name p @ '' uploaded '' @ formatBytes txDelta), e)
         else ((False, ps_Name p @ '' within transfer cap''), e))"

definition transfer_key :: "string \<Rightarrow> string" where
  "transfer_key name = ConditionTransferCap @ '':'' @ name"

definition peer_step :: "time \<Rightarrow> peer_sample \<Rightarrow> event list \<times> evaluator \<Rightarrow> event list \<times> evaluator" where
  "peer_step now p st =
     (case transferCapObservation p (snd st) of
        ((f, detail), e) \<Rightarrow> observe (fst st) (transfer_key (ps_Name p)) ConditionTransferCap f detail now e)"

definition Evaluate :: "time \<Rightarrow> alert_input \<Rightarrow> evaluator \<Rightarrow> event list \<times> evaluator" where
  "Evaluate now inp e0 =
     (case observe [] ConditionServiceDown ConditionServiceDown (\<not> in_ServiceActive inp) (serviceDownDetail inp) now e0 of
        (ev1, e1) \<Rightarrow>
          (case diskObservation inp e1 of (df, dd) \<Rightarrow>
          (case observe ev1 ConditionHighDisk ConditionHighDisk df dd now e1 of
             (ev2, e2) \<Rightarrow>
               (case cpuObservation inp now e2 of ((cf, cd), e3) \<Rightarrow>
               (case observe ev2 ConditionHighCPU ConditionHighCPU cf cd now e3 of
                  (ev3, e4) \<Rightarrow>
                    (case fold (peer_step now) (in_Peers inp) (ev3, e4) of
                       (evs, e) \<Rightarrow> (sort_key evt_Key evs, e)))))))"

definition Active :: "evaluator \<Rightarrow> active_alert list" where
  "Active e = sort_key aa_Key
     (map (\<lambda>(key, sm). \<lparr>aa_Condition = sm_cond sm, aa_Key = key, aa_Detail = sm_lastDetail sm,
                        aa_Since = sm_firingSince sm\<rparr>)
       (filter (\<lambda>(key, sm). sm_firing sm) (ev_states e)))"

definition FormatMessage :: "event \<Rightarrow> string \<Rightarrow> string" where
  "FormatMessage ev host0 =
     (let host = (if host0 = [] then ''unknown-host'' else host0); ts = rfc3339 (evt_At ev)
      in if evt_Detail ev = []
         then ''['' @ kind_String (evt_Kind ev) @ ''] '' @ evt_Condition ev @ '' on '' @ host @ '' ('' @ ts @ '')''
         else ''['' @ kind_String (evt_Kind ev) @ ''] '' @ evt_Condition ev @ '' on '' @ host @ '': '' @
           evt_Detail ev @ '' ('' @ ts @ '')'')"

subsection \<open>The status holder\<close>

record log_entry =
  le_Condition :: condition
  le_Key :: string
  le_Kind :: kind
  le_Detail :: string
  le_At :: time

record status_holder =
  sh_enabled :: bool
  sh_active :: "active_alert list"
  sh_recent :: "log_entry list"

record alert_status =
  st_Enabled :: bool
  st_Active :: "active_alert list"
  st_Recent :: "log_entry list"

definition recentCap :: nat where "recentCap = 50"

definition NewStatusHolder :: status_holder where
  "NewStatusHolder = \<lparr>sh_enabled = False, sh_active = [], sh_recent = []\<rparr>"

definition SetEnabled :: "bool \<Rightarrow> status_holder \<Rightarrow> status_holder" where
  "SetEnabled b h = h\<lparr>sh_enabled := b\<rparr>"

definition log_entry_of :: "event \<Rightarrow> log_entry" where
  "log_entry_of ev = \<lparr>le_Condition = evt_Condition ev, le_Key = evt_Key ev, le_Kind = evt_Kind ev,
     le_Detail = evt_Detail ev, le_At = evt_At ev\<rparr>"

definition holder_Update :: "active_alert list \<Rightarrow> event list \<Rightarrow> status_holder \<Rightarrow> status_holder" where
  "holder_Update active events h =
     (let recent = sh_recent h @ map log_entry_of events;
          recent' = (if length recent > recentCap then drop (length recent - recentCap) recent else recent)
      in h\<lparr>sh_active := active, sh_recent := recent'\<rparr>)"

definition Snapshot :: "status_holder \<Rightarrow> alert_status" where
  "Snapshot h = \<lparr>st_Enabled = sh_enabled h, st_Active = sh_active h, st_Recent = rev (sh_recent h)\<rparr>"

subsection \<open>What the events of one key look like\<close>

text \<open>
  A legal sequence of events of one key, given the time of the last Fire when it is firing:
  Fire first, a Recovery only while firing, and a repeated Fire only a cooldown after the last.
\<close>

fun well_edged :: "duration \<Rightarrow> time option \<Rightarrow> event list \<Rightarrow> bool" where
  "well_edged c st [] = True"
| "well_edged c None (e # es) = (evt_Kind e = Fire \<and> well_edged c (Some (evt_At e)) es)"
| "well_edged c (Some t) (e # es) =
     (if evt_Kind e = Fire then time_sub (evt_At e) t \<ge> c \<and> well_edged c (Some (evt_At e)) es
      else well_edged c None es)"

text \<open>Whether a key is firing, and since when, after its events.\<close>

fun replay :: "bool \<times> time \<Rightarrow> event list \<Rightarrow> bool \<times> time" where
  "replay st [] = st"
| "replay st (e # es) =
     replay (if evt_Kind e = Fire then (True, if fst st then snd st else evt_At e) else (False, zero_time)) es"

definition firing_time :: "state_machine \<Rightarrow> time option" where
  "firing_time sm = (if sm_firing sm then Some (sm_lastFire sm) else None)"

definition firing_since :: "state_machine \<Rightarrow> bool \<times> time" where
  "firing_since sm = (sm_firing sm, sm_firingSince sm)"

lemma replay_append: "replay st (xs @ ys) = replay (replay st xs) ys"
  by (induction xs arbitrary: st) auto

text \<open>One machine step, as seen by the two readings of its events.\<close>

lemma machine_step_edges:
  assumes "machine_step key cond f detail now c sm = (sm', evs)"
  shows "well_edged c (firing_time sm) (evs @ rest) \<longleftrightarrow> well_edged c (firing_time sm') rest"
    and "firing_since sm' = replay (firing_since sm) evs"
    and "\<forall>e \<in> set evs. evt_Key e = key \<and> evt_At e = now"
    and "(\<not> sm_firing sm \<longrightarrow> sm_firingSince sm = zero_time) \<Longrightarrow> (\<not> sm_firing sm' \<longrightarrow> sm_firingSince sm' = zero_time)"
  using assms
  by (auto simp: machine_step_def sm_observe_def Let_def firing_time_def firing_since_def split: if_splits)

definition events_of :: "string \<Rightarrow> event list \<Rightarrow> event list" where
  "events_of k evs = filter (\<lambda>e. evt_Key e = k) evs"

lemma events_of_append [simp]: "events_of k (a @ b) = events_of k a @ events_of k b"
  by (simp add: events_of_def)

lemma events_of_sort [simp]: "events_of k (sort_key evt_Key evs) = events_of k evs"
  by (simp add: events_of_def sort_key_stable)

text \<open>
  What a step of the evaluator that emits \<open>evs\<close> does to one key: the events continue a legal
  sequence, and they account for the key's state.
\<close>

definition accounts :: "string \<Rightarrow> evaluator \<Rightarrow> event list \<Rightarrow> evaluator \<Rightarrow> bool" where
  "accounts k e evs e' \<longleftrightarrow>
     (\<forall>rest. well_edged (ev_cooldown e) (firing_time (machine_of e k)) (events_of k evs @ rest) \<longleftrightarrow>
             well_edged (ev_cooldown e) (firing_time (machine_of e' k)) rest) \<and>
     firing_since (machine_of e' k) = replay (firing_since (machine_of e k)) (events_of k evs) \<and>
     ev_cooldown e' = ev_cooldown e"

lemma accounts_refl [simp]: "accounts k e [] e"
  by (simp add: accounts_def events_of_def)

lemma accounts_trans: "accounts k e a e1 \<Longrightarrow> accounts k e1 b e2 \<Longrightarrow> accounts k e (a @ b) e2"
  by (simp add: accounts_def replay_append)

lemma accounts_other:
  "ev_states e' = ev_states e \<Longrightarrow> ev_cooldown e' = ev_cooldown e \<Longrightarrow> accounts k e [] e'"
  by (simp add: accounts_def machine_of_def events_of_def)

lemma machine_of_update: "machine_of (e\<lparr>ev_states := AList.update key sm (ev_states e)\<rparr>) k =
    (if k = key then sm else machine_of e k)"
  by (simp add: machine_of_def update_conv')

lemma observe_accounts:
  assumes "observe dst key cond f detail now e = (evs, e')"
  shows "\<exists>new. evs = dst @ new \<and> accounts k e new e'"
proof -
  obtain sm new where m: "machine_step key cond f detail now (ev_cooldown e) (machine_of e key) = (sm, new)"
    by fastforce
  with assms have e': "evs = dst @ new" "e' = e\<lparr>ev_states := AList.update key sm (ev_states e)\<rparr>"
    by (auto simp: observe_def)
  note s = machine_step_edges [OF m]
  have "accounts k e new e'"
  proof (cases "k = key")
    case True
    then have "events_of k new = new" using s(3) by (simp add: events_of_def filter_id_conv)
    with True s(1,2) show ?thesis by (simp add: accounts_def e'(2) machine_of_update)
  next
    case False
    then have "events_of k new = []" using s(3) by (auto simp: events_of_def filter_empty_conv)
    with False show ?thesis by (simp add: accounts_def e'(2) machine_of_update)
  qed
  with e'(1) show ?thesis by blast
qed

lemma transferCapObservation_frame:
  "transferCapObservation p e = (r, e') \<Longrightarrow> ev_states e' = ev_states e \<and> ev_cooldown e' = ev_cooldown e"
  by (auto simp: transferCapObservation_def Let_def split: if_splits option.splits prod.splits)

lemma cpuObservation_frame:
  "cpuObservation inp now e = (r, e') \<Longrightarrow> ev_states e' = ev_states e \<and> ev_cooldown e' = ev_cooldown e"
  by (auto simp: cpuObservation_def Let_def split: if_splits)

lemma peer_step_accounts:
  assumes "peer_step now p (dst, e) = (evs, e')"
  shows "\<exists>new. evs = dst @ new \<and> accounts k e new e'"
proof -
  obtain f d e1 where t: "transferCapObservation p e = ((f, d), e1)" by (metis surj_pair)
  with assms have "observe dst (transfer_key (ps_Name p)) ConditionTransferCap f d now e1 = (evs, e')"
    by (simp add: peer_step_def)
  from observe_accounts [OF this] obtain new where "evs = dst @ new" "accounts k e1 new e'" by blast
  moreover have "accounts k e [] e1" using transferCapObservation_frame [OF t] by (simp add: accounts_other)
  ultimately show ?thesis using accounts_trans [of k e "[]" e1 new e'] by auto
qed

lemma peer_steps_accounts:
  "fold (peer_step now) ps (dst, e) = (evs, e') \<Longrightarrow> \<exists>new. evs = dst @ new \<and> accounts k e new e'"
proof (induction ps arbitrary: dst e)
  case (Cons p ps)
  obtain d1 e1 where 1: "peer_step now p (dst, e) = (d1, e1)" by fastforce
  with Cons.prems have "fold (peer_step now) ps (d1, e1) = (evs, e')" by simp
  from Cons.IH [OF this] obtain b where "evs = d1 @ b" "accounts k e1 b e'" by blast
  moreover from peer_step_accounts [OF 1] obtain a where "d1 = dst @ a" "accounts k e a e1" by blast
  ultimately show ?case using accounts_trans by fastforce
qed simp

lemma Evaluate_accounts:
  assumes "Evaluate now inp e0 = (evs, e)"
  shows "accounts k e0 evs e"
proof -
  obtain ev1 e1 where 1: "observe [] ConditionServiceDown ConditionServiceDown (\<not> in_ServiceActive inp)
      (serviceDownDetail inp) now e0 = (ev1, e1)" by fastforce
  obtain df dd where d: "diskObservation inp e1 = (df, dd)" by fastforce
  obtain ev2 e2 where 2: "observe ev1 ConditionHighDisk ConditionHighDisk df dd now e1 = (ev2, e2)" by fastforce
  obtain cf cd e3 where c: "cpuObservation inp now e2 = ((cf, cd), e3)" by (metis surj_pair)
  obtain ev3 e4 where 3: "observe ev2 ConditionHighCPU ConditionHighCPU cf cd now e3 = (ev3, e4)" by fastforce
  obtain ev4 e5 where 4: "fold (peer_step now) (in_Peers inp) (ev3, e4) = (ev4, e5)" by fastforce
  from assms have res: "evs = sort_key evt_Key ev4" "e = e5"
    by (simp_all add: Evaluate_def 1 d 2 c 3 4)
  from observe_accounts [OF 1] obtain n1 where a1: "ev1 = n1" "accounts k e0 n1 e1" by auto
  from observe_accounts [OF 2] obtain n2 where a2: "ev2 = ev1 @ n2" "accounts k e1 n2 e2" by blast
  have a3: "accounts k e2 [] e3" using cpuObservation_frame [OF c] by (simp add: accounts_other)
  from observe_accounts [OF 3] obtain n3 where a4: "ev3 = ev2 @ n3" "accounts k e3 n3 e4" by blast
  from peer_steps_accounts [OF 4] obtain n4 where a5: "ev4 = ev3 @ n4" "accounts k e4 n4 e5" by blast
  have "accounts k e0 (((n1 @ n2) @ [] @ n3) @ n4) e5"
    by (rule accounts_trans [OF accounts_trans [OF accounts_trans [OF a1(2) a2(2)] accounts_trans [OF a3 a4(2)]] a5(2)])
  then have "accounts k e0 ev4 e5" using a1 a2 a4 a5 by simp
  then show ?thesis by (simp add: res accounts_def)
qed

text \<open>A run of ticks: the events of all of them, in order.\<close>

fun run_ticks :: "(time \<times> alert_input) list \<Rightarrow> evaluator \<Rightarrow> event list \<times> evaluator" where
  "run_ticks [] e = ([], e)"
| "run_ticks ((now, inp) # ts) e =
     (case Evaluate now inp e of (evs, e1) \<Rightarrow> (case run_ticks ts e1 of (evs', e2) \<Rightarrow> (evs @ evs', e2)))"

lemma run_accounts: "run_ticks ts e = (evs, e') \<Longrightarrow> accounts k e evs e'"
proof (induction ts arbitrary: e evs)
  case (Cons t ts)
  obtain now inp where t: "t = (now, inp)" by fastforce
  obtain a e1 where 1: "Evaluate now inp e = (a, e1)" by fastforce
  obtain b e2 where 2: "run_ticks ts e1 = (b, e2)" by fastforce
  from Cons.prems t 1 2 have "evs = a @ b" "e' = e2" by auto
  with accounts_trans [OF Evaluate_accounts [OF 1] Cons.IH [OF 2 [folded \<open>e' = e2\<close>]]] show ?case by simp
qed simp

lemma New_machine [simp]: "machine_of (New cfg) k = new_machine"
  by (simp add: machine_of_def New_def)

subsection \<open>Which conditions are firing\<close>

lemma machine_step_firing: "machine_step key cond f detail now c sm = (sm', evs) \<Longrightarrow> sm_firing sm' = f"
  by (auto simp: machine_step_def sm_observe_def Let_def split: if_splits)

text \<open>The fields of the evaluator the state machines do not touch.\<close>

definition cpu_view :: "evaluator \<Rightarrow> rat \<times> rat \<times> duration \<times> time" where
  "cpu_view e = (ev_diskThresholdPct e, ev_cpuThresholdPct e, ev_cpuSustain e, ev_cpuHighSince e)"

lemma observe_view:
  "observe dst key cond f detail now e = (evs, e') \<Longrightarrow> cpu_view e' = cpu_view e \<and>
    sm_firing (machine_of e' k) = (if k = key then f else sm_firing (machine_of e k))"
  by (auto simp: observe_def cpu_view_def machine_of_update split: prod.splits dest: machine_step_firing)

lemma peer_steps_view:
  assumes "\<forall>name. k \<noteq> transfer_key name" and "fold (peer_step now) ps (dst, e) = (evs, e')"
  shows "cpu_view e' = cpu_view e \<and> sm_firing (machine_of e' k) = sm_firing (machine_of e k)"
  using assms(2)
proof (induction ps arbitrary: dst e)
  case (Cons p ps)
  obtain f d e1 where t: "transferCapObservation p e = ((f, d), e1)" by (metis surj_pair)
  obtain d2 e2 where o: "observe dst (transfer_key (ps_Name p)) ConditionTransferCap f d now e1 = (d2, e2)"
    by fastforce
  have "cpu_view e1 = cpu_view e" "ev_states e1 = ev_states e"
    using t by (auto simp: transferCapObservation_def cpu_view_def Let_def split: if_splits option.splits prod.splits)
  then have "cpu_view e2 = cpu_view e \<and> sm_firing (machine_of e2 k) = sm_firing (machine_of e k)"
    using observe_view [OF o, of k] assms(1) by (auto simp: machine_of_def)
  with Cons t o show ?case by (simp add: peer_step_def)
qed simp

lemma global_not_transfer:
  "ConditionServiceDown \<noteq> transfer_key name" "ConditionHighDisk \<noteq> transfer_key name"
  "ConditionHighCPU \<noteq> transfer_key name"
  by (simp_all add: condition_defs transfer_key_def)

lemma global_distinct [simp]: "ConditionServiceDown \<noteq> ConditionHighDisk" "ConditionServiceDown \<noteq> ConditionHighCPU"
  "ConditionHighDisk \<noteq> ConditionHighCPU" "ConditionHighDisk \<noteq> ConditionServiceDown"
  "ConditionHighCPU \<noteq> ConditionServiceDown" "ConditionHighCPU \<noteq> ConditionHighDisk"
  by (simp_all add: condition_defs)

text \<open>The start of the high run after a tick.\<close>

definition next_since :: "rat \<Rightarrow> time \<Rightarrow> alert_input \<Rightarrow> time \<Rightarrow> time" where
  "next_since thr now inp since =
     (if in_CPUPercent inp < thr then zero_time else if is_zero since then now else since)"

lemma worst_disk_Some: "fst (diskObservation inp e) \<longleftrightarrow> (\<exists>fs \<in> set (in_DiskUsage inp). fu_PctFull fs \<ge> ev_diskThresholdPct e)"
proof -
  let ?step = "\<lambda>fs worst. if fu_PctFull fs \<ge> ev_diskThresholdPct e \<and>
    (case worst of None \<Rightarrow> True | Some w \<Rightarrow> fu_PctFull fs > fu_PctFull w) then Some fs else worst"
  have "fold ?step fss w \<noteq> None \<longleftrightarrow> w \<noteq> None \<or> (\<exists>fs \<in> set fss. fu_PctFull fs \<ge> ev_diskThresholdPct e)" for fss w
    by (induction fss arbitrary: w) (auto split: option.splits)
  from this [of "in_DiskUsage inp" None] show ?thesis
    by (auto simp: diskObservation_def worst_disk_def split: option.splits)
qed

lemma cpuObservation_eq:
  assumes "cpuObservation inp now e = ((f, d), e')"
  shows "ev_cpuHighSince e' = next_since (ev_cpuThresholdPct e) now inp (ev_cpuHighSince e) \<and>
    ev_states e' = ev_states e \<and> ev_diskThresholdPct e' = ev_diskThresholdPct e \<and>
    ev_cpuThresholdPct e' = ev_cpuThresholdPct e \<and> ev_cpuSustain e' = ev_cpuSustain e \<and>
    (f \<longleftrightarrow> \<not> in_CPUPercent inp < ev_cpuThresholdPct e \<and> time_sub now (ev_cpuHighSince e') \<ge> ev_cpuSustain e)"
  using assms by (auto simp: cpuObservation_def next_since_def Let_def split: if_splits)

lemma Evaluate_view:
  assumes "Evaluate now inp e0 = (evs, e)"
  shows "ev_cpuHighSince e = next_since (ev_cpuThresholdPct e0) now inp (ev_cpuHighSince e0) \<and>
    ev_diskThresholdPct e = ev_diskThresholdPct e0 \<and>
    ev_cpuThresholdPct e = ev_cpuThresholdPct e0 \<and> ev_cpuSustain e = ev_cpuSustain e0 \<and>
    sm_firing (machine_of e ConditionServiceDown) = (\<not> in_ServiceActive inp) \<and>
    sm_firing (machine_of e ConditionHighDisk) =
      (\<exists>fs \<in> set (in_DiskUsage inp). fu_PctFull fs \<ge> ev_diskThresholdPct e0) \<and>
    sm_firing (machine_of e ConditionHighCPU) =
      (\<not> in_CPUPercent inp < ev_cpuThresholdPct e0 \<and> time_sub now (ev_cpuHighSince e) \<ge> ev_cpuSustain e0)"
proof -
  obtain ev1 e1 where 1: "observe [] ConditionServiceDown ConditionServiceDown (\<not> in_ServiceActive inp)
      (serviceDownDetail inp) now e0 = (ev1, e1)" by fastforce
  obtain df dd where d: "diskObservation inp e1 = (df, dd)" by fastforce
  obtain ev2 e2 where 2: "observe ev1 ConditionHighDisk ConditionHighDisk df dd now e1 = (ev2, e2)" by fastforce
  obtain cf cd e3 where c: "cpuObservation inp now e2 = ((cf, cd), e3)" by (metis surj_pair)
  obtain ev3 e4 where 3: "observe ev2 ConditionHighCPU ConditionHighCPU cf cd now e3 = (ev3, e4)" by fastforce
  obtain ev4 e5 where 4: "fold (peer_step now) (in_Peers inp) (ev3, e4) = (ev4, e5)" by fastforce
  from assms have e: "e = e5" by (simp add: Evaluate_def 1 d 2 c 3 4)
  have df: "df = (\<exists>fs \<in> set (in_DiskUsage inp). fu_PctFull fs \<ge> ev_diskThresholdPct e1)"
    using worst_disk_Some [of inp e1] d by simp
  note v1 = observe_view [OF 1] and v2 = observe_view [OF 2] and v3 = observe_view [OF 3]
  note v4 = peer_steps_view [OF _ 4]
  note vc = cpuObservation_eq [OF c]
  have m3: "machine_of e3 k = machine_of e2 k" for k using vc by (simp add: machine_of_def)
  have fin: "cpu_view e5 = cpu_view e4" using v4 [of ConditionHighCPU] global_not_transfer by blast
  have s: "sm_firing (machine_of e5 ConditionServiceDown) = (\<not> in_ServiceActive inp)"
    using v4 [of ConditionServiceDown] v1 [of ConditionServiceDown] v2 [of ConditionServiceDown]
      v3 [of ConditionServiceDown] m3 global_not_transfer by simp
  have dk: "sm_firing (machine_of e5 ConditionHighDisk) = df"
    using v4 [of ConditionHighDisk] v2 [of ConditionHighDisk] v3 [of ConditionHighDisk] m3 global_not_transfer by simp
  have cp: "sm_firing (machine_of e5 ConditionHighCPU) = cf"
    using v4 [of ConditionHighCPU] v3 [of ConditionHighCPU] global_not_transfer by simp
  have th: "ev_diskThresholdPct e1 = ev_diskThresholdPct e0" "ev_cpuThresholdPct e2 = ev_cpuThresholdPct e0"
      "ev_cpuSustain e2 = ev_cpuSustain e0" "ev_cpuHighSince e2 = ev_cpuHighSince e0" "ev_diskThresholdPct e2 = ev_diskThresholdPct e0"
    using v1 v2 by (simp_all add: cpu_view_def)
  have th5: "ev_diskThresholdPct e5 = ev_diskThresholdPct e3" "ev_cpuThresholdPct e5 = ev_cpuThresholdPct e3"
      "ev_cpuSustain e5 = ev_cpuSustain e3" "ev_cpuHighSince e5 = ev_cpuHighSince e3"
    using fin v3 by (simp_all add: cpu_view_def)
  show ?thesis using s dk cp df th th5 vc by (simp add: e)
qed

text \<open>The ticks at the end of a run whose CPU reading was at or over the threshold, newest first.\<close>

definition high_run :: "rat \<Rightarrow> (time \<times> alert_input) list \<Rightarrow> (time \<times> alert_input) list" where
  "high_run thr ts = takeWhile (\<lambda>(now, inp). thr \<le> in_CPUPercent inp) (rev ts)"

definition run_start :: "rat \<Rightarrow> (time \<times> alert_input) list \<Rightarrow> time" where
  "run_start thr ts = (case high_run thr ts of [] \<Rightarrow> zero_time | r # rs \<Rightarrow> fst (last (r # rs)))"

lemma run_ticks_snoc:
  "run_ticks (ts @ [(now, inp)]) e =
    (case run_ticks ts e of (evs, e1) \<Rightarrow> (case Evaluate now inp e1 of (evs', e2) \<Rightarrow> (evs @ evs', e2)))"
  by (induction ts arbitrary: e) (auto split: prod.splits)

lemma run_since:
  assumes "run_ticks ts (New cfg) = (evs, e)" and "\<forall>t \<in> set ts. \<not> is_zero (fst t)"
  shows "ev_cpuHighSince e = run_start (ev_cpuThresholdPct (New cfg)) ts \<and>
    ev_cpuThresholdPct e = ev_cpuThresholdPct (New cfg) \<and> ev_cpuSustain e = ev_cpuSustain (New cfg) \<and>
    ev_diskThresholdPct e = ev_diskThresholdPct (New cfg)"
  using assms
proof (induction ts arbitrary: evs e rule: rev_induct)
  case Nil
  then show ?case by (auto simp: run_start_def high_run_def New_def)
next
  case (snoc t ts)
  obtain now inp where t: "t = (now, inp)" by fastforce
  obtain a e1 where 1: "run_ticks ts (New cfg) = (a, e1)" by fastforce
  obtain b e2 where 2: "Evaluate now inp e1 = (b, e2)" by fastforce
  from snoc.prems t 1 2 have e: "e = e2" by (simp add: run_ticks_snoc)
  have nz: "\<not> is_zero now" "\<forall>t \<in> set ts. \<not> is_zero (fst t)" using snoc.prems(2) t by auto
  note ih = snoc.IH [OF 1 nz(2)]
  let ?thr = "ev_cpuThresholdPct (New cfg)"
  have hr: "high_run ?thr (ts @ [(now, inp)]) = (if ?thr \<le> in_CPUPercent inp then (now, inp) # high_run ?thr ts else [])"
    by (simp add: high_run_def)
  have "run_start ?thr (ts @ [(now, inp)]) = next_since ?thr now inp (run_start ?thr ts)"
  proof (cases "?thr \<le> in_CPUPercent inp")
    case True
    have "is_zero (run_start ?thr ts) \<longleftrightarrow> high_run ?thr ts = []"
    proof (cases "high_run ?thr ts")
      case (Cons r rs)
      have "last (r # rs) \<in> set (high_run ?thr ts)" unfolding Cons by (rule last_in_set) simp
      then have "last (r # rs) \<in> set ts" by (auto simp: high_run_def dest: set_takeWhileD)
      with nz(2) have "\<not> is_zero (fst (last (r # rs)))" by blast
      with Cons show ?thesis by (simp add: run_start_def del: last.simps)
    qed (simp add: run_start_def is_zero_def)
    with True hr show ?thesis by (auto simp: run_start_def next_since_def split: list.splits)
  next
    case False
    with hr show ?thesis by (simp add: run_start_def next_since_def)
  qed
  with Evaluate_view [OF 2] ih show ?case by (simp add: e t)
qed

lemma observe_distinct:
  "distinct (map fst (ev_states e)) \<Longrightarrow> distinct (map fst (ev_states (snd (observe dst key cond f detail now e))))"
  by (simp add: observe_def distinct_update split: prod.split)

lemma transfer_states: "ev_states (snd (transferCapObservation p e)) = ev_states e"
  by (simp add: transferCapObservation_def Let_def split: option.split)

lemma cpu_states: "ev_states (snd (cpuObservation inp now e)) = ev_states e"
  by (simp add: cpuObservation_def Let_def)

lemma peer_states_distinct:
  "distinct (map fst (ev_states (snd st))) \<Longrightarrow> distinct (map fst (ev_states (snd (fold (peer_step now) ps st))))"
proof (induction ps arbitrary: st)
  case (Cons p ps)
  have "distinct (map fst (ev_states (snd (peer_step now p st))))"
    using Cons.prems transfer_states [of p "snd st"]
    by (auto simp: peer_step_def intro: observe_distinct split: prod.split)
  with Cons.IH show ?case by simp
qed simp

lemma Evaluate_distinct:
  "distinct (map fst (ev_states e)) \<Longrightarrow> distinct (map fst (ev_states (snd (Evaluate now inp e))))"
proof -
  assume d0: "distinct (map fst (ev_states e))"
  obtain ev1 e1 where 1: "observe [] ConditionServiceDown ConditionServiceDown (\<not> in_ServiceActive inp)
      (serviceDownDetail inp) now e = (ev1, e1)" by fastforce
  obtain df dd where d: "diskObservation inp e1 = (df, dd)" by fastforce
  obtain ev2 e2 where 2: "observe ev1 ConditionHighDisk ConditionHighDisk df dd now e1 = (ev2, e2)" by fastforce
  obtain cf cd e3 where c: "cpuObservation inp now e2 = ((cf, cd), e3)" by (metis surj_pair)
  obtain ev3 e4 where 3: "observe ev2 ConditionHighCPU ConditionHighCPU cf cd now e3 = (ev3, e4)" by fastforce
  have "distinct (map fst (ev_states e1))" using observe_distinct [OF d0] 1 by (metis snd_conv)
  then have "distinct (map fst (ev_states e2))" using observe_distinct 2 by (metis snd_conv)
  then have "distinct (map fst (ev_states e3))" using cpu_states [of inp now e2] c by simp
  then have "distinct (map fst (ev_states e4))" using observe_distinct 3 by (metis snd_conv)
  then have "distinct (map fst (ev_states (snd (fold (peer_step now) (in_Peers inp) (ev3, e4)))))"
    by (intro peer_states_distinct) simp
  then show ?thesis by (auto simp: Evaluate_def 1 d 2 c 3 split: prod.split)
qed

lemma run_distinct:
  "distinct (map fst (ev_states e)) \<Longrightarrow> distinct (map fst (ev_states (snd (run_ticks ts e))))"
proof (induction ts arbitrary: e)
  case (Cons t ts)
  obtain now inp where t: "t = (now, inp)" by fastforce
  obtain a e1 where 1: "Evaluate now inp e = (a, e1)" by fastforce
  from Evaluate_distinct [OF Cons.prems, of now inp] 1 have "distinct (map fst (ev_states e1))" by simp
  from Cons.IH [OF this] show ?case by (auto simp: t 1 split: prod.split)
qed simp

text \<open>\<open>Active\<close> lists the firing machines.\<close>

lemma Active_iff:
  assumes "distinct (map fst (ev_states e))"
  shows "(\<exists>a \<in> set (Active e). aa_Key a = k \<and> aa_Since a = t) \<longleftrightarrow>
    firing_since (machine_of e k) = (True, t)"
proof
  assume "\<exists>a \<in> set (Active e). aa_Key a = k \<and> aa_Since a = t"
  then obtain sm where "(k, sm) \<in> set (ev_states e)" "sm_firing sm" "sm_firingSince sm = t"
    by (auto simp: Active_def)
  with assms show "firing_since (machine_of e k) = (True, t)"
    by (simp add: firing_since_def machine_of_def)
next
  assume f: "firing_since (machine_of e k) = (True, t)"
  then obtain sm where sm: "map_of (ev_states e) k = Some sm" "sm_firing sm" "sm_firingSince sm = t"
    by (auto simp: firing_since_def machine_of_def new_machine_def split: option.splits)
  then have "(k, sm) \<in> set (ev_states e)" by (simp add: map_of_SomeD)
  with sm show "\<exists>a \<in> set (Active e). aa_Key a = k \<and> aa_Since a = t"
    by (auto simp: Active_def image_iff intro!: bexI [of _ "(k, sm)"])
qed

lemma Active_keys_distinct:
  assumes "distinct (map fst (ev_states e))" shows "distinct (map aa_Key (Active e))"
  unfolding Active_def
  by (rule sk.distinct_srt) (use assms in \<open>simp add: comp_def case_prod_beta distinct_map_filter\<close>)

subsection \<open>What the evaluator promises\<close>

text \<open>
  C9. Over any run of ticks from a fresh evaluator, the events of every key alternate as the
  specification asks: the first one is a Fire, a Recovery only follows a Fire and a repeated Fire
  only comes a cooldown after the last one. Keys do not influence each other.
\<close>

theorem events_well_edged:
  "well_edged (ev_cooldown (New cfg)) None (events_of k (fst (run_ticks ts (New cfg))))"
proof -
  obtain evs e where r: "run_ticks ts (New cfg) = (evs, e)" by fastforce
  from run_accounts [OF r, of k] have
    "well_edged (ev_cooldown (New cfg)) (firing_time new_machine) (events_of k evs @ rest) \<longleftrightarrow>
     well_edged (ev_cooldown (New cfg)) (firing_time (machine_of e k)) rest" for rest
    unfolding accounts_def New_machine by blast
  from this [of "[]"] have
    "well_edged (ev_cooldown (New cfg)) (firing_time new_machine) (events_of k evs)" by simp
  then show ?thesis by (simp add: r firing_time_def new_machine_def)
qed

text \<open>
  C8. The active view lists each key at most once, in key order, and exactly the keys whose last
  event is a Fire, since the Fire that started the episode (a reminder does not move it).
\<close>

theorem Active_matches_events:
  "let (evs, e) = run_ticks ts (New cfg) in
     distinct (map aa_Key (Active e)) \<and> sorted (map aa_Key (Active e)) \<and>
     (\<forall>k t. (\<exists>a \<in> set (Active e). aa_Key a = k \<and> aa_Since a = t) \<longleftrightarrow>
       replay (False, zero_time) (events_of k evs) = (True, t))"
proof -
  obtain evs e where r: "run_ticks ts (New cfg) = (evs, e)" by fastforce
  have d: "distinct (map fst (ev_states e))"
    using run_distinct [of "New cfg" ts] r by (simp add: New_def)
  have "firing_since (machine_of e k) = replay (False, zero_time) (events_of k evs)" for k
    using run_accounts [OF r, of k] by (simp add: accounts_def firing_since_def new_machine_def)
  moreover have "sorted (map aa_Key (Active e))" unfolding Active_def by (rule sk.srt_sorted)
  ultimately show ?thesis using Active_iff [OF d] Active_keys_distinct [OF d] by (simp add: r)
qed

text \<open>
  After a tick the three host conditions are firing exactly when the tick says so: the unit
  is not active; some filesystem is at or over the threshold; the CPU has been at or over its
  threshold on every tick since one that lies at least the sustain window back, this one included.
\<close>

theorem host_conditions_firing:
  assumes "run_ticks (ts @ [(now, inp)]) (New cfg) = (evs, e)"
    and "\<forall>t \<in> set (ts @ [(now, inp)]). \<not> is_zero (fst t)"
  shows "(sm_firing (machine_of e ConditionServiceDown) \<longleftrightarrow> \<not> in_ServiceActive inp) \<and>
    (sm_firing (machine_of e ConditionHighDisk) \<longleftrightarrow>
      (\<exists>fs \<in> set (in_DiskUsage inp). fu_PctFull fs \<ge> ev_diskThresholdPct (New cfg))) \<and>
    (sm_firing (machine_of e ConditionHighCPU) \<longleftrightarrow>
      high_run (ev_cpuThresholdPct (New cfg)) (ts @ [(now, inp)]) \<noteq> [] \<and>
      time_sub now (run_start (ev_cpuThresholdPct (New cfg)) (ts @ [(now, inp)])) \<ge> ev_cpuSustain (New cfg))"
proof -
  obtain a e1 where 1: "run_ticks ts (New cfg) = (a, e1)" by fastforce
  obtain b e2 where 2: "Evaluate now inp e1 = (b, e2)" by fastforce
  from assms(1) 1 2 have e: "e = e2" by (simp add: run_ticks_snoc)
  have "\<forall>t \<in> set ts. \<not> is_zero (fst t)" using assms(2) by simp
  note r1 = run_since [OF 1 this] and r = run_since [OF assms]
  have "high_run (ev_cpuThresholdPct (New cfg)) (ts @ [(now, inp)]) \<noteq> [] \<longleftrightarrow>
      \<not> in_CPUPercent inp < ev_cpuThresholdPct (New cfg)"
    by (auto simp: high_run_def)
  then show ?thesis using Evaluate_view [OF 2] r1 r by (auto simp: e)
qed

definition no_config :: alert_config where
  "no_config = \<lparr>cfg_Cooldown = 0, cfg_Host = [], cfg_DiskThresholdPct = 0, cfg_CPUThresholdPct = 0,
     cfg_CPUSustain = 0, cfg_TransferCapBytes = 0\<rparr>"

theorem host_conditions_firing_witness:
  "sm_firing (machine_of (snd (run_ticks [(minute, \<lparr>in_ServiceActive = False, in_CPUPercent = 95, in_DiskUsage = [], in_Peers = []\<rparr>),
     (7 * minute, \<lparr>in_ServiceActive = True, in_CPUPercent = 95, in_DiskUsage = [], in_Peers = []\<rparr>)] (New no_config))) ConditionHighCPU)"
proof -
  let ?a = "(minute, \<lparr>in_ServiceActive = False, in_CPUPercent = 95, in_DiskUsage = [], in_Peers = []\<rparr>)"
  let ?inp = "\<lparr>in_ServiceActive = True, in_CPUPercent = 95, in_DiskUsage = [], in_Peers = []\<rparr>"
  obtain evs e where r: "run_ticks ([?a] @ [(7 * minute, ?inp)]) (New no_config) = (evs, e)" by fastforce
  have nz: "\<forall>t \<in> set ([?a] @ [(7 * minute, ?inp)]). \<not> is_zero (fst t)"
    by (simp add: is_zero_def zero_time_def go_time)
  have c: "ev_cpuThresholdPct (New no_config) = 90" "ev_cpuSustain (New no_config) = 5 * minute"
    by (simp_all add: New_def no_config_def DefaultCPUThresholdPct_def DefaultCPUSustain_def)
  have h: "high_run 90 ([?a] @ [(7 * minute, ?inp)]) = [(7 * minute, ?inp), ?a]"
    by (simp add: high_run_def)
  have "run_start 90 ([?a] @ [(7 * minute, ?inp)]) = minute" by (simp only: run_start_def h) simp
  with host_conditions_firing [OF r nz] c h have "sm_firing (machine_of e ConditionHighCPU)"
    by (simp add: time_sub_def go_time)
  with r show ?thesis by simp
qed

text \<open>
  The transfer-cap reading of a peer is the traffic since its baseline: the counters of its
  first sample, or of the last sample in which a counter went backwards, which also clears the
  condition.
\<close>

theorem transferCap_since_baseline:
  assumes "0 \<le> ps_RxBytes p \<and> in_i64 (ps_RxBytes p) \<and> 0 \<le> ps_TxBytes p \<and> in_i64 (ps_TxBytes p)"
    and "\<forall>b. map_of (ev_transferBaseline e) (ps_Name p) = Some b \<longrightarrow> 0 \<le> tc_rx b \<and> 0 \<le> tc_tx b"
    and "0 < ev_transferCapBytes e"
  shows "let ((f, d), e') = transferCapObservation p e;
             base = map_of (ev_transferBaseline e) (ps_Name p);
             reset = (case base of None \<Rightarrow> True | Some b \<Rightarrow> ps_RxBytes p < tc_rx b \<or> ps_TxBytes p < tc_tx b)
         in map_of (ev_transferBaseline e') (ps_Name p) =
              (if reset then Some \<lparr>tc_rx = ps_RxBytes p, tc_tx = ps_TxBytes p\<rparr> else base) \<and>
            (f \<longleftrightarrow> \<not> reset \<and> (ps_RxBytes p - tc_rx (the base) \<ge> ev_transferCapBytes e \<or>
                              ps_TxBytes p - tc_tx (the base) \<ge> ev_transferCapBytes e))"
proof (cases "map_of (ev_transferBaseline e) (ps_Name p)")
  case None
  with assms(3) show ?thesis by (auto simp: transferCapObservation_def Let_def in_i64_def update_conv')
next
  case (Some b)
  with assms(2) have b: "0 \<le> tc_rx b" "0 \<le> tc_tx b" by simp_all
  show ?thesis
  proof (cases "ps_RxBytes p < tc_rx b \<or> ps_TxBytes p < tc_tx b")
    case True
    with Some assms(3) show ?thesis by (auto simp: transferCapObservation_def Let_def in_i64_def update_conv')
  next
    case False
    have "in_i64 (ps_RxBytes p - tc_rx b)" "in_i64 (ps_TxBytes p - tc_tx b)"
      using assms(1) b False by (auto simp: in_i64_def)
    with Some False show ?thesis by (auto simp: transferCapObservation_def Let_def)
  qed
qed

theorem transferCap_since_baseline_witness:
  "fst (fst (transferCapObservation \<lparr>ps_Name = ''alice'', ps_LastHandshake = 0, ps_RxBytes = 2 ^ 40, ps_TxBytes = 7\<rparr>
     ((New no_config)\<lparr>ev_transferBaseline := [(''alice'', \<lparr>tc_rx = 5, tc_tx = 5\<rparr>)]\<rparr>)))"
  using transferCap_since_baseline [of "\<lparr>ps_Name = ''alice'', ps_LastHandshake = 0, ps_RxBytes = 2 ^ 40, ps_TxBytes = 7\<rparr>"
      "(New no_config)\<lparr>ev_transferBaseline := [(''alice'', \<lparr>tc_rx = 5, tc_tx = 5\<rparr>)]\<rparr>"]
  by (auto simp: in_i64_def Let_def New_def no_config_def DefaultTransferCapBytes_def split: prod.splits)

text \<open>
  After any sequence of updates the holder keeps exactly the last fifty transitions, and a
  snapshot lists them newest first.
\<close>

theorem holder_keeps_last_fifty:
  "st_Recent (Snapshot (fold (\<lambda>(active, evs). holder_Update active evs) us NewStatusHolder)) =
    take 50 (rev (map log_entry_of (concat (map snd us))))"
proof -
  let ?run = "\<lambda>us h. fold (\<lambda>(active, evs). holder_Update active evs) us h"
  have drop: "drop (length xs + length ys - 50) (drop (length xs - 50) xs @ ys) = drop (length xs + length ys - 50) (xs @ ys) "
    if "length xs \<le> 50" for xs ys :: "log_entry list" using that by simp
  have upd: "sh_recent (holder_Update a evs h) = drop (length (sh_recent h @ map log_entry_of evs) - 50) (sh_recent h @ map log_entry_of evs)"
    for a evs h by (simp add: holder_Update_def recentCap_def Let_def)
  have "sh_recent (?run us NewStatusHolder) =
      drop (length (map log_entry_of (concat (map snd us))) - 50) (map log_entry_of (concat (map snd us)))"
  proof (induction us rule: rev_induct)
    case Nil
    then show ?case by (simp add: NewStatusHolder_def)
  next
    case (snoc u us)
    obtain a evs where u: "u = (a, evs)" by fastforce
    let ?xs = "map log_entry_of (concat (map snd us))" and ?ys = "map log_entry_of evs"
    have "sh_recent (?run (us @ [u]) NewStatusHolder) =
        drop (length (drop (length ?xs - 50) ?xs @ ?ys) - 50) (drop (length ?xs - 50) ?xs @ ?ys)"
      by (simp add: u upd snoc)
    also have "\<dots> = drop (length (?xs @ ?ys) - 50) (?xs @ ?ys)"
      by (cases "length ?xs \<le> 50") (auto simp: min_def add.commute)
    finally show ?case by (simp add: u)
  qed
  moreover have "rev (drop (length xs - 50) xs) = take 50 (rev xs)" for xs :: "log_entry list"
    by (cases "length xs \<le> 50") (simp_all add: rev_drop)
  ultimately have "rev (sh_recent (?run us NewStatusHolder)) = take 50 (rev (map log_entry_of (concat (map snd us))))"
    by (simp only:)
  then show ?thesis by (simp add: Snapshot_def)
qed

end
