(* ===== verification/GoText.thy ===== *)
theory GoText
  imports GoStrings
begin

text \<open>
  Text that is read line by line: the characters that trimming keeps, \<^verbatim>\<open>strings.Fields\<close>, and the
  contract of a format whose records are single lines.
\<close>

definition nl :: char where "nl = CHR 0x0A"

subsection \<open>Trimming\<close>

definition graph_char :: "char \<Rightarrow> bool" where
  "graph_char c \<longleftrightarrow> (let n = (of_char c :: nat) in 33 \<le> n \<and> n \<le> 126)"

lemma no_graph_space:
  "\<forall>w \<in> set space_encodings. \<forall>c \<in> set w. \<not> graph_char c"
  by code_simp

lemma trim_left_keeps:
  assumes "\<forall>w \<in> set ws. c \<notin> set w" shows "\<exists>u'. trim_left ws (u @ c # v) = u' @ c # v"
  using assms
proof (induction "length u" arbitrary: u rule: less_induct)
  case less
  show ?case
  proof (cases "find (\<lambda>w. w \<noteq> [] \<and> has_prefix w (u @ c # v)) ws")
    case None
    then show ?thesis by (auto simp: trim_left.simps [of ws "u @ c # v"])
  next
    case (Some w)
    then have w: "w \<in> set ws" "w \<noteq> []" "has_prefix w (u @ c # v)" by (auto dest!: find_SomeD)
    then obtain t where t: "u @ c # v = w @ t" by (auto simp: has_prefix_iff)
    have "c \<notin> set w" using less(2) w(1) by blast
    then obtain u' where u: "u = w @ u'" using t by (auto simp: append_eq_append_conv2 Cons_eq_append_conv)
    then have "length u' < length u" using w(2) by simp
    from less(1) [OF this less(2)] show ?thesis
      using Some u trim_left.simps [of ws "u @ c # v"] by simp
  qed
qed

lemma trim_left_graph: "graph_char c \<Longrightarrow> trim_left space_encodings (c # s) = c # s"
  using no_graph_space by (intro trim_left_fixpoint) (auto simp: has_prefix_iff Cons_eq_append_conv)

lemma trim_left_rev_graph: "graph_char c \<Longrightarrow> trim_left (map rev space_encodings) (c # s) = c # s"
proof (rule trim_left_fixpoint)
  fix w assume c: "graph_char c" and w: "w \<in> set (map rev space_encodings)" "w \<noteq> []"
  show "\<not> has_prefix w (c # s)"
  proof
    assume "has_prefix w (c # s)"
    then have "c \<in> set w" using w(2) by (auto simp: has_prefix_iff Cons_eq_append_conv)
    then show False using w(1) c no_graph_space by auto
  qed
qed

lemma trim_space_hd: assumes "graph_char c" shows "\<exists>t. trim_space (c # s) = c # t"
proof -
  have "\<forall>w \<in> set (map rev space_encodings). c \<notin> set w" using assms no_graph_space by auto
  from trim_left_keeps [OF this, of "rev s" "[]"] obtain u where
    "trim_left (map rev space_encodings) (rev s @ [c]) = u @ [c]" by auto
  then show ?thesis using assms by (simp add: trim_space_def trim_left_graph)
qed

lemma trim_space_graph: assumes "\<forall>c \<in> set s. graph_char c" shows "trim_space s = s"
proof (cases s)
  case (Cons c t)
  have "trim_left (map rev space_encodings) (rev s) = rev s"
  proof (cases "rev s")
    case (Cons d u)
    then have "d \<in> set s" by (metis list.set_intros(1) set_rev)
    then show ?thesis using assms Cons by (simp add: trim_left_rev_graph)
  qed (use Cons in simp)
  then show ?thesis using assms Cons by (simp add: trim_space_def trim_left_graph)
qed simp

subsection \<open>strings.Fields\<close>

function fields_from :: "string \<Rightarrow> string \<Rightarrow> string list" where
  "fields_from acc s =
     (if s = [] then (if acc = [] then [] else [rev acc])
      else (case find (\<lambda>w. has_prefix w s) space_encodings of
              None \<Rightarrow> fields_from (hd s # acc) (tl s)
            | Some w \<Rightarrow> (if acc = [] then [] else [rev acc]) @ fields_from [] (drop (length w) s)))"
  by pat_completeness auto
termination
proof (relation "measure (\<lambda>(acc, s). length s)")
  fix acc s w
  assume "s \<noteq> ([] :: string)" and "find (\<lambda>w. has_prefix w s) space_encodings = Some w"
  then have "w \<noteq> []" by (auto dest!: find_SomeD space_encodings_ne)
  with \<open>s \<noteq> []\<close> show "(([], drop (length w) s), acc, s) \<in> measure (\<lambda>(acc, s). length s)" by simp
qed auto

declare fields_from.simps [simp del]

definition str_fields :: "string \<Rightarrow> string list" where
  "str_fields s = fields_from [] s"

lemma no_space_at:
  assumes "graph_char c"
  shows "find (\<lambda>w. has_prefix w (c # s)) space_encodings = None"
proof -
  have "\<not> has_prefix w (c # s)" if "w \<in> set space_encodings" for w
    using that assms no_graph_space space_encodings_ne [OF that]
    by (auto simp: has_prefix_iff Cons_eq_append_conv)
  then show ?thesis by (simp add: find_None_iff)
qed

lemma fields_from_word:
  "list_all graph_char w \<Longrightarrow> fields_from acc (w @ s) = fields_from (rev w @ acc) s"
proof (induction w arbitrary: acc)
  case (Cons c w)
  then show ?case by (subst fields_from.simps) (simp add: no_space_at)
qed simp

lemma space_at: "find (\<lambda>w. has_prefix w (CHR '' '' # s)) space_encodings = Some [CHR '' '']"
proof -
  have one: "\<forall>w \<in> set space_encodings. CHR '' '' \<in> set w \<longrightarrow> w = [CHR '' '']" and mem: "[CHR '' ''] \<in> set space_encodings"
    by code_simp+
  have "find (\<lambda>w. has_prefix w (CHR '' '' # s)) space_encodings \<noteq> None" 
    using mem by (auto simp: find_None_iff intro!: bexI [OF _ mem])
  then obtain w where w: "find (\<lambda>w. has_prefix w (CHR '' '' # s)) space_encodings = Some w" by blast
  then have "w \<in> set space_encodings" "has_prefix w (CHR '' '' # s)" by (auto dest: find_SomeD)
  with one space_encodings_ne [of w] have "w = [CHR '' '']" by (auto simp: has_prefix_iff Cons_eq_append_conv)
  with w show ?thesis by simp
qed

lemma str_fields_word:
  assumes "list_all graph_char w" and "w \<noteq> []"
  shows "str_fields w = [w]"
  using fields_from_word [OF assms(1), of "[]" "[]"] assms(2)
  by (simp add: str_fields_def fields_from.simps [of _ "[]"])

lemma str_fields_space:
  assumes "list_all graph_char w" and "w \<noteq> []"
  shows "str_fields (w @ CHR '' '' # s) = w # str_fields s"
  using fields_from_word [OF assms(1), of "[]" "CHR '' '' # s"] assms(2)
  by (simp add: str_fields_def fields_from.simps [of _ "CHR '' '' # s"] space_at)

lemma trim_space_ends:
  assumes "s = c # t" and "s = u @ [d]" and "graph_char c" and "graph_char d"
  shows "trim_space s = s"
proof -
  have "trim_left space_encodings s = s" using assms(1,3) by (simp add: trim_left_graph)
  moreover have "trim_left (map rev space_encodings) (rev s) = rev s" using assms(2,4) by (simp add: trim_left_rev_graph)
  ultimately show ?thesis by (simp add: trim_space_def)
qed

subsection \<open>Formats of one record per line\<close>

text \<open>
  The contract of a printer and a reader of single lines: a record that may be printed occupies
  one line, from which the reader gets what the record shows, if it shows anything. What follows
  is that a text of such lines reads as the list of what its records show.
\<close>

locale line_codec =
  fixes print_rec :: "'a \<Rightarrow> string" and read_line :: "string \<Rightarrow> 'b option" and shows_as :: "'a \<Rightarrow> 'b option"
    and ok :: "'a \<Rightarrow> bool"
  assumes read_print: "ok x \<Longrightarrow> read_line (print_rec x) = shows_as x"
    and one_line: "ok x \<Longrightarrow> nl \<notin> set (print_rec x)"
    and read_empty: "read_line [] = None"
begin

lemma split_lines:
  "list_all ok xs \<Longrightarrow> split_on nl (concat (map (\<lambda>x. print_rec x @ [nl]) xs)) = map print_rec xs @ [[]]"
proof (induction xs)
  case (Cons x xs)
  then show ?case using split_on_append [OF one_line [of x]] by simp
qed simp

lemma read_text:
  "list_all ok xs \<Longrightarrow>
    List.map_filter read_line (split_on nl (concat (map (\<lambda>x. print_rec x @ [nl]) xs))) = List.map_filter shows_as xs"
proof (induction xs)
  case (Cons x xs)
  then have "split_on nl (print_rec x @ nl # concat (map (\<lambda>x. print_rec x @ [nl]) xs)) =
      print_rec x # split_on nl (concat (map (\<lambda>x. print_rec x @ [nl]) xs))"
    by (intro split_on_append one_line) simp
  with Cons show ?case by (simp add: read_print split: option.splits)
qed (simp add: read_empty)

end

end
