(* ===== verification/WgConfig.thy ===== *)
theory WgConfig
  imports NetIP GoText
begin

text \<open>
  \<^verbatim>\<open>dashboard/internal/wgconfig/wgconfig.go\<close>: the renderer of the client's \<^verbatim>\<open>wg-quick\<close> file, of
  the server's \<^verbatim>\<open>wg0.conf\<close> and of the peers-only fragment, with the address arithmetic they need,
  and a reader of the format as \<^verbatim>\<open>wg\<close> reads it (comments from \<^verbatim>\<open>#\<close> on, blanks dropped, a line is
  a section or a key and a value), against which the renderers are shown right.
\<close>

unbundle bit_operations_syntax

subsection \<open>The client's configuration\<close>

definition DefaultServerNet :: string where "DefaultServerNet = ''172.16.15.1/24''"

definition privateKeyPlaceholder :: string where
  "privateKeyPlaceholder = ''<paste your client private key here>''"

definition persistentKeepalive :: int where "persistentKeepalive = 25"

definition fullTunnelAllowedIPs :: string where "fullTunnelAllowedIPs = ''0.0.0.0/0, ::/0''"

text \<open>\<^verbatim>\<open>Mode\<close> is a string type; the two constants are the values the code produces.\<close>

type_synonym mode = string

definition ModeFull :: mode where "ModeFull = ''full''"
definition ModeSplit :: mode where "ModeSplit = ''split''"

definition ParseMode :: "string \<Rightarrow> mode" where
  "ParseMode s = (if s = ModeSplit then ModeSplit else ModeFull)"

record wg_client =
  wc_Name :: string
  wc_Address :: string

text \<open>\<^verbatim>\<open>fmt.Fprintf(&b, "Key = %s\n", v)\<close>.\<close>

definition kv_line :: "string \<Rightarrow> string \<Rightarrow> string" where
  "kv_line k v = k @ '' = '' @ v @ [nl]"

definition Build :: "wg_client \<Rightarrow> mode \<Rightarrow> string \<Rightarrow> string \<Rightarrow> string \<Rightarrow> string list \<Rightarrow> string + string" where
  "Build client m serverPubKey endpoint dns splitRoutes =
     (if m \<noteq> ModeFull \<and> m \<noteq> ModeSplit then Inl (''wgconfig: unsupported mode '' @ m)
      else (let allowedIPs = (if m = ModeFull then fullTunnelAllowedIPs else join_with '', '' splitRoutes)
            in Inr (''[Interface]'' @ [nl]
                 @ kv_line ''PrivateKey'' privateKeyPlaceholder
                 @ kv_line ''Address'' (wc_Address client)
                 @ kv_line ''DNS'' dns
                 @ [nl]
                 @ ''[Peer]'' @ [nl]
                 @ kv_line ''PublicKey'' serverPubKey
                 @ kv_line ''Endpoint'' endpoint
                 @ kv_line ''AllowedIPs'' allowedIPs
                 @ kv_line ''PersistentKeepalive'' (itoa persistentKeepalive))))"

subsection \<open>Addresses\<close>

text \<open>
  \<^verbatim>\<open>addToIP\<close>: the loop from the last byte upward, on the reversed bytes; it stops at the first
  byte when no carry is left.
\<close>

fun add_carry :: "byte list \<Rightarrow> int \<Rightarrow> byte list" where
  "add_carry [] n = []"
| "add_carry (b # bs) n =
     (if n > 0 then word_of_int ((uint b + n) AND 0xff) # add_carry bs (drop_bit 8 (uint b + n))
      else b # bs)"

definition addToIP :: "ip \<Rightarrow> int \<Rightarrow> ip" where
  "addToIP x n = rev (add_carry (rev x) n)"

datatype wgconfig_error = ErrParseVPC string | ErrVPCNotIPv4 string | ErrParseNet string

definition ResolverForVPC :: "string \<Rightarrow> wgconfig_error + string" where
  "ResolverForVPC vpcCIDR =
     (case parse_cidr vpcCIDR of
        None \<Rightarrow> Inl (ErrParseVPC vpcCIDR)
      | Some (_, ipNet) \<Rightarrow>
          (let base = to4 (net_ip ipNet)
           in if base = [] then Inl (ErrVPCNotIPv4 vpcCIDR)
              else Inr (ip_string (addToIP base 2))))"

definition OverlaySubnet :: "string \<Rightarrow> wgconfig_error + string" where
  "OverlaySubnet serverNet =
     (case parse_cidr serverNet of
        None \<Rightarrow> Inl (ErrParseNet serverNet)
      | Some (_, ipNet) \<Rightarrow> Inr (net_string ipNet))"

subsection \<open>The server's configuration\<close>

record server_peer =
  sp_Name :: string
  sp_PublicKey :: string
  sp_Address :: string
  sp_Enabled :: bool

record server_interface =
  si_Address :: string
  si_ListenPort :: int
  si_PrivateKey :: string
  si_PostUp :: "string list"
  si_PostDown :: "string list"

definition addrSortKey :: "string \<Rightarrow> u32 option" where
  "addrSortKey s =
     (let ip = to4 (parse_ip (before_byte CHR ''/'' s))
      in if ip = [] then None else Some (u32_of_bytes (ip ! 0) (ip ! 1) (ip ! 2) (ip ! 3)))"

definition addrLess :: "string \<Rightarrow> string \<Rightarrow> bool" where
  "addrLess a b =
     (case (addrSortKey a, addrSortKey b) of
        (Some ai, Some bi) \<Rightarrow> ai < bi
      | (Some ai, None) \<Rightarrow> True
      | (None, Some bi) \<Rightarrow> False
      | (None, None) \<Rightarrow> a < b)"

definition enabledSortedByAddress :: "server_peer list \<Rightarrow> server_peer list" where
  "enabledSortedByAddress peers =
     stable_sort_by (\<lambda>p q. addrLess (sp_Address p) (sp_Address q)) (filter sp_Enabled peers)"

definition BuildServerPeer :: "server_peer \<Rightarrow> string" where
  "BuildServerPeer p =
     (if sp_Name p \<noteq> [] then ''# '' @ sp_Name p @ [nl] else [])
     @ ''[Peer]'' @ [nl]
     @ kv_line ''PublicKey'' (sp_PublicKey p)
     @ kv_line ''AllowedIPs'' (sp_Address p)
     @ kv_line ''PersistentKeepalive'' (itoa persistentKeepalive)"

definition BuildServerConf :: "server_interface \<Rightarrow> server_peer list \<Rightarrow> string" where
  "BuildServerConf iface peers =
     ''[Interface]'' @ [nl]
     @ kv_line ''Address'' (si_Address iface)
     @ kv_line ''ListenPort'' (itoa (si_ListenPort iface))
     @ kv_line ''PrivateKey'' (si_PrivateKey iface)
     @ concat (map (kv_line ''PostUp'') (si_PostUp iface))
     @ concat (map (kv_line ''PostDown'') (si_PostDown iface))
     @ concat (map (\<lambda>p. [nl] @ BuildServerPeer p) (enabledSortedByAddress peers))"

text \<open>The loop with its index: a blank line before every stanza but the first.\<close>

fun render_peers :: "nat \<Rightarrow> server_peer list \<Rightarrow> string" where
  "render_peers i [] = []"
| "render_peers i (p # ps) = (if i > 0 then [nl] else []) @ BuildServerPeer p @ render_peers (i + 1) ps"

definition BuildServerPeers :: "server_peer list \<Rightarrow> string" where
  "BuildServerPeers peers = render_peers 0 (enabledSortedByAddress peers)"

subsection \<open>Reading the format\<close>

datatype conf_item = Section string | Field string string

definition is_blank :: "char \<Rightarrow> bool" where
  "is_blank c \<longleftrightarrow> c = CHR '' '' \<or> c = CHR 0x09 \<or> c = CHR 0x0A \<or> c = CHR 0x0B \<or> c = CHR 0x0C \<or> c = CHR 0x0D"

definition clean_line :: "string \<Rightarrow> string" where
  "clean_line l = filter (\<lambda>c. \<not> is_blank c) (before_byte CHR ''#'' l)"

definition conf_line :: "string \<Rightarrow> conf_item list" where
  "conf_line l =
     (let w = clean_line l
      in if w = [] then []
         else if hd w = CHR ''['' then [Section (before_byte CHR '']'' (tl w))]
         else (case cut_byte CHR ''='' w of None \<Rightarrow> [] | Some (k, v) \<Rightarrow> [Field k v]))"

definition read_conf :: "string \<Rightarrow> conf_item list" where
  "read_conf s = concat (map conf_line (split_on nl s))"

text \<open>The sections, each with its fields.\<close>

definition add_item :: "conf_item \<Rightarrow> (string \<times> string) list \<times> (string \<times> (string \<times> string) list) list \<Rightarrow>
    (string \<times> string) list \<times> (string \<times> (string \<times> string) list) list" where
  "add_item it acc =
     (case it of
        Field k v \<Rightarrow> ((k, v) # fst acc, snd acc)
      | Section s \<Rightarrow> ([], (s, fst acc) # snd acc))"

definition sections :: "conf_item list \<Rightarrow> (string \<times> (string \<times> string) list) list" where
  "sections its = snd (foldr add_item its ([], []))"

subsection \<open>Reading back what was written\<close>

definition plain :: "string \<Rightarrow> bool" where
  "plain s \<longleftrightarrow> (\<forall>c \<in> set s. \<not> is_blank c \<and> c \<noteq> CHR ''#'')"

lemma nl_blank [simp]: "is_blank nl"
  by (simp add: is_blank_def nl_def)

lemma plain_nl: "plain s \<Longrightarrow> nl \<notin> set s"
  unfolding plain_def using nl_blank by blast

lemma plain_append [simp]: "plain (s @ t) \<longleftrightarrow> plain s \<and> plain t"
  by (auto simp: plain_def)

lemma plain_Nil [simp]: "plain []"
  by (simp add: plain_def)

lemma plain_Cons [simp]: "plain (c # s) \<longleftrightarrow> \<not> is_blank c \<and> c \<noteq> CHR ''#'' \<and> plain s"
  by (auto simp: plain_def)

lemma read_conf_line: "nl \<notin> set l \<Longrightarrow> read_conf (l @ nl # s) = conf_line l @ read_conf s"
  by (simp add: read_conf_def)

lemma read_conf_Nil [simp]: "read_conf [] = []"
  by (simp add: read_conf_def conf_line_def clean_line_def before_byte_def)

lemma conf_line_comment [simp]: "conf_line (CHR ''#'' # s) = []"
  by (simp add: conf_line_def clean_line_def before_byte_def)

lemma conf_line_Nil [simp]: "conf_line [] = []"
  by (simp add: conf_line_def clean_line_def before_byte_def)

lemma plain_hash: "plain s \<Longrightarrow> CHR ''#'' \<notin> set s"
  unfolding plain_def by blast

lemma filter_blank_plain: "plain v \<Longrightarrow> filter (\<lambda>c. \<not> is_blank c) v = v"
  unfolding plain_def by (simp add: filter_id_conv)

lemma before_byte_app: "c \<notin> set s \<Longrightarrow> before_byte c (s @ t) = s @ before_byte c t"
  by (simp add: before_byte_def takeWhile_append)

definition key_ok :: "string \<Rightarrow> bool" where
  "key_ok k \<longleftrightarrow> k \<noteq> [] \<and> plain k \<and> hd k \<noteq> CHR ''['' \<and> CHR ''='' \<notin> set k"

lemma clean_kv:
  assumes "plain k" and "CHR ''#'' \<notin> set v"
  shows "clean_line (k @ '' = '' @ v) = k @ ''='' @ filter (\<lambda>c. \<not> is_blank c) v"
proof -
  have "CHR ''#'' \<notin> set (k @ '' = '' @ v)"
    using assms plain_hash [of k] by simp
  then have "before_byte CHR ''#'' (k @ '' = '' @ v) = k @ '' = '' @ v"
    by (rule before_byte_none)
  moreover have "is_blank CHR '' ''" "\<not> is_blank CHR ''=''" by (simp_all add: is_blank_def)
  ultimately show ?thesis
    using filter_blank_plain [OF assms(1)] by (simp add: clean_line_def)
qed

lemma conf_line_kv:
  assumes "key_ok k" and "CHR ''#'' \<notin> set v"
  shows "conf_line (k @ '' = '' @ v) = [Field k (filter (\<lambda>c. \<not> is_blank c) v)]"
proof -
  have k: "k \<noteq> []" "plain k" "hd k \<noteq> CHR ''[''" "CHR ''='' \<notin> set k"
    using assms(1) by (simp_all add: key_ok_def)
  show ?thesis unfolding conf_line_def clean_kv [OF k(2) assms(2)] using k by simp
qed

lemma read_kv_blank:
  assumes "key_ok k" and "nl \<notin> set v" and "CHR ''#'' \<notin> set v"
  shows "read_conf (kv_line k v @ s) = Field k (filter (\<lambda>c. \<not> is_blank c) v) # read_conf s"
proof -
  have "plain k" using assms(1) by (simp add: key_ok_def)
  then have n: "nl \<notin> set (k @ '' = '' @ v)"
    using assms(2) plain_nl [of k] by (simp add: nl_def)
  have "read_conf (kv_line k v @ s) = read_conf ((k @ '' = '' @ v) @ nl # s)"
    by (simp add: kv_line_def)
  also have "\<dots> = conf_line (k @ '' = '' @ v) @ read_conf s"
    by (rule read_conf_line [OF n])
  also have "\<dots> = Field k (filter (\<lambda>c. \<not> is_blank c) v) # read_conf s"
    unfolding conf_line_kv [OF assms(1,3)] by simp
  finally show ?thesis .
qed

lemma read_kv: "key_ok k \<Longrightarrow> plain v \<Longrightarrow> read_conf (kv_line k v @ s) = Field k v # read_conf s"
  using read_kv_blank [of k v s] plain_nl [of v] plain_hash [of v] filter_blank_plain [of v] by simp

unbundle bit_operations_syntax

lemma key_ok_keys [simp]:
  "key_ok ''PublicKey''" "key_ok ''AllowedIPs''" "key_ok ''PersistentKeepalive''" "key_ok ''PrivateKey''"
  "key_ok ''Address''" "key_ok ''DNS''" "key_ok ''Endpoint''" "key_ok ''ListenPort''" "key_ok ''PostUp''"
  "key_ok ''PostDown''"
  by code_simp+

lemma plain_25 [simp]: "plain ''25''" "plain (itoa persistentKeepalive)"
  by code_simp+

lemma keepalive_text: "itoa persistentKeepalive = ''25''"
  by code_simp

lemma read_section [simp]:
  "read_conf (''[Peer]'' @ nl # s) = Section ''Peer'' # read_conf s"
  "read_conf (''[Interface]'' @ nl # s) = Section ''Interface'' # read_conf s"
proof -
  have "conf_line ''[Peer]'' = [Section ''Peer'']" "conf_line ''[Interface]'' = [Section ''Interface'']"
    "nl \<notin> set ''[Peer]''" "nl \<notin> set ''[Interface]''"
    by code_simp+
  then show "read_conf (''[Peer]'' @ nl # s) = Section ''Peer'' # read_conf s"
    "read_conf (''[Interface]'' @ nl # s) = Section ''Interface'' # read_conf s"
    using read_conf_line [of "''[Peer]''" s] read_conf_line [of "''[Interface]''" s] by simp_all
qed

lemma read_empty_line [simp]: "read_conf (nl # s) = read_conf s"
  using read_conf_line [of "[]" s] by simp

lemma read_comment:
  assumes "nl \<notin> set n"
  shows "read_conf (''# '' @ n @ nl # s) = read_conf s"
proof -
  have "nl \<notin> set (''# '' @ n)" using assms by (simp add: nl_def)
  from read_conf_line [OF this] show ?thesis by simp
qed

subsection \<open>The stanzas\<close>

text \<open>A peer whose fields keep to their lines: the name may hold anything but a newline.\<close>

definition peer_ok :: "server_peer \<Rightarrow> bool" where
  "peer_ok p \<longleftrightarrow> nl \<notin> set (sp_Name p) \<and> plain (sp_PublicKey p) \<and> plain (sp_Address p)"

definition peer_fields :: "server_peer \<Rightarrow> (string \<times> string) list" where
  "peer_fields p = [(''PublicKey'', sp_PublicKey p), (''AllowedIPs'', sp_Address p), (''PersistentKeepalive'', ''25'')]"

definition peer_items :: "server_peer \<Rightarrow> conf_item list" where
  "peer_items p = Section ''Peer'' # map (\<lambda>(k, v). Field k v) (peer_fields p)"

lemma read_peer:
  assumes "peer_ok p"
  shows "read_conf (BuildServerPeer p @ s) = peer_items p @ read_conf s"
proof -
  have "read_conf ((''[Peer]'' @ [nl] @ kv_line ''PublicKey'' (sp_PublicKey p) @
      kv_line ''AllowedIPs'' (sp_Address p) @ kv_line ''PersistentKeepalive'' (itoa persistentKeepalive)) @ s) =
      peer_items p @ read_conf s"
  proof -
    let ?k = "kv_line ''PersistentKeepalive'' (itoa persistentKeepalive) @ s"
    let ?a = "kv_line ''AllowedIPs'' (sp_Address p) @ ?k"
    have "read_conf ?k = Field ''PersistentKeepalive'' (itoa persistentKeepalive) # read_conf s"
      by (intro read_kv plain_25 key_ok_keys)
    moreover have "read_conf ?a = Field ''AllowedIPs'' (sp_Address p) # read_conf ?k"
      using assms by (intro read_kv key_ok_keys) (simp add: peer_ok_def)
    moreover have "read_conf (kv_line ''PublicKey'' (sp_PublicKey p) @ ?a) = Field ''PublicKey'' (sp_PublicKey p) # read_conf ?a"
      using assms by (intro read_kv key_ok_keys) (simp add: peer_ok_def)
    ultimately show ?thesis
      using read_section(1) [of "kv_line ''PublicKey'' (sp_PublicKey p) @ ?a"]
      by (simp add: peer_items_def peer_fields_def keepalive_text)
  qed
  moreover have "read_conf (''# '' @ sp_Name p @ nl # t) = read_conf t" for t
    using assms by (intro read_comment) (simp add: peer_ok_def)
  ultimately show ?thesis by (simp add: BuildServerPeer_def)
qed

lemma read_render:
  "\<forall>p \<in> set ps. peer_ok p \<Longrightarrow> read_conf (render_peers i ps @ s) = concat (map peer_items ps) @ read_conf s"
  proof (induction ps arbitrary: i)
  case (Cons p ps)
  have "read_conf (render_peers i (p # ps) @ s) = read_conf (BuildServerPeer p @ render_peers (i + 1) ps @ s)"
    by simp
  also have "\<dots> = peer_items p @ read_conf (render_peers (i + 1) ps @ s)"
    using Cons.prems by (intro read_peer) simp
  finally show ?case using Cons by simp
qed simp

lemma read_stanzas:
  "\<forall>p \<in> set ps. peer_ok p \<Longrightarrow>
    read_conf (concat (map (\<lambda>p. [nl] @ BuildServerPeer p) ps)) = concat (map peer_items ps)"
  by (induction ps) (simp_all add: read_peer)

lemma fields_foldr:
  "foldr add_item (map (\<lambda>(k, v). Field k v) fs) acc = (fs @ fst acc, snd acc)"
  by (induction fs) (auto simp: add_item_def)

lemma peer_sections_foldr:
  "foldr add_item (concat (map peer_items ps)) ([], []) = ([], map (\<lambda>p. (''Peer'', peer_fields p)) ps)"
proof (induction ps)
  case (Cons p ps)
  then show ?case
    by (simp add: peer_items_def fields_foldr) (simp add: add_item_def)
qed simp

lemma sections_peers: "sections (concat (map peer_items ps)) = map (\<lambda>p. (''Peer'', peer_fields p)) ps"
  by (simp add: sections_def peer_sections_foldr)

lemma sections_interface:
  "sections (Section s # map (\<lambda>(k, v). Field k v) fs @ concat (map peer_items ps)) =
    (s, fs) # map (\<lambda>p. (''Peer'', peer_fields p)) ps"
  by (simp add: sections_def fields_foldr peer_sections_foldr add_item_def)

subsection \<open>The order of the peers\<close>

text \<open>What \<open>addrLess\<close> compares: addresses that parse come first, by number; the others by text.\<close>

definition addr_rank :: "string \<Rightarrow> bool \<times> nat \<times> string" where
  "addr_rank a = (case addrSortKey a of Some v \<Rightarrow> (False, unat v, []) | None \<Rightarrow> (True, 0, a))"

lemma addrLess_rank: "addrLess a b \<longleftrightarrow> addr_rank a < addr_rank b"
  by (auto simp: addrLess_def addr_rank_def word_less_nat_alt split: option.split)

lemma enabledSorted_eq:
  "enabledSortedByAddress ps = sort_key (\<lambda>p. addr_rank (sp_Address p)) (filter sp_Enabled ps)"
  unfolding enabledSortedByAddress_def addrLess_rank
  by (rule stable_sort_by_key [of "\<lambda>p. addr_rank (sp_Address p)"])

lemma set_enabledSorted: "set (enabledSortedByAddress ps) = {p \<in> set ps. sp_Enabled p}"
  by (auto simp: enabledSorted_eq)

lemma enabledSorted_order_free:
  assumes "mset ps = mset qs" and "distinct (map (\<lambda>p. addr_rank (sp_Address p)) (filter sp_Enabled ps))"
  shows "enabledSortedByAddress ps = enabledSortedByAddress qs"
  unfolding enabledSorted_eq using assms by (intro sk.srt_order_free) simp_all

unbundle bit_operations_syntax

subsection \<open>Arithmetic on addresses\<close>

fun le_val :: "byte list \<Rightarrow> int" where
  "le_val [] = 0"
| "le_val (b # bs) = uint b + 256 * le_val bs"

lemma le_val_nonneg: "0 \<le> le_val bs"
  by (induction bs) auto

lemma le_val_less: "le_val bs < 256 ^ length bs"
proof (induction bs)
  case (Cons b bs)
  have "uint b \<le> 255" using uint_bounded [of b] by simp
  moreover have "le_val bs \<le> 256 ^ length bs - 1" using Cons by simp
  ultimately show ?case by simp
qed simp

lemma length_add_carry [simp]: "length (add_carry bs n) = length bs"
  by (induction bs n rule: add_carry.induct) auto

lemma byte_carry:
  fixes b :: byte and n :: int
  shows "uint (word_of_int ((uint b + n) AND 0xff) :: byte) = (uint b + n) mod 256"
    and "drop_bit 8 (uint b + n) = (uint b + n) div 256"
proof -
  have "(uint b + n) AND mask 8 = take_bit 8 (uint b + n)" by (simp add: take_bit_eq_mask)
  then have "(uint b + n) AND 0xff = (uint b + n) mod 256"
    by (simp add: mask_eq_exp_minus_1 take_bit_eq_mod)
  then show "uint (word_of_int ((uint b + n) AND 0xff) :: byte) = (uint b + n) mod 256"
    by (simp add: uint_word_of_int)
  show "drop_bit 8 (uint b + n) = (uint b + n) div 256" by (simp add: drop_bit_eq_div)
qed

lemma mod_mult_carry: "(b + n) mod 256 + 256 * ((v + (b + n) div 256) mod m) = (b + n + 256 * v) mod (256 * m)"
  if "0 < m" for b n v m :: int
proof -
  have "(b + n + 256 * v) mod (256 * m) = 256 * ((b + n + 256 * v) div 256 mod m) + (b + n + 256 * v) mod 256"
    using that by (simp add: zmod_zmult2_eq)
  then show ?thesis by (simp add: add.commute)
qed

lemma le_val_add_carry: "0 \<le> n \<Longrightarrow> le_val (add_carry bs n) = (le_val bs + n) mod 256 ^ length bs"
proof (induction bs n rule: add_carry.induct)
  case (2 b bs n)
  show ?case
  proof (cases "n > 0")
    case True
    have "0 \<le> uint b + n" using 2(2) by (simp add: add_nonneg_nonneg)
    then have "0 \<le> drop_bit 8 (uint b + n)" by (simp add: byte_carry)
    from 2(1) [OF True this] have "le_val (add_carry (b # bs) n) =
        (uint b + n) mod 256 + 256 * ((le_val bs + (uint b + n) div 256) mod 256 ^ length bs)"
      using True by (simp only: add_carry.simps if_True le_val.simps byte_carry)
    also have "\<dots> = (uint b + n + 256 * le_val bs) mod (256 * 256 ^ length bs)"
      by (rule mod_mult_carry) simp
    finally show ?thesis by (simp add: algebra_simps)
  next
    case False
    with 2(2) show ?thesis using le_val_less [of "b # bs"] le_val_nonneg [of "b # bs"] by simp
  qed
qed simp

lemma ip_u32_le_val:
  assumes "length x = 4"
  shows "ip_u32 x = word_of_int (le_val (rev x))"
proof -
  have or_add: "u32_of_bytes a b c d = push_bit 24 (ucast a) + push_bit 16 (ucast b) + push_bit 8 (ucast c) + ucast d" for a b c d :: byte
  proof -
    have "push_bit 24 (ucast a) AND push_bit 16 (ucast b) = (0 :: u32)"
      "(push_bit 24 (ucast a) OR push_bit 16 (ucast b)) AND push_bit 8 (ucast c) = (0 :: u32)"
      "(push_bit 24 (ucast a) OR push_bit 16 (ucast b) OR push_bit 8 (ucast c)) AND ucast d = (0 :: u32)"
      by (rule bit_word_eqI; auto simp: bit_simps dest: bit_imp_le_length)+
    then show ?thesis unfolding u32_of_bytes_def by (simp add: disjunctive_add_eq_or or.assoc)
  qed
  obtain a b c d where x: "x = [a, b, c, d]" using assms by (auto simp: length_4_iff)
  show ?thesis
    by (simp add: x ip_u32_def or_add push_bit_eq_mult distrib_left mult.commute mult.left_commute add.commute add.left_commute)
qed

lemma addToIP_value:
  assumes "length x = 4" and "0 \<le> n"
  shows "addToIP x n = u32_bytes (ip_u32 x + word_of_int n)"
proof -
  have l: "length (addToIP x n) = 4" using assms by (simp add: addToIP_def)
  have "ip_u32 (addToIP x n) = word_of_int ((le_val (rev x) + n) mod 2 ^ 32)"
    using assms l by (simp add: ip_u32_le_val) (simp add: addToIP_def le_val_add_carry)
  also have "\<dots> = word_of_int (le_val (rev x) + n)"
    unfolding word_of_int_eq_iff by (simp add: take_bit_eq_mod)
  also have "\<dots> = ip_u32 x + word_of_int n"
    using assms by (simp add: ip_u32_le_val)
  finally show ?thesis using l by (metis u32_bytes_ip)
qed

unbundle bit_operations_syntax

lemma base_plus_two_unat:
  fixes h :: u32
  assumes "n \<le> 30"
  shows "unat ((h AND NOT (mask (32 - n))) + 2) = unat (h AND NOT (mask (32 - n))) + 2"
    and "2 < (2::nat) ^ (32 - n)"
proof -
  let ?k = "32 - n" and ?b = "h AND NOT (mask (32 - n))"
  have b: "unat ?b = 2 ^ ?k * (unat h div 2 ^ ?k)" by (rule and_not_mask_unat)
  have four: "(4::nat) dvd 2 ^ ?k"
    using assms le_imp_power_dvd [of 2 ?k "2::nat"] by simp
  have "4 dvd unat ?b" unfolding b using four by simp
  moreover have "unat ?b < 4294967296" using unsigned_less [of ?b] by simp
  ultimately have less: "unat ?b + unat (2 :: u32) < 2 ^ LENGTH(32)" by simp presburger
  then show "unat (?b + 2) = unat ?b + 2" using unat_add_lem [of ?b 2] by simp
  show "2 < (2::nat) ^ ?k" using four assms by (auto dest: dvd_imp_le)
qed

lemma base_plus_two:
  fixes h :: u32
  assumes "n \<le> 30"
  shows "((h AND NOT (mask (32 - n))) + 2) AND NOT (mask (32 - n)) = h AND NOT (mask (32 - n))"
  using base_plus_two_unat(1) [OF assms, of h] base_plus_two_unat(2) [OF assms] same_block [of "h AND NOT (mask (32 - n))" "32 - n"]
  by (simp add: and.assoc)

lemma ResolverForVPC_v4:
  assumes "length bs = 4" and "n \<le> 32"
  shows "ResolverForVPC (dotted bs @ ''/'' @ itoa_nat n) =
    Inr (dotted (u32_bytes ((ip_u32 bs AND NOT (mask (32 - n))) + 2)))"
  using parse_cidr_v4 [OF assms] addToIP_value [of "u32_bytes (ip_u32 bs AND NOT (mask (32 - n)))" 2]
  by (simp add: ResolverForVPC_def v4_net_def Let_def)

lemma net_string_v4: "n \<le> 32 \<Longrightarrow>
    net_string (v4_net h n) = dotted (u32_bytes (h AND NOT (mask (32 - n)))) @ ''/'' @ itoa_nat n"
  by (simp add: net_string_def mask_length_cidr)

lemma OverlaySubnet_v4:
  assumes "length bs = 4" and "n \<le> 32"
  shows "OverlaySubnet (dotted bs @ ''/'' @ itoa_nat n) =
    Inr (dotted (u32_bytes (ip_u32 bs AND NOT (mask (32 - n)))) @ ''/'' @ itoa_nat n)"
  using parse_cidr_v4 [OF assms] net_string_v4 [OF assms(2)] by (simp add: OverlaySubnet_def)

subsection \<open>The interface block and the client's file\<close>

definition unblank :: "string \<Rightarrow> string" where
  "unblank v = filter (\<lambda>c. \<not> is_blank c) v"

definition one_line :: "string \<Rightarrow> bool" where
  "one_line v \<longleftrightarrow> nl \<notin> set v \<and> CHR ''#'' \<notin> set v"

definition field_items :: "(string \<times> string) list \<Rightarrow> conf_item list" where
  "field_items fs = map (\<lambda>(k, v). Field k v) fs"

lemma read_one_line: "key_ok k \<Longrightarrow> one_line v \<Longrightarrow> read_conf (kv_line k v @ s) = Field k (unblank v) # read_conf s"
  unfolding one_line_def unblank_def by (rule read_kv_blank) simp_all

lemma read_lines:
  "\<forall>(k, v) \<in> set kvs. key_ok k \<and> one_line v \<Longrightarrow>
    read_conf (concat (map (\<lambda>(k, v). kv_line k v) kvs) @ s) =
    field_items (map (\<lambda>(k, v). (k, unblank v)) kvs) @ read_conf s"
  by (induction kvs) (auto simp: read_one_line field_items_def)

definition iface_lines :: "server_interface \<Rightarrow> (string \<times> string) list" where
  "iface_lines i =
     [(''Address'', si_Address i), (''ListenPort'', itoa (si_ListenPort i)), (''PrivateKey'', si_PrivateKey i)]
     @ map (Pair ''PostUp'') (si_PostUp i) @ map (Pair ''PostDown'') (si_PostDown i)"

lemma BuildServerConf_lines:
  "BuildServerConf i ps = ''[Interface]'' @ nl # concat (map (\<lambda>(k, v). kv_line k v) (iface_lines i)) @
     concat (map (\<lambda>p. [nl] @ BuildServerPeer p) (enabledSortedByAddress ps))"
  by (simp add: BuildServerConf_def iface_lines_def comp_def)

lemma iface_keys: "(k, v) \<in> set (iface_lines i) \<Longrightarrow> key_ok k"
  by (auto simp: iface_lines_def)

lemma read_BuildServerConf:
  assumes "\<forall>(k, v) \<in> set (iface_lines i). one_line v" and "\<forall>p \<in> set ps. sp_Enabled p \<longrightarrow> peer_ok p"
  shows "sections (read_conf (BuildServerConf i ps)) =
    (''Interface'', map (\<lambda>(k, v). (k, unblank v)) (iface_lines i))
    # map (\<lambda>p. (''Peer'', peer_fields p)) (enabledSortedByAddress ps)"
proof -
  have "\<forall>p \<in> set (enabledSortedByAddress ps). peer_ok p"
    using assms(2) by (simp add: set_enabledSorted)
  moreover have "\<forall>(k, v) \<in> set (iface_lines i). key_ok k \<and> one_line v"
    using assms(1) iface_keys by blast
  ultimately show ?thesis
    unfolding BuildServerConf_lines read_section read_lines
    by (simp only: read_lines read_stanzas field_items_def sections_interface)
qed

lemma read_BuildServerPeers:
  assumes "\<forall>p \<in> set ps. sp_Enabled p \<longrightarrow> peer_ok p"
  shows "sections (read_conf (BuildServerPeers ps)) =
    map (\<lambda>p. (''Peer'', peer_fields p)) (enabledSortedByAddress ps)"
proof -
  have "\<forall>p \<in> set (enabledSortedByAddress ps). peer_ok p"
    using assms by (simp add: set_enabledSorted)
  from read_render [OF this, of 0 "[]"] show ?thesis by (simp add: BuildServerPeers_def sections_peers)
qed

definition client_lines :: "wg_client \<Rightarrow> string \<Rightarrow> (string \<times> string) list" where
  "client_lines c dns = [(''PrivateKey'', privateKeyPlaceholder), (''Address'', wc_Address c), (''DNS'', dns)]"

definition server_lines :: "string \<Rightarrow> string \<Rightarrow> string \<Rightarrow> (string \<times> string) list" where
  "server_lines key endpoint allowed =
     [(''PublicKey'', key), (''Endpoint'', endpoint), (''AllowedIPs'', allowed),
      (''PersistentKeepalive'', itoa persistentKeepalive)]"

definition allowed_of :: "string \<Rightarrow> string list \<Rightarrow> string" where
  "allowed_of q routes = (if q = ''split'' then join_with '', '' routes else ''0.0.0.0/0, ::/0'')"

lemma Build_lines:
  "Build c (ParseMode q) key endpoint dns routes =
    Inr (''[Interface]'' @ nl # concat (map (\<lambda>(k, v). kv_line k v) (client_lines c dns)) @ nl #
      ''[Peer]'' @ nl # concat (map (\<lambda>(k, v). kv_line k v) (server_lines key endpoint (allowed_of q routes))) @ [])"
  by (simp add: Build_def ParseMode_def ModeFull_def ModeSplit_def client_lines_def server_lines_def allowed_of_def
      fullTunnelAllowedIPs_def)

lemma sections_two:
  "sections (Section s # field_items fs @ Section t # field_items gs) = [(s, fs), (t, gs)]"
  by (simp add: sections_def field_items_def fields_foldr add_item_def)

lemma placeholder_one_line [simp]: "one_line privateKeyPlaceholder" "one_line (itoa persistentKeepalive)"
  "one_line ''0.0.0.0/0, ::/0''"
  by code_simp+

lemma one_line_join: "\<forall>r \<in> set rs. one_line r \<Longrightarrow> one_line (join_with '', '' rs)"
proof (induction "'', ''" rs rule: join_with.induct)
  case (3 w v vs)
  then show ?case by (simp add: one_line_def nl_def)
qed (simp_all add: one_line_def)

lemma read_Build:
  assumes "one_line (wc_Address c)" and "one_line dns" and "one_line key" and "one_line endpoint"
    and "\<forall>r \<in> set routes. one_line r"
  shows "\<exists>out. Build c (ParseMode q) key endpoint dns routes = Inr out \<and>
    sections (read_conf out) =
      [(''Interface'', map (\<lambda>(k, v). (k, unblank v)) (client_lines c dns)),
       (''Peer'', map (\<lambda>(k, v). (k, unblank v)) (server_lines key endpoint (allowed_of q routes)))]"
proof -
  have c: "\<forall>(k, v) \<in> set (client_lines c dns). key_ok k \<and> one_line v"
    using assms by (simp add: client_lines_def)
  have "one_line (allowed_of q routes)" using assms(5) by (simp add: allowed_of_def one_line_join)
  then have s: "\<forall>(k, v) \<in> set (server_lines key endpoint (allowed_of q routes)). key_ok k \<and> one_line v"
    using assms by (simp add: server_lines_def)
  let ?cl = "concat (map (\<lambda>(k, v). kv_line k v) (client_lines c dns))"
  let ?sl = "concat (map (\<lambda>(k, v). kv_line k v) (server_lines key endpoint (allowed_of q routes)))"
  have "read_conf (''[Interface]'' @ nl # ?cl @ nl # ''[Peer]'' @ nl # ?sl @ []) =
      Section ''Interface'' # field_items (map (\<lambda>(k, v). (k, unblank v)) (client_lines c dns)) @
      Section ''Peer'' # field_items (map (\<lambda>(k, v). (k, unblank v)) (server_lines key endpoint (allowed_of q routes)))"
    unfolding read_section read_lines [OF c] read_empty_line read_lines [OF s] by simp
  then show ?thesis unfolding Build_lines sections_two [symmetric] by simp
qed

unbundle bit_operations_syntax

subsection \<open>Properties\<close>

text \<open>
  C14. The peers-only fragment, read line by line as \<^verbatim>\<open>wg\<close> reads it, is one \<^verbatim>\<open>[Peer]\<close> section
  for each enabled client and nothing else (no interface block, no private key), in the order of
  their addresses; a client's name, whatever it is, stays a comment.
\<close>

theorem BuildServerPeers_reads_back:
  assumes "\<forall>p \<in> set ps. sp_Enabled p \<longrightarrow> peer_ok p"
  shows "sections (read_conf (BuildServerPeers ps)) =
    map (\<lambda>p. (''Peer'', [(''PublicKey'', sp_PublicKey p), (''AllowedIPs'', sp_Address p),
                         (''PersistentKeepalive'', ''25'')]))
      (sort_key (\<lambda>p. addr_rank (sp_Address p)) (filter sp_Enabled ps))"
  using read_BuildServerPeers [OF assms] by (simp add: enabledSorted_eq peer_fields_def)

definition peer_a :: server_peer where
  "peer_a = \<lparr>sp_Name = ''a # b'', sp_PublicKey = ''KA='', sp_Address = ''10.0.0.10/32'', sp_Enabled = True\<rparr>"
definition peer_b :: server_peer where
  "peer_b = \<lparr>sp_Name = [], sp_PublicKey = ''KB='', sp_Address = ''10.0.0.2/32'', sp_Enabled = True\<rparr>"

lemma peers_ok [simp]: "peer_ok peer_a" "peer_ok peer_b"
  by code_simp+

theorem BuildServerPeers_reads_back_witness:
  "\<exists>ss. sections (read_conf (BuildServerPeers [peer_a, peer_b])) = ss \<and> length ss = 2"
proof -
  have "\<forall>p \<in> set [peer_a, peer_b]. sp_Enabled p \<longrightarrow> peer_ok p" by simp
  from BuildServerPeers_reads_back [OF this] show ?thesis by (simp add: peer_a_def peer_b_def)
qed

text \<open>
  The server's file reads back as the interface block with every given line, in order, then
  the enabled peers in the order of their addresses.
\<close>

theorem BuildServerConf_reads_back:
  assumes "\<forall>(k, v) \<in> set (iface_lines i). one_line v" and "\<forall>p \<in> set ps. sp_Enabled p \<longrightarrow> peer_ok p"
  shows "sections (read_conf (BuildServerConf i ps)) =
    (''Interface'', map (\<lambda>(k, v). (k, unblank v)) (iface_lines i))
    # map (\<lambda>p. (''Peer'', peer_fields p)) (sort_key (\<lambda>p. addr_rank (sp_Address p)) (filter sp_Enabled ps))"
  using read_BuildServerConf [OF assms] by (simp add: enabledSorted_eq)

definition wg0 :: server_interface where
  "wg0 = \<lparr>si_Address = ''10.0.0.1/24'', si_ListenPort = 51820, si_PrivateKey = ''S='',
     si_PostUp = [''iptables -A FORWARD -i wg0 -j ACCEPT''], si_PostDown = []\<rparr>"

lemma one_line_itoa [simp]: "one_line (itoa n)"
  by (auto simp: one_line_def itoa_def nl_def is_digit_def)

lemma wg0_one_line: "\<forall>(k, v) \<in> set (iface_lines wg0). one_line v"
proof -
  have "one_line ''10.0.0.1/24''" "one_line ''S=''" "one_line ''iptables -A FORWARD -i wg0 -j ACCEPT''" by code_simp+
  then show ?thesis by (simp add: iface_lines_def wg0_def)
qed

theorem BuildServerConf_reads_back_witness:
  "fst (hd (sections (read_conf (BuildServerConf wg0 [peer_a])))) = ''Interface''"
  using BuildServerConf_reads_back [OF wg0_one_line, of "[peer_a]"] by simp

text \<open>
  The rendered files do not depend on the order in which the clients are listed, as long as no
  two enabled clients have the same address.
\<close>

theorem server_files_order_free:
  assumes "mset ps = mset qs"
    and "distinct (map (\<lambda>p. addr_rank (sp_Address p)) (filter sp_Enabled ps))"
  shows "BuildServerPeers ps = BuildServerPeers qs \<and> BuildServerConf i ps = BuildServerConf i qs"
  using enabledSorted_order_free [OF assms] by (simp add: BuildServerPeers_def BuildServerConf_def)

definition peer_off :: server_peer where "peer_off = peer_b\<lparr>sp_Enabled := False\<rparr>"

theorem server_files_order_free_witness:
  "BuildServerPeers [peer_a, peer_off] = BuildServerPeers [peer_off, peer_a]"
  using server_files_order_free [of "[peer_a, peer_off]" "[peer_off, peer_a]" wg0]
  by (simp add: peer_off_def)

text \<open>
  For every IPv4 block of at most 30 bits the resolver is the address two above the network
  address, and it lies in the block: the carry of the byte-wise addition is right for every base.
\<close>

theorem ResolverForVPC_base_plus_two:
  assumes "length bs = 4" and "n \<le> 30"
  shows "\<exists>r. ResolverForVPC (dotted bs @ ''/'' @ itoa_nat n) = Inr (dotted (u32_bytes r)) \<and>
    unat r = unat (ip_u32 bs AND NOT (mask (32 - n))) + 2 \<and> net_contains (v4_net (ip_u32 bs) n) (u32_bytes r)"
proof (intro exI conjI)
  let ?b = "ip_u32 bs AND NOT (mask (32 - n))"
  show "ResolverForVPC (dotted bs @ ''/'' @ itoa_nat n) = Inr (dotted (u32_bytes (?b + 2)))"
    using assms by (intro ResolverForVPC_v4) simp_all
  show "net_contains (v4_net (ip_u32 bs) n) (u32_bytes (?b + 2))"
    using assms base_plus_two [of n "ip_u32 bs"] by (simp add: net_contains_v4)
  show "unat (?b + 2) = unat ?b + 2"
    using assms base_plus_two_unat(1) [of n "ip_u32 bs"] by simp
qed

theorem ResolverForVPC_base_plus_two_witness:
  "\<exists>r. ResolverForVPC (dotted [10, 23, 0, 0] @ ''/'' @ itoa_nat 16) = Inr (dotted (u32_bytes r))"
  using ResolverForVPC_base_plus_two [of "[10, 23, 0, 0]" 16] by auto

text \<open>
  C21. Whatever the query string, the client's file is produced, and it reads back as the client's
  address and resolver, the server's key and endpoint, the placeholder in place of the private
  key, and the routes of the mode the query selects: only \<^verbatim>\<open>split\<close> leaves the full tunnel.
\<close>

theorem Build_reads_back:
  assumes "one_line (wc_Address c)" and "one_line dns" and "one_line key" and "one_line endpoint"
    and "\<forall>r \<in> set routes. one_line r"
  shows "\<exists>out. Build c (ParseMode q) key endpoint dns routes = Inr out \<and>
    sections (read_conf out) =
      [(''Interface'', [(''PrivateKey'', unblank privateKeyPlaceholder), (''Address'', unblank (wc_Address c)),
                        (''DNS'', unblank dns)]),
       (''Peer'', [(''PublicKey'', unblank key), (''Endpoint'', unblank endpoint),
                   (''AllowedIPs'', unblank (if q = ''split'' then join_with '', '' routes else ''0.0.0.0/0, ::/0'')),
                   (''PersistentKeepalive'', ''25'')])]"
proof -
  have "unblank ''25'' = ''25''" by code_simp
  then show ?thesis
    using read_Build [OF assms, of q]
    by (simp add: client_lines_def server_lines_def allowed_of_def keepalive_text)
qed

theorem Build_reads_back_witness:
  "\<exists>out. Build \<lparr>wc_Name = ''phone'', wc_Address = ''10.0.0.2/32''\<rparr> (ParseMode ''full'') ''K'' ''h:51820'' ''10.0.0.1'' [] = Inr out"
proof -
  have "one_line ''10.0.0.2/32''" "one_line ''10.0.0.1''" "one_line ''K''" "one_line ''h:51820''" by code_simp+
  then show ?thesis
    using Build_reads_back [of "\<lparr>wc_Name = ''phone'', wc_Address = ''10.0.0.2/32''\<rparr>" "''10.0.0.1''" "''K''" "''h:51820''" "[]" "''full''"]
    by auto
qed

end
