(* ===== verification/WgSync.thy ===== *)
theory WgSync
  imports Db WgConfig
begin

text \<open>
  \<^verbatim>\<open>dashboard/internal/wgsync/wgsync.go\<close>: the live-apply step. The host is its files (contents and
  mode), the outcomes the next system calls will have, and the history of every state of the files
  that another process could have seen. The privileged helper is a parameter, a program that runs
  on the host.
\<close>

subsection \<open>The host\<close>

type_synonym files = "string \<rightharpoonup> string \<times> nat"

text \<open>
  A fault is the error of a system call and, for a write, how many bytes it wrote before failing.
\<close>

record host =
  host_files :: files
  sys_faults :: "(string \<times> nat) option list"
  seen :: "files list"

definition put_files :: "files \<Rightarrow> host \<Rightarrow> host" where
  "put_files f h = h\<lparr>host_files := f, seen := f # seen h\<rparr>"

definition sys_call :: "(files \<Rightarrow> files) \<Rightarrow> (nat \<Rightarrow> files \<Rightarrow> files) \<Rightarrow> host \<Rightarrow> string option \<times> host" where
  "sys_call good bad h =
     (case sys_faults h of
        [] \<Rightarrow> (None, put_files (good (host_files h)) h)
      | None # fs \<Rightarrow> (None, put_files (good (host_files h)) (h\<lparr>sys_faults := fs\<rparr>))
      | Some (e, n) # fs \<Rightarrow> (Some e, put_files (bad n (host_files h)) (h\<lparr>sys_faults := fs\<rparr>)))"

definition sys_write :: "string \<Rightarrow> string \<Rightarrow> host \<Rightarrow> string option \<times> host" where
  "sys_write name data =
     sys_call (\<lambda>f. f(name \<mapsto> (data, 384))) (\<lambda>n f. f(name \<mapsto> (take n data, 384)))"

definition sys_chmod :: "string \<Rightarrow> nat \<Rightarrow> host \<Rightarrow> string option \<times> host" where
  "sys_chmod name m = sys_call (\<lambda>f. f(name := map_option (\<lambda>(c, _). (c, m)) (f name))) (\<lambda>_ f. f)"

definition sys_close :: "host \<Rightarrow> string option \<times> host" where
  "sys_close = sys_call (\<lambda>f. f) (\<lambda>_ f. f)"

definition sys_rename :: "string \<Rightarrow> string \<Rightarrow> host \<Rightarrow> string option \<times> host" where
  "sys_rename a b = sys_call (\<lambda>f. if a = b then f else f(b := f a, a := None)) (\<lambda>_ f. f)"

definition sys_remove :: "string \<Rightarrow> host \<Rightarrow> string option \<times> host" where
  "sys_remove name = sys_call (\<lambda>f. f(name := None)) (\<lambda>_ f. f)"

text \<open>
  \<^verbatim>\<open>filepath.Dir\<close> of a clean path, and \<^verbatim>\<open>os.CreateTemp\<close> with the random part of the name given: it
  creates an empty file of mode 0600 under a name that no file has.
\<close>

definition path_dir :: "string \<Rightarrow> string" where
  "path_dir p =
     (if CHR ''/'' \<notin> set p then ''.''
      else (let d = rev (tl (dropWhile (\<lambda>c. c \<noteq> CHR ''/'') (rev p))) in if d = [] then ''/'' else d))"

definition temp_name :: "string \<Rightarrow> string \<Rightarrow> string" where
  "temp_name dir rnd = (if last dir = CHR ''/'' then dir else dir @ ''/'') @ ''.peers.conf-'' @ rnd"

definition sys_create_temp :: "string \<Rightarrow> string \<Rightarrow> host \<Rightarrow> (string + string) \<times> host" where
  "sys_create_temp dir rnd h =
     (let name = temp_name dir rnd
      in if host_files h name \<noteq> None then (Inl ''file exists'', h)
         else (case sys_call (\<lambda>f. f(name \<mapsto> ([], 384))) (\<lambda>_ f. f) h of
                 (Some e, h') \<Rightarrow> (Inl e, h')
               | (None, h') \<Rightarrow> (Inr name, h')))"

subsection \<open>The applier\<close>

definition DefaultStagePath :: string where
  "DefaultStagePath = ''/var/lib/wireguard-dashboard/peers.conf''"

definition DefaultHelperPath :: string where "DefaultHelperPath = ''/usr/local/sbin/wg-sync''"

text \<open>0640.\<close>

definition stageFileMode :: nat where "stageFileMode = 416"

text \<open>What a failed command gives: its message, and its stderr when it ran and exited.\<close>

datatype cmd_error = CmdExit string string | CmdFailed string

type_synonym runner = "string list \<Rightarrow> host \<Rightarrow> cmd_error option \<times> host"

record wg_applier =
  Runner :: runner
  StagePath :: string
  HelperPath :: string

definition New :: "runner \<Rightarrow> wg_applier" where
  "New r = \<lparr>Runner = r, StagePath = DefaultStagePath, HelperPath = DefaultHelperPath\<rparr>"

text \<open>
  The early returns of \<^verbatim>\<open>writeStaged\<close> run the deferred \<^verbatim>\<open>Remove\<close>; the first two close the file.
\<close>

definition writeStaged :: "wg_applier \<Rightarrow> string \<Rightarrow> string \<Rightarrow> host \<Rightarrow> string option \<times> host" where
  "writeStaged a rnd data h =
     (case sys_create_temp (path_dir (StagePath a)) rnd h of
        (Inl e, h1) \<Rightarrow> (Some (''wgsync: create temp staging file in '' @ path_dir (StagePath a) @ '': '' @ e), h1)
      | (Inr tmp, h1) \<Rightarrow>
          (case sys_write tmp data h1 of
             (Some e, h2) \<Rightarrow> (Some (''wgsync: write staging file: '' @ e), snd (sys_remove tmp (snd (sys_close h2))))
           | (None, h2) \<Rightarrow>
               (case sys_chmod tmp stageFileMode h2 of
                  (Some e, h3) \<Rightarrow> (Some (''wgsync: chmod staging file: '' @ e), snd (sys_remove tmp (snd (sys_close h3))))
                | (None, h3) \<Rightarrow>
                    (case sys_close h3 of
                       (Some e, h4) \<Rightarrow> (Some (''wgsync: close staging file: '' @ e), snd (sys_remove tmp h4))
                     | (None, h4) \<Rightarrow>
                         (case sys_rename tmp (StagePath a) h4 of
                            (Some e, h5) \<Rightarrow> (Some (''wgsync: rename staging file to '' @ StagePath a @ '': '' @ e),
                                             snd (sys_remove tmp h5))
                          | (None, h5) \<Rightarrow> (None, snd (sys_remove tmp h5)))))))"

definition peer_of_client :: "client \<Rightarrow> server_peer" where
  "peer_of_client c = \<lparr>sp_Name = Name c, sp_PublicKey = PublicKey c, sp_Address = Address c, sp_Enabled = Enabled c\<rparr>"

definition helper_error :: "wg_applier \<Rightarrow> cmd_error \<Rightarrow> string" where
  "helper_error a e =
     (case e of
        CmdExit msg stderr \<Rightarrow>
          (if stderr \<noteq> [] then ''wgsync: sudo '' @ HelperPath a @ '': '' @ msg @ '': '' @ trim_space stderr
           else ''wgsync: sudo '' @ HelperPath a @ '': '' @ msg)
      | CmdFailed msg \<Rightarrow> ''wgsync: sudo '' @ HelperPath a @ '': '' @ msg)"

definition Apply :: "wg_applier \<Rightarrow> string \<Rightarrow> client list \<Rightarrow> host \<Rightarrow> string option \<times> host" where
  "Apply a rnd cs h =
     (case writeStaged a rnd (BuildServerPeers (map peer_of_client cs)) h of
        (Some e, h1) \<Rightarrow> (Some e, h1)
      | (None, h1) \<Rightarrow>
          (case Runner a [''sudo'', HelperPath a] h1 of
             (Some e, h2) \<Rightarrow> (Some (helper_error a e), h2)
           | (None, h2) \<Rightarrow> (None, h2)))"

subsection \<open>What the staging does to the file\<close>

text \<open>A call on another file: the staged file and its history up to here are kept.\<close>

definition steady :: "string \<Rightarrow> (host \<Rightarrow> 'a \<times> host) \<Rightarrow> bool" where
  "steady p m \<longleftrightarrow> (\<forall>h r h'. m h = (r, h') \<longrightarrow>
     host_files h' p = host_files h p \<and>
     (\<exists>fs. seen h' = fs @ seen h \<and> list_all (\<lambda>f. f p = host_files h p) fs))"

lemma steadyD: "steady p m \<Longrightarrow> m h = (r, h') \<Longrightarrow> host_files h' p = host_files h p \<and>
    (\<exists>fs. seen h' = fs @ seen h \<and> list_all (\<lambda>f. f p = host_files h p) fs)"
  unfolding steady_def by blast

lemma steady_call:
  "(\<And>f. good f p = f p) \<Longrightarrow> (\<And>n f. bad n f p = f p) \<Longrightarrow> steady p (sys_call good bad)"
  unfolding steady_def sys_call_def put_files_def
  by (auto split: list.splits option.splits prod.splits)

lemma steady_other [simp]:
  "p \<noteq> q \<Longrightarrow> steady p (sys_write q d)" "p \<noteq> q \<Longrightarrow> steady p (sys_chmod q m)" "steady p sys_close"
  "p \<noteq> q \<Longrightarrow> steady p (sys_remove q)"
  unfolding sys_write_def sys_chmod_def sys_close_def sys_remove_def by (auto intro!: steady_call)

lemma steady_create: "p \<noteq> temp_name d r \<Longrightarrow> steady p (sys_create_temp d r)"
proof -
  assume p: "p \<noteq> temp_name d r"
  have "steady p (sys_call (\<lambda>f. f(temp_name d r \<mapsto> ([], 384))) (\<lambda>_ f. f))"
    using p by (intro steady_call) simp_all
  from steadyD [OF this] show ?thesis
    unfolding steady_def sys_create_temp_def Let_def
    by (auto split: if_splits prod.splits option.splits)
qed

lemma sys_call_None:
  "sys_call good bad h = (None, h') \<Longrightarrow>
    host_files h' = good (host_files h) \<and> seen h' = good (host_files h) # seen h"
  by (auto simp: sys_call_def put_files_def split: list.splits option.splits)

lemma sys_call_Some:
  "sys_call good bad h = (Some e, h') \<Longrightarrow>
    \<exists>n. host_files h' = bad n (host_files h) \<and> seen h' = bad n (host_files h) # seen h"
  by (auto simp: sys_call_def put_files_def split: list.splits option.splits)

text \<open>From \<open>h0\<close> on, only states were seen in which the file is as it was then.\<close>

definition stays :: "string \<Rightarrow> host \<Rightarrow> host \<Rightarrow> bool" where
  "stays p h0 h \<longleftrightarrow> host_files h p = host_files h0 p \<and>
     (\<exists>fs. seen h = fs @ seen h0 \<and> list_all (\<lambda>f. f p = host_files h0 p) fs)"

lemma stays_refl [simp]: "stays p h h"
  by (simp add: stays_def)

lemma stays_step:
  assumes "steady p m" and "stays p h0 h" and "m h = (r, h')"
  shows "stays p h0 h'"
  using steadyD [OF assms(1,3)] assms(2) unfolding stays_def by fastforce

lemma stays_snd: "steady p m \<Longrightarrow> stays p h0 h \<Longrightarrow> stays p h0 (snd (m h))"
  by (rule stays_step [of p m h0 h "fst (m h)"]) simp_all

lemma stays_rename_fails:
  assumes "stays p h0 h" and "sys_rename a b h = (Some e, h')"
  shows "stays p h0 h'"
proof -
  have "host_files h' = host_files h" "seen h' = host_files h # seen h"
    using sys_call_Some assms(2) unfolding sys_rename_def by fastforce+
  with assms(1) show ?thesis by (auto simp: stays_def intro: exI [of _ "_ # _"])
qed

lemma create_name: "sys_create_temp d rnd h = (Inr t, h') \<Longrightarrow> t = temp_name d rnd"
  by (auto simp: sys_create_temp_def Let_def split: if_splits prod.splits option.splits)

lemma writeStaged_fails:
  assumes "writeStaged a rnd data h = (Some e, h')" and "StagePath a \<noteq> temp_name (path_dir (StagePath a)) rnd"
  shows "stays (StagePath a) h h'"
proof -
  let ?p = "StagePath a" and ?t = "temp_name (path_dir (StagePath a)) rnd"
  note st = steady_other(1) [OF assms(2), of data] steady_other(2) [OF assms(2), of stageFileMode]
    steady_other(3) [of ?p] steady_create [OF assms(2)]
  note rm = steady_other(4) [OF assms(2)]
  obtain r1 h1 where 1: "sys_create_temp (path_dir ?p) rnd h = (r1, h1)" by fastforce
  obtain r2 h2 where 2: "sys_write ?t data h1 = (r2, h2)" by fastforce
  obtain r3 h3 where 3: "sys_chmod ?t stageFileMode h2 = (r3, h3)" by fastforce
  obtain r4 h4 where 4: "sys_close h3 = (r4, h4)" by fastforce
  obtain r5 h5 where 5: "sys_rename ?t ?p h4 = (r5, h5)" by fastforce
  have s1: "stays ?p h h1" by (rule stays_step [OF st(4) stays_refl 1])
  have s2: "stays ?p h h2" by (rule stays_step [OF st(1) s1 2])
  have s3: "stays ?p h h3" by (rule stays_step [OF st(2) s2 3])
  have s4: "stays ?p h h4" by (rule stays_step [OF st(3) s3 4])
  have "h' = h1 \<or> h' = snd (sys_remove ?t (snd (sys_close h2))) \<or> h' = snd (sys_remove ?t (snd (sys_close h3))) \<or>
      h' = snd (sys_remove ?t h4) \<or> (r5 \<noteq> None \<and> h' = snd (sys_remove ?t h5))"
  proof (cases r1)
    case (Inl e)
    with assms(1) 1 show ?thesis by (simp add: writeStaged_def)
  next
    case (Inr t)
    then have "t = ?t" using 1 create_name by blast
    with assms(1) Inr 1 2 3 4 5 show ?thesis
      by (cases r2; cases r3; cases r4; cases r5) (simp_all add: writeStaged_def)
  qed
  moreover have "stays ?p h h5" if "r5 \<noteq> None"
    using that 5 stays_rename_fails [OF s4] by auto
  ultimately show ?thesis using s1 s2 s3 s4 stays_snd [OF rm] stays_snd [OF st(3)] by metis
qed

lemma writeStaged_succeeds:
  assumes "writeStaged a rnd data h = (None, h')" and "StagePath a \<noteq> temp_name (path_dir (StagePath a)) rnd"
  shows "host_files h' (StagePath a) = Some (data, stageFileMode) \<and>
    (\<exists>h0 h1. stays (StagePath a) h h0 \<and> seen h1 = host_files h1 # seen h0 \<and>
      host_files h1 (StagePath a) = Some (data, stageFileMode) \<and> stays (StagePath a) h1 h')"
proof -
  let ?p = "StagePath a" and ?t = "temp_name (path_dir (StagePath a)) rnd"
  note st = steady_other(1) [OF assms(2), of data] steady_other(2) [OF assms(2), of stageFileMode]
    steady_other(3) [of ?p] steady_create [OF assms(2)] steady_other(4) [OF assms(2)]
  obtain r1 h1 where c1: "sys_create_temp (path_dir ?p) rnd h = (r1, h1)" by fastforce
  obtain r2 h2 where c2: "sys_write ?t data h1 = (r2, h2)" by fastforce
  obtain r3 h3 where c3: "sys_chmod ?t stageFileMode h2 = (r3, h3)" by fastforce
  obtain r4 h4 where c4: "sys_close h3 = (r4, h4)" by fastforce
  obtain r5 h5 where c5: "sys_rename ?t ?p h4 = (r5, h5)" by fastforce
  have "r1 = Inr ?t \<and> r2 = None \<and> r3 = None \<and> r4 = None \<and> r5 = None \<and> h' = snd (sys_remove ?t h5)"
  proof (cases r1)
    case (Inl e)
    with assms(1) c1 show ?thesis by (simp add: writeStaged_def)
  next
    case (Inr t)
    then have "t = ?t" using c1 create_name by blast
    with assms(1) Inr c1 c2 c3 c4 c5 show ?thesis
      by (cases r2; cases r3; cases r4; cases r5) (simp_all add: writeStaged_def)
  qed
  then have 1: "sys_create_temp (path_dir ?p) rnd h = (Inr ?t, h1)"
    and 2: "sys_write ?t data h1 = (None, h2)" and 3: "sys_chmod ?t stageFileMode h2 = (None, h3)"
    and 4: "sys_close h3 = (None, h4)" and 5: "sys_rename ?t ?p h4 = (None, h5)" and 6: "h' = snd (sys_remove ?t h5)"
    using c1 c2 c3 c4 c5 by simp_all
  have s4: "stays ?p h h4"
    using stays_step [OF st(3) stays_step [OF st(2) stays_step [OF st(1) stays_step [OF st(4) stays_refl 1] 2] 3] 4] .
  have "host_files h2 ?t = Some (data, 384)"
    using sys_call_None [OF 2 [unfolded sys_write_def]] by simp
  then have "host_files h4 ?t = Some (data, stageFileMode)"
    using sys_call_None [OF 3 [unfolded sys_chmod_def]] sys_call_None [OF 4 [unfolded sys_close_def]] by simp
  then have f5: "host_files h5 ?p = Some (data, stageFileMode)" "seen h5 = host_files h5 # seen h4"
    using sys_call_None [OF 5 [unfolded sys_rename_def]] assms(2) by simp_all
  have "stays ?p h5 h'" unfolding 6 by (rule stays_snd [OF st(5) stays_refl])
  moreover from this have "host_files h' ?p = Some (data, stageFileMode)" using f5 by (simp add: stays_def)
  ultimately show ?thesis using s4 f5 by blast
qed

text \<open>The default path is never a temporary name: its base starts with another character.\<close>

lemma default_stage_fresh: "DefaultStagePath \<noteq> temp_name (path_dir DefaultStagePath) rnd"
proof -
  have "path_dir DefaultStagePath = ''/var/lib/wireguard-dashboard''" by code_simp
  then show ?thesis by (simp add: DefaultStagePath_def temp_name_def)
qed

text \<open>
  From \<open>h\<close> to \<open>h'\<close> the file \<open>p\<close> went from what it was to the content \<open>c\<close> in one step; no other
  state of it was ever seen.
\<close>

definition swapped :: "string \<Rightarrow> string \<times> nat \<Rightarrow> host \<Rightarrow> host \<Rightarrow> bool" where
  "swapped p c h h' \<longleftrightarrow> host_files h' p = Some c \<and>
     (\<exists>h0 h1. stays p h h0 \<and> seen h1 = host_files h1 # seen h0 \<and> host_files h1 p = Some c \<and> stays p h1 h')"

lemma Apply_outcome:
  assumes "Apply (New run) rnd cs h = (res, h')"
  shows "res \<noteq> None \<and> stays DefaultStagePath h h' \<or>
    (\<exists>h1 rr. swapped DefaultStagePath (BuildServerPeers (map peer_of_client cs), stageFileMode) h h1 \<and>
      run [''sudo'', DefaultHelperPath] h1 = (rr, h') \<and> (res = None) = (rr = None))"
proof -
  have n: "StagePath (New run) = DefaultStagePath" "HelperPath (New run) = DefaultHelperPath" "Runner (New run) = run"
    by (simp_all add: New_def)
  have fresh: "StagePath (New run) \<noteq> temp_name (path_dir (StagePath (New run))) rnd"
    unfolding n by (rule default_stage_fresh)
  obtain w h1 where w: "writeStaged (New run) rnd (BuildServerPeers (map peer_of_client cs)) h = (w, h1)" by fastforce
  show ?thesis
  proof (cases w)
    case (Some e)
    with assms w have "res = Some e" "h' = h1" by (simp_all add: Apply_def)
    moreover have "stays DefaultStagePath h h1"
      using writeStaged_fails [OF _ fresh] w Some by (simp add: n)
    ultimately show ?thesis by simp
  next
    case None
    have "swapped DefaultStagePath (BuildServerPeers (map peer_of_client cs), stageFileMode) h h1"
      using writeStaged_succeeds [OF w [unfolded None] fresh] unfolding swapped_def n .
    moreover obtain rr h2 where "run [''sudo'', DefaultHelperPath] h1 = (rr, h2)" by fastforce
    ultimately show ?thesis
      using assms w None n by (auto simp: Apply_def split: option.splits)
  qed
qed

text \<open>
  C13. Whatever system call fails, no other process ever sees the staged file with anything but its
  old content or the complete new one, and the privileged helper runs only after the complete
  rendering of the clients has replaced the file; success means that the helper succeeded.
\<close>

theorem Apply_stages_then_syncs:
  "let (res, h') = Apply (New run) rnd cs h in
     (res \<noteq> None \<and> stays DefaultStagePath h h') \<or>
     (\<exists>h1 rr. swapped DefaultStagePath (BuildServerPeers (map peer_of_client cs), stageFileMode) h h1 \<and>
       run [''sudo'', DefaultHelperPath] h1 = (rr, h') \<and> (res = None) = (rr = None))"
proof -
  obtain res h' where a: "Apply (New run) rnd cs h = (res, h')" by fastforce
  show ?thesis using Apply_outcome [OF a] by (simp only: a Let_def prod.case)
qed

end
