(* ===== verification/Live.thy ===== *)
theory Live
  imports Service WgSync
begin

text \<open>
  The client service with the live-apply step of \<^verbatim>\<open>wgsync\<close> wired in, as \<^verbatim>\<open>main.go\<close> does: what a
  method that returns success has brought to the WireGuard interface.
\<close>

subsection \<open>Success means that the final tables were applied\<close>

text \<open>
  A computation under the applier \<open>A\<close> whose success implies that \<open>A\<close> accepted the clients that the
  tables hold at the end.
\<close>

definition applied :: "'w applier \<Rightarrow> tables \<Rightarrow> bool" where
  "applied A t \<longleftrightarrow> (\<exists>w w'. applier_Apply A (listed t) w = (None, w'))"

definition applies :: "'w applier \<Rightarrow> ('w, 'a) svc \<Rightarrow> bool" where
  "applies A m \<longleftrightarrow> (\<forall>s r s'. m s = (Inr r, s') \<and> applier s = A \<longrightarrow> applied A (tabs (svc_db s')))"

definition same_applier :: "('w, 'a) svc \<Rightarrow> bool" where
  "same_applier m \<longleftrightarrow> (\<forall>s. applier (snd (m s)) = applier s)"

lemma appliesD: "applies A m \<Longrightarrow> m s = (Inr r, s') \<Longrightarrow> applier s = A \<Longrightarrow> applied A (tabs (svc_db s'))"
  unfolding applies_def by blast

lemma same_applier_with_db [simp, intro]: "same_applier (with_db what m)"
  by (auto simp: same_applier_def with_db_def split: prod.splits sum.splits)

lemma applies_applyLocked: "applies A applyLocked"
  unfolding applies_def applied_def using applyLocked_Inr by (metis (full_types) old.unit.exhaust)

lemma applies_tail:
  assumes "applies A m" and "\<And>x. svc_reads (f x)"
  shows "applies A (svc_bind m f)"
  unfolding applies_def
proof (intro allI impI, elim conjE)
  fix s r s' assume "svc_bind m f s = (Inr r, s')" and a: "applier s = A"
  then obtain x s1 where m: "m s = (Inr x, s1)" and f: "f x s1 = (Inr r, s')" by (auto simp: svc_bind_Inr)
  from appliesD [OF assms(1) m a] svc_readsD [OF assms(2) f] show "applied A (tabs (svc_db s'))" by simp
qed

lemma applies_head:
  assumes "same_applier m" and "\<And>x. applies A (f x)"
  shows "applies A (svc_bind m f)"
  unfolding applies_def
proof (intro allI impI, elim conjE)
  fix s r s' assume "svc_bind m f s = (Inr r, s')" and a: "applier s = A"
  then obtain x s1 where m: "m s = (Inr x, s1)" and f: "f x s1 = (Inr r, s')" by (auto simp: svc_bind_Inr)
  have "applier s1 = A" using assms(1) m a by (metis same_applier_def snd_conv)
  from appliesD [OF assms(2) f this] show "applied A (tabs (svc_db s'))" .
qed

lemma applies_fail [simp]: "applies A (\<lambda>s. (Inl e, s))"
  by (simp add: applies_def)

lemma applies_cases:
  "(\<And>x. applies A (f x)) \<Longrightarrow> applies A (\<lambda>s. case g s of Inl e \<Rightarrow> (Inl (h e), s) | Inr x \<Rightarrow> f x s)"
  "(\<And>x. applies A (f x)) \<Longrightarrow> applies A (\<lambda>s. case k s of None \<Rightarrow> (Inl c, s) | Some x \<Rightarrow> f x s)"
  unfolding applies_def by (auto split: sum.splits option.splits)

lemma add_insert_applies: "applies A (add_insert rec)"
  unfolding add_insert_def
  by (intro applies_head applies_tail applies_applyLocked same_applier_with_db svc_reads_bind svc_reads_save svc_reads_return)

lemma update_write_applies: "applies A (update_write p u)"
  unfolding update_write_def
  by (intro applies_head applies_tail applies_applyLocked same_applier_with_db svc_reads_bind svc_reads_return)
    (simp split: if_split)

lemma Add_applies: "applies A (Add now p)"
proof -
  have "applies A (\<lambda>s. case choose_address (serverNet s) (ap_Address p) (addressesOf ex) of
      Inl e \<Rightarrow> (Inl (SvcInvalid e), s) | Inr a \<Rightarrow> add_insert (add_record now p a) s)" for ex
    by (intro applies_cases add_insert_applies)
  then have "applies A (\<lambda>s. case add_conflict p ex of Some e \<Rightarrow> (Inl e, s)
      | None \<Rightarrow> (case choose_address (serverNet s) (ap_Address p) (addressesOf ex) of
            Inl e \<Rightarrow> (Inl (SvcInvalid e), s) | Inr a \<Rightarrow> add_insert (add_record now p a) s))" for ex
    by (cases "add_conflict p ex") simp_all
  then have "applies A (svc_bind (with_db ''clients: add list'' ListClients) (\<lambda>ex s.
      case add_conflict p ex of Some e \<Rightarrow> (Inl e, s)
      | None \<Rightarrow> (case choose_address (serverNet s) (ap_Address p) (addressesOf ex) of
            Inl e \<Rightarrow> (Inl (SvcInvalid e), s) | Inr a \<Rightarrow> add_insert (add_record now p a) s)))"
    by (intro applies_head same_applier_with_db)
  then show ?thesis unfolding Add_def applies_def by (auto split: if_splits)
qed

lemma Update_applies: "applies A (Update now n p)"
proof -
  have "applies A (\<lambda>s. case edit_client (serverNet s) ex now p c of
      Inl e \<Rightarrow> (Inl e, s) | Inr u \<Rightarrow> update_write p u s)" for ex c
    by (intro applies_cases(1) [where h = "\<lambda>e. e"] update_write_applies)
  then have "applies A (\<lambda>s. case find (\<lambda>c. Name c = n) ex of None \<Rightarrow> (Inl (SvcNotFound n), s)
      | Some c \<Rightarrow> (case edit_client (serverNet s) ex now p c of
            Inl e \<Rightarrow> (Inl e, s) | Inr u \<Rightarrow> update_write p u s))" for ex
    by (cases "find (\<lambda>c. Name c = n) ex") simp_all
  then show ?thesis unfolding Update_def by (intro applies_head same_applier_with_db)
qed

lemma Delete_applies: "applies A (Delete n)"
  unfolding Delete_def by (intro applies_head applies_tail applies_applyLocked same_applier_with_db svc_reads_save)

lemma ReplaceAll_applies: "applies A (ReplaceAll now order es)"
proof -
  have "applies A (svc_bind (with_db ''clients: replace all'' (ReplaceClients order (map (replace_record now) es)))
      (\<lambda>_. svc_bind applyLocked (\<lambda>_. svc_bind saveStoreLocked (\<lambda>_. svc_List))))"
    by (intro applies_head applies_tail applies_applyLocked same_applier_with_db svc_reads_bind svc_reads_save
        svc_reads_List)
  then show ?thesis unfolding ReplaceAll_def applies_def by (auto split: option.splits)
qed

subsection \<open>The staged file of a service\<close>

lemma nameRe_no_nl: "nameRe s \<Longrightarrow> nl \<notin> set s"
proof -
  have "\<not> is_name_char nl" by code_simp
  then show "nameRe s \<Longrightarrow> nl \<notin> set s" by (auto simp: nameRe_def list_all_iff)
qed

lemma plain_chars: "list_all P s \<Longrightarrow> (\<And>c. P c \<Longrightarrow> \<not> is_blank c \<and> c \<noteq> CHR ''#'') \<Longrightarrow> plain s"
  unfolding list_all_iff plain_def by blast

lemma not_blank_chars:
  "is_base64 c \<Longrightarrow> \<not> is_blank c \<and> c \<noteq> CHR ''#''"
  "is_digit c \<or> c = CHR ''.'' \<Longrightarrow> \<not> is_blank c \<and> c \<noteq> CHR ''#''"
  by (auto simp: is_base64_def is_blank_def is_alpha_def is_digit_def Let_def)

lemma plain_consts: "plain ''=''" "plain ''/32''"
  by code_simp+

lemma plain_take_drop: "plain (take n s) \<Longrightarrow> plain (drop n s) \<Longrightarrow> plain s"
  by (metis append_take_drop_id plain_append)

lemma pubKeyRe_plain: "pubKeyRe k \<Longrightarrow> plain k"
  by (rule plain_take_drop [of 43], rule plain_chars [of is_base64])
    (auto simp only: pubKeyRe_def plain_consts dest: not_blank_chars)

lemma addrRe_plain: "addrRe a \<Longrightarrow> plain a"
proof (rule plain_take_drop [of "length a - 3"])
  assume a: "addrRe a"
  show "plain (take (length a - 3) a)"
    using a by (intro plain_chars [of "\<lambda>c. is_digit c \<or> c = CHR ''.''"] not_blank_chars(2)) (simp_all add: addrRe_def Let_def)
  show "plain (drop (length a - 3) a)"
    using a plain_consts(2) by (simp only: addrRe_def Let_def)
qed

lemma client_peer_ok: "client_valid sn c \<Longrightarrow> peer_ok (peer_of_client c)"
  by (auto simp: client_valid_def peer_ok_def peer_of_client_def nameRe_no_nl pubKeyRe_plain ValidateAddress_def
      split: if_splits intro: addrRe_plain)

lemma listed_peers_ok:
  assumes "valid_tables sn t"
  shows "\<forall>p \<in> set (map peer_of_client (listed t)). sp_Enabled p \<longrightarrow> peer_ok p"
  using listed_valid [OF assms] client_peer_ok by auto

text \<open>The applier of the service: the staging with a random name, then the helper.\<close>

definition wgsync_applier :: "runner \<Rightarrow> string \<Rightarrow> host applier" where
  "wgsync_applier run rnd = Applier (Apply (New run) rnd)"

text \<open>
  A host on which the staged file holds the enabled clients of the tables, and on which the helper
  was run with success.
\<close>

definition synced :: "runner \<Rightarrow> tables \<Rightarrow> bool" where
  "synced run t \<longleftrightarrow> (\<exists>h h' text.
     host_files h DefaultStagePath = Some (text, stageFileMode) \<and>
     sections (read_conf text) =
       map (\<lambda>p. (''Peer'', peer_fields p))
         (sort_key (\<lambda>p. addr_rank (sp_Address p)) (map peer_of_client (filter Enabled (listed t)))) \<and>
     run [''sudo'', DefaultHelperPath] h = (None, h'))"

lemma applied_synced:
  assumes "applied (wgsync_applier run rnd) t" and "valid_tables sn t"
  shows "synced run t"
proof -
  let ?text = "BuildServerPeers (map peer_of_client (listed t))"
  from assms(1) obtain w w' where "Apply (New run) rnd (listed t) w = (None, w')"
    by (auto simp: applied_def wgsync_applier_def)
  from Apply_outcome [OF this] obtain h where
    h: "swapped DefaultStagePath (?text, stageFileMode) w h" "run [''sudo'', DefaultHelperPath] h = (None, w')"
    by auto
  have "filter sp_Enabled (map peer_of_client cs) = map peer_of_client (filter Enabled cs)" for cs
    by (induction cs) (simp_all add: peer_of_client_def)
  then have "sections (read_conf ?text) = map (\<lambda>p. (''Peer'', peer_fields p))
      (sort_key (\<lambda>p. addr_rank (sp_Address p)) (map peer_of_client (filter Enabled (listed t))))"
    using read_BuildServerPeers [OF listed_peers_ok [OF assms(2)]] by (simp add: enabledSorted_eq)
  with h show ?thesis unfolding synced_def swapped_def by blast
qed

lemma call_synced:
  assumes "applies (wgsync_applier run rnd) m" and "svc_keeps (svc_inv sn) m"
    and "m s = (Inr x, s')" and "svc_inv sn s" and "applier s = wgsync_applier run rnd"
  shows "synced run (tabs (svc_db s'))"
proof -
  have "svc_inv sn s'" using svc_keepsD [OF assms(2,4)] assms(3) by simp
  then show ?thesis
    using applied_synced [OF appliesD [OF assms(1,3,5)], of sn] by (simp add: svc_inv_def)
qed

subsection \<open>Properties\<close>

text \<open>
  C12. In a service that satisfies its invariant and applies through \<^verbatim>\<open>wgsync\<close>, every method that
  changes the clients and returns success has run the privileged helper with success on a staged
  file that reads as exactly the enabled clients the database holds at the end, in address order.
\<close>

theorem success_reaches_the_interface:
  fixes s :: "host service"
  assumes "usable_net sn" and "svc_inv sn s" and "applier s = wgsync_applier run rnd"
    and "Add now p s = (Inr c, s') \<or> Update now n u s = (Inr c, s') \<or> Delete n s = (Inr (), s') \<or>
      ReplaceAll now order es s = (Inr cs, s')"
  shows "synced run (tabs (svc_db s'))"
  using assms(4) call_synced [OF Add_applies Add_keeps [OF assms(1)] _ assms(2,3)]
    call_synced [OF Update_applies Update_keeps _ assms(2,3)]
    call_synced [OF Delete_applies Delete_keeps _ assms(2,3)]
    call_synced [OF ReplaceAll_applies ReplaceAll_keeps _ assms(2,3)] by blast

definition quiet_host :: host where
  "quiet_host = \<lparr>host_files = Map.empty, sys_faults = [], seen = []\<rparr>"

definition helper_ok :: runner where "helper_ok argv h = (None, h)"

lemma Apply_quiet: "fst (Apply (New helper_ok) rnd cs quiet_host) = None"
  by (simp add: Apply_def writeStaged_def quiet_host_def New_def helper_ok_def Let_def sys_create_temp_def
      sys_call_def put_files_def sys_write_def sys_chmod_def sys_close_def sys_rename_def)

definition fresh_live :: "host service" where
  "fresh_live = SetApplier (Some (wgsync_applier helper_ok ''1'')) (NewService (open_db []) [] quiet_host)"

lemma fresh_live_simps [simp]:
  "serverNet fresh_live = default_net_value" "tabs (svc_db fresh_live) = empty_tables"
  "faults (svc_db fresh_live) = []" "applier fresh_live = wgsync_applier helper_ok ''1''"
  "world fresh_live = quiet_host" "svc_store fresh_live = NoopStore" "storeReady fresh_live"
  unfolding fresh_live_def SetApplier_def using fresh_service [of quiet_host]
  by (simp_all add: NewService_def)

theorem success_reaches_the_interface_witness:
  "\<exists>s'. Add 0 laptop fresh_live = (Inr (add_record 0 laptop ''172.16.15.9/32''), s') \<and> synced helper_ok (tabs (svc_db s'))"
proof -
  obtain s' where s': "Add 0 laptop fresh_live = (Inr (add_record 0 laptop ''172.16.15.9/32''), s')"
  proof -
    let ?cs = "\<lambda>t. listed t"
    have ap: "applier_Apply (wgsync_applier helper_ok ''1'') cs quiet_host = (None, snd (Apply (New helper_ok) ''1'' cs quiet_host))" for cs
      using Apply_quiet [of "''1''" cs] by (simp add: wgsync_applier_def prod_eq_iff)
    show ?thesis
      using that unfolding add_on_empty [OF fresh_live_simps(1-3)] Let_def
      by (simp add: svc_bind_def apply_no_fault ap saveStoreLocked_def save_now_eq svc_return_def)
  qed
  have inv: "svc_inv default_net_value fresh_live"
    by (simp add: svc_inv_def valid_tables_def tables_ok_empty) (simp add: empty_tables_def)
  show ?thesis
    using s' success_reaches_the_interface [OF usable_default inv fresh_live_simps(4), of 0 laptop _ s'] by blast
qed

end
