(* ===== verification/WgShow.thy ===== *)
theory WgShow
  imports WgSync
begin

text \<open>
  \<^verbatim>\<open>dashboard/internal/wg/wg.go\<close>: the reader of \<^verbatim>\<open>wg show <iface> dump\<close>. The command is a
  parameter (its output, or its error); the parser is modelled to the byte and shown to read back
  what \<^verbatim>\<open>wg\<close> prints for a list of peers.
\<close>

subsection \<open>Model\<close>

record wg_peer =
  wp_PublicKey :: string
  wp_Endpoint :: string
  wp_AllowedIPs :: "string list"
  wp_LatestHandshake :: time
  wp_TransferRx :: int
  wp_TransferTx :: int
  wp_PersistentKeepalive :: int

definition DefaultIface :: string where "DefaultIface = ''wg0''"

definition tab :: char where "tab = CHR 0x09"

definition split_allowed :: "string \<Rightarrow> string list" where
  "split_allowed raw =
     (if raw = [] \<or> raw = ''(none)'' then []
      else filter (\<lambda>c. c \<noteq> [] \<and> c \<noteq> ''(none)'') (map trim_space (split_on CHR '','' raw)))"

definition parse_handshake :: "string \<Rightarrow> time" where
  "parse_handshake raw =
     (if raw = ''0'' then zero_time
      else (case parse_int64 raw of
              None \<Rightarrow> zero_time
            | Some secs \<Rightarrow> if secs > 0 then unix_time secs else zero_time))"

definition int_or_zero :: "string \<Rightarrow> int" where
  "int_or_zero raw = (case parse_int64 raw of None \<Rightarrow> 0 | Some n \<Rightarrow> n)"

definition parsePeerLine :: "string \<Rightarrow> wg_peer option" where
  "parsePeerLine line =
     (case split_on tab line of
        [publicKey, psk, endpoint, allowed, handshake, rx, tx, keepalive] \<Rightarrow>
          Some \<lparr>wp_PublicKey = publicKey,
                wp_Endpoint = (if endpoint = ''(none)'' then [] else endpoint),
                wp_AllowedIPs = split_allowed allowed,
                wp_LatestHandshake = parse_handshake handshake,
                wp_TransferRx = int_or_zero rx,
                wp_TransferTx = int_or_zero tx,
                wp_PersistentKeepalive = (if keepalive \<noteq> ''off'' then int_or_zero keepalive else 0)\<rparr>
      | _ \<Rightarrow> None)"

fun parse_peers :: "string list \<Rightarrow> wg_peer list" where
  "parse_peers [] = []"
| "parse_peers (l # ls) = (case parsePeerLine l of None \<Rightarrow> parse_peers ls | Some p \<Rightarrow> p # parse_peers ls)"

definition dump_lines :: "string \<Rightarrow> string list" where
  "dump_lines out = filter (\<lambda>l. trim_space l \<noteq> []) (split_on nl out)"

definition Show :: "(string list \<Rightarrow> 'w \<Rightarrow> (cmd_error + string) \<times> 'w) \<Rightarrow> string \<Rightarrow> 'w \<Rightarrow>
    (string + wg_peer list) \<times> 'w" where
  "Show run iface w =
     (case run [''sudo'', ''/usr/bin/wg'', ''show'', iface, ''dump''] w of
        (Inl (CmdExit msg stderr), w') \<Rightarrow>
          (Inl (if stderr \<noteq> [] then ''wg show '' @ iface @ '' dump: '' @ msg @ '': '' @ trim_space stderr
                else ''wg show '' @ iface @ '' dump: '' @ msg), w')
      | (Inl (CmdFailed msg), w') \<Rightarrow> (Inl (''wg show '' @ iface @ '' dump: '' @ msg), w')
      | (Inr out, w') \<Rightarrow>
          (let lines = dump_lines out
           in if length lines \<le> 1 then (Inr [], w') else (Inr (parse_peers (tl lines)), w')))"

subsection \<open>What wg prints\<close>

definition print_allowed :: "string list \<Rightarrow> string" where
  "print_allowed as = (if as = [] then ''(none)'' else join_with '','' as)"

definition peer_columns :: "string \<Rightarrow> wg_peer \<Rightarrow> string list" where
  "peer_columns psk p =
     [wp_PublicKey p, psk,
      if wp_Endpoint p = [] then ''(none)'' else wp_Endpoint p,
      print_allowed (wp_AllowedIPs p),
      if is_zero (wp_LatestHandshake p) then ''0'' else itoa (unix_secs (wp_LatestHandshake p)),
      itoa (wp_TransferRx p), itoa (wp_TransferTx p),
      if wp_PersistentKeepalive p = 0 then ''off'' else itoa (wp_PersistentKeepalive p)]"

definition print_peer :: "string \<Rightarrow> wg_peer \<Rightarrow> string" where
  "print_peer psk p = join_with [tab] (peer_columns psk p)"

definition graph_word :: "string \<Rightarrow> bool" where
  "graph_word s \<longleftrightarrow> s \<noteq> [] \<and> s \<noteq> ''(none)'' \<and> list_all graph_char s"

definition printable_peer :: "wg_peer \<Rightarrow> bool" where
  "printable_peer p \<longleftrightarrow>
     graph_word (wp_PublicKey p) \<and> (wp_Endpoint p = [] \<or> graph_word (wp_Endpoint p)) \<and>
     list_all (\<lambda>a. graph_word a \<and> CHR '','' \<notin> set a) (wp_AllowedIPs p) \<and>
     (is_zero (wp_LatestHandshake p) \<or>
       (\<exists>s. wp_LatestHandshake p = unix_time s \<and> 0 < s \<and> in_i64 s)) \<and>
     in_i64 (wp_TransferRx p) \<and> in_i64 (wp_TransferTx p) \<and> in_i64 (wp_PersistentKeepalive p)"

lemma graph_word_chars: "graph_word s \<Longrightarrow> c \<in> set s \<Longrightarrow> graph_char c"
  by (auto simp: graph_word_def list_all_iff)

lemma graph_no_control [simp]: "\<not> graph_char tab" "\<not> graph_char nl"
  by (simp_all add: graph_char_def tab_def nl_def)

lemma graph_word_no [simp]: "graph_word s \<Longrightarrow> tab \<notin> set s" "graph_word s \<Longrightarrow> nl \<notin> set s"
  using graph_word_chars graph_no_control by blast+

lemma graph_word_trim [simp]: "graph_word s \<Longrightarrow> trim_space s = s"
  by (intro trim_space_graph) (auto simp: graph_word_def list_all_iff)

lemma itoa_no_control [simp]: "tab \<notin> set (itoa n)" "nl \<notin> set (itoa n)"
  by (auto simp: itoa_def tab_def nl_def is_digit_def)

lemma split_print_allowed:
  assumes "list_all (\<lambda>a. graph_word a \<and> CHR '','' \<notin> set a) as"
  shows "split_allowed (print_allowed as) = as"
proof (cases "as = []")
  case True
  then show ?thesis by (simp add: print_allowed_def split_allowed_def)
next
  case False
  have w: "\<forall>a \<in> set as. graph_word a \<and> CHR '','' \<notin> set a" using assms by (simp add: list_all_iff)
  have sp: "split_on CHR '','' (join_with '','' as) = as"
    using False w by (intro split_join) auto
  have "map trim_space as = as" using w by (intro map_idI) auto
  moreover have "filter (\<lambda>c. c \<noteq> [] \<and> c \<noteq> ''(none)'') as = as"
    using w by (auto simp: graph_word_def filter_id_conv)
  moreover have "join_with '','' as \<noteq> []" "join_with '','' as \<noteq> ''(none)''"
  proof -
    show "join_with '','' as \<noteq> []"
    proof
      assume "join_with '','' as = []"
      with sp have "as = [[]]" by simp
      with w show False by (simp add: graph_word_def)
    qed
    show "join_with '','' as \<noteq> ''(none)''"
    proof
      assume "join_with '','' as = ''(none)''"
      with sp have "as = [''(none)'']" by simp
      with w show False by (simp add: graph_word_def)
    qed
  qed
  ultimately show ?thesis using False sp by (simp add: split_allowed_def print_allowed_def)
qed

lemma in_join_with: "c \<in> set (join_with [sep] ws) \<Longrightarrow> c = sep \<or> (\<exists>w \<in> set ws. c \<in> set w)"
  by (induction "[sep]" ws rule: join_with.induct) auto

text \<open>Every column is made of printable characters.\<close>

definition graph_text :: "string \<Rightarrow> bool" where
  "graph_text s \<longleftrightarrow> list_all graph_char s"

lemma graph_texts [simp]: "graph_text ''(none)''" "graph_text ''0''" "graph_text ''off''"
  by code_simp+

lemma graph_text_itoa [simp]: "graph_text (itoa n)"
proof -
  have "is_digit c \<Longrightarrow> graph_char c" for c by (simp add: is_digit_def graph_char_def Let_def)
  moreover have "graph_char CHR ''-''" by code_simp
  ultimately show ?thesis using itoa_nat_digits by (auto simp: graph_text_def itoa_def list_all_iff)
qed

lemma graph_text_word: "graph_word s \<Longrightarrow> graph_text s"
  by (simp add: graph_word_def graph_text_def)

lemma graph_text_no: "graph_text s \<Longrightarrow> tab \<notin> set s" "graph_text s \<Longrightarrow> nl \<notin> set s"
  using graph_no_control by (auto simp: graph_text_def list_all_iff)

lemma graph_text_allowed:
  assumes "list_all (\<lambda>a. graph_word a \<and> CHR '','' \<notin> set a) as"
  shows "graph_text (print_allowed as)"
proof -
  have "graph_char CHR '',''" by code_simp
  then have "graph_text (join_with '','' as)"
    using assms in_join_with [of _ "CHR '',''" as] graph_word_chars
    unfolding graph_text_def list_all_iff by blast
  then show ?thesis by (simp add: print_allowed_def)
qed

lemma columns_graph:
  assumes "printable_peer p" and "graph_word psk" and "w \<in> set (peer_columns psk p)"
  shows "graph_text w"
proof -
  have "graph_text (wp_PublicKey p)" "graph_text psk" "graph_text (print_allowed (wp_AllowedIPs p))"
    "wp_Endpoint p \<noteq> [] \<longrightarrow> graph_text (wp_Endpoint p)"
    using assms(1,2) graph_text_word graph_text_allowed unfolding printable_peer_def by blast+
  then show ?thesis using assms(3) unfolding peer_columns_def by (auto split: if_splits)
qed

lemma int_or_zero_itoa: "in_i64 n \<Longrightarrow> int_or_zero (itoa n) = n"
  by (simp add: int_or_zero_def parse_int64_itoa)

lemma itoa_pos: "0 < n \<Longrightarrow> itoa n \<noteq> ''0''"
  using itoa_nat_hd [of "nat n"] by (auto simp: itoa_def)

lemma itoa_not_off: "itoa n \<noteq> ''off''"
proof
  assume a: "itoa n = ''off''"
  have "hd (itoa n) = CHR ''-'' \<or> is_digit (hd (itoa n))"
    using hd_itoa_digit by (auto simp: itoa_def)
  with a show False by (simp add: is_digit_def)
qed

lemma parse_print:
  assumes p: "printable_peer p" and psk: "graph_word psk"
  shows "parsePeerLine (print_peer psk p) = Some p"
proof -
  have "split_on tab (print_peer psk p) = peer_columns psk p"
    unfolding print_peer_def
    using columns_graph [OF p psk] graph_text_no(1) by (intro split_join) (auto simp: peer_columns_def)
  note s = this [unfolded peer_columns_def]
  have hs: "parse_handshake (if is_zero (wp_LatestHandshake p) then ''0'' else itoa (unix_secs (wp_LatestHandshake p)))
      = wp_LatestHandshake p"
    using p by (auto simp: printable_peer_def parse_handshake_def parse_int64_itoa itoa_pos is_zero_def)
  show ?thesis
    unfolding parsePeerLine_def s
    using p hs split_print_allowed [of "wp_AllowedIPs p"] itoa_not_off
    by (auto simp: printable_peer_def int_or_zero_itoa graph_word_def)
qed

lemma print_peer_line:
  assumes p: "printable_peer p" and psk: "graph_word psk"
  shows "nl \<notin> set (print_peer psk p)" and "trim_space (print_peer psk p) \<noteq> []"
proof -
  have "nl \<noteq> tab" by (simp add: nl_def tab_def)
  then show "nl \<notin> set (print_peer psk p)"
    unfolding print_peer_def using in_join_with [of nl tab] columns_graph [OF p psk] graph_text_no(2) by metis
  from p obtain c k where "wp_PublicKey p = c # k" "graph_char c"
    by (cases "wp_PublicKey p") (auto simp: printable_peer_def graph_word_def)
  then obtain t where "print_peer psk p = c # t" by (simp add: print_peer_def peer_columns_def)
  then show "trim_space (print_peer psk p) \<noteq> []" using trim_space_hd [OF \<open>graph_char c\<close>, of t] by auto
qed

definition print_dump :: "string \<Rightarrow> string \<Rightarrow> wg_peer list \<Rightarrow> string" where
  "print_dump server psk ps = server @ [nl] @ concat (map (\<lambda>p. print_peer psk p @ [nl]) ps)"

lemma dump_lines_print:
  assumes "\<forall>p \<in> set ps. printable_peer p" and "graph_word psk" and "nl \<notin> set server" and "trim_space server \<noteq> []"
  shows "dump_lines (print_dump server psk ps) = server # map (print_peer psk) ps"
proof -
  have "filter (\<lambda>l. trim_space l \<noteq> []) (split_on nl (concat (map (\<lambda>p. print_peer psk p @ [nl]) ps))) = map (print_peer psk) ps"
    using assms(1) by (induction ps) (simp_all add: print_peer_line [OF _ assms(2)])
  then show ?thesis using assms(3,4) by (simp add: dump_lines_def print_dump_def)
qed

lemma parse_peers_print:
  "\<forall>p \<in> set ps. printable_peer p \<Longrightarrow> graph_word psk \<Longrightarrow> parse_peers (map (print_peer psk) ps) = ps"
  by (induction ps) (simp_all add: parse_print)

text \<open>A line that is not eight columns is skipped; the others are read as if it were not there.\<close>

lemma parse_peers_append: "parse_peers (xs @ ys) = parse_peers xs @ parse_peers ys"
  by (induction xs) (simp_all split: option.splits)

lemma Show_dump:
  assumes "run [''sudo'', ''/usr/bin/wg'', ''show'', iface, ''dump''] w = (Inr (print_dump server psk ps), w')"
    and "\<forall>p \<in> set ps. printable_peer p" and "graph_word psk" and "nl \<notin> set server" and "trim_space server \<noteq> []"
  shows "Show run iface w = (Inr ps, w')"
  using dump_lines_print [OF assms(2-5)] parse_peers_print [OF assms(2,3)] assms(1)
  by (auto simp: Show_def Let_def)


definition sample_peer :: wg_peer where
  "sample_peer = \<lparr>wp_PublicKey = ''K='', wp_Endpoint = [], wp_AllowedIPs = [''10.0.0.2/32'', ''fd00::2/128''],
     wp_LatestHandshake = zero_time, wp_TransferRx = 10, wp_TransferTx = 0, wp_PersistentKeepalive = 25\<rparr>"


end
