(* ===== verification/GoUrl.thy ===== *)
theory GoUrl
  imports ClientStore NetIP
begin

text \<open>
  The part of Go's \<^verbatim>\<open>net/url\<close> that the code reads: whether \<^verbatim>\<open>url.Parse\<close> accepts a text, and the
  scheme and the host it finds.
\<close>

subsection \<open>Unescaping\<close>

datatype esc_mode = EncHost | EncZone | EncOther

definition is_letter :: "char \<Rightarrow> bool" where
  "is_letter c \<longleftrightarrow> (let n = (of_char c :: nat) in (65 \<le> n \<and> n \<le> 90) \<or> (97 \<le> n \<and> n \<le> 122))"

text \<open>The ASCII characters a host may hold unescaped.\<close>

definition host_char :: "char \<Rightarrow> bool" where
  "host_char c \<longleftrightarrow> is_letter c \<or> is_digit c \<or>
     c \<in> {CHR ''!'', CHR ''$'', CHR ''&'', CHR 0x27, CHR ''('', CHR '')'', CHR ''*'', CHR ''+'', CHR '','',
          CHR '';'', CHR ''='', CHR '':'', CHR ''['', CHR '']'', CHR ''<'', CHR ''>'', CHR 0x22,
          CHR ''-'', CHR ''_'', CHR ''.'', CHR ''~''}"

definition is_ascii :: "char \<Rightarrow> bool" where
  "is_ascii c \<longleftrightarrow> (of_char c :: nat) < 128"

text \<open>\<^verbatim>\<open>unescape\<close>: \<open>None\<close> is an escape or host error. A plus is a space only in a query.\<close>

fun unescape :: "esc_mode \<Rightarrow> string \<Rightarrow> string option" where
  "unescape m [] = Some []"
| "unescape m (c # s) =
     (if c = CHR ''%'' then
        (case s of
           a # b # t \<Rightarrow>
             (if \<not> is_hex a \<or> \<not> is_hex b then None
              else (let v = char_of (16 * hex_val a + hex_val b :: nat)
                    in if m = EncHost \<and> hex_val a < 8 \<and> \<not> (a = CHR ''2'' \<and> b = CHR ''5'') then None
                       else if m = EncZone \<and> \<not> (a = CHR ''2'' \<and> b = CHR ''5'') \<and> v \<noteq> CHR '' '' \<and> \<not> host_char v then None
                       else map_option (\<lambda>r. v # r) (unescape m t)))
         | _ \<Rightarrow> None)
      else if m \<noteq> EncOther \<and> is_ascii c \<and> \<not> host_char c then None
      else map_option (\<lambda>r. c # r) (unescape m s))"

subsection \<open>The authority\<close>

text \<open>The text after the last separator, and before it.\<close>

definition after_last :: "char \<Rightarrow> string \<Rightarrow> string" where
  "after_last c s = rev (takeWhile (\<lambda>x. x \<noteq> c) (rev s))"

definition before_last :: "char \<Rightarrow> string \<Rightarrow> string" where
  "before_last c s = (if c \<in> set s then rev (tl (dropWhile (\<lambda>x. x \<noteq> c) (rev s))) else [])"

definition valid_optional_port :: "string \<Rightarrow> bool" where
  "valid_optional_port p \<longleftrightarrow> p = [] \<or> (hd p = CHR '':'' \<and> list_all is_digit (tl p))"

text \<open>An IP literal: its brackets, its zone after \<^verbatim>\<open>%25\<close>, its port.\<close>

definition split_zone :: "string \<Rightarrow> string \<times> string" where
  "split_zone h =
     (case find (\<lambda>i. has_prefix ''%25'' (drop i h)) [0 ..< length h] of
        None \<Rightarrow> (h, [])
      | Some i \<Rightarrow> (take i h, drop i h))"

definition parse_literal_host :: "string \<Rightarrow> string option" where
  "parse_literal_host h =
     (if CHR '']'' \<notin> set h then None
      else (let port = after_last CHR '']'' h;
                name = after_last CHR ''['' (before_last CHR '']'' h);
                (a, z) = split_zone name
            in if \<not> valid_optional_port port then None
               else (case (unescape EncHost port, unescape EncHost a, unescape EncZone z) of
                       (Some p, Some a', Some z') \<Rightarrow>
                         (case parse_addr (a' @ z') of
                            Some (Addr6 b zn) \<Rightarrow> if take 12 b = v4_prefix then None else Some (''['' @ a' @ z' @ '']'' @ p)
                          | _ \<Rightarrow> None)
                     | _ \<Rightarrow> None)))"

definition parse_host :: "string \<Rightarrow> string option" where
  "parse_host h =
     (if CHR ''['' \<in> set h then parse_literal_host h
      else if CHR '':'' \<in> set h \<and> \<not> valid_optional_port (CHR '':'' # after_last CHR '':'' h) then None
      else unescape EncHost h)"

definition userinfo_char :: "char \<Rightarrow> bool" where
  "userinfo_char c \<longleftrightarrow> is_letter c \<or> is_digit c \<or>
     c \<in> {CHR ''-'', CHR ''.'', CHR ''_'', CHR '':'', CHR ''~'', CHR ''!'', CHR ''$'', CHR ''&'', CHR 0x27,
          CHR ''('', CHR '')'', CHR ''*'', CHR ''+'', CHR '','', CHR '';'', CHR ''='', CHR ''%'', CHR ''@''}"

definition parse_authority :: "string \<Rightarrow> string option" where
  "parse_authority a =
     (case parse_host (if CHR ''@'' \<in> set a then after_last CHR ''@'' a else a) of
        None \<Rightarrow> None
      | Some h \<Rightarrow>
          if CHR ''@'' \<notin> set a then Some h
          else (let ui = before_last CHR ''@'' a
                in if \<not> list_all userinfo_char ui \<or> unescape EncOther ui = None then None else Some h))"

subsection \<open>Parse\<close>

text \<open>\<^verbatim>\<open>getScheme\<close>: the error is a leading colon.\<close>

fun get_scheme :: "string \<Rightarrow> string \<Rightarrow> string \<Rightarrow> (string \<times> string) option" where
  "get_scheme raw acc [] = Some ([], raw)"
| "get_scheme raw acc (c # s) =
     (if is_letter c then get_scheme raw (acc @ [c]) s
      else if is_digit c \<or> c = CHR ''+'' \<or> c = CHR ''-'' \<or> c = CHR ''.'' then
        (if acc = [] then Some ([], raw) else get_scheme raw (acc @ [c]) s)
      else if c = CHR '':'' then (if acc = [] then None else Some (acc, s))
      else Some ([], raw))"

record url =
  u_Scheme :: string
  u_Host :: string

definition is_ctl :: "char \<Rightarrow> bool" where
  "is_ctl c \<longleftrightarrow> (of_char c :: nat) < 32 \<or> (of_char c :: nat) = 127"

text \<open>
  What follows the scheme, without its query: an opaque text, a rooted path or an authority and a
  path.
\<close>

definition parse_rest :: "string \<Rightarrow> string \<Rightarrow> url option" where
  "parse_rest scheme rest =
     (if \<not> has_prefix ''/'' rest \<and> scheme \<noteq> [] then Some \<lparr>u_Scheme = scheme, u_Host = []\<rparr>
      else if \<not> has_prefix ''/'' rest \<and> CHR '':'' \<in> set (before_byte CHR ''/'' rest) then None
      else if (scheme \<noteq> [] \<or> \<not> has_prefix ''///'' rest) \<and> has_prefix ''//'' rest then
        (case parse_authority (before_byte CHR ''/'' (drop 2 rest)) of
           None \<Rightarrow> None
         | Some h \<Rightarrow>
             if unescape EncOther (dropWhile (\<lambda>c. c \<noteq> CHR ''/'') (drop 2 rest)) = None then None
             else Some \<lparr>u_Scheme = scheme, u_Host = h\<rparr>)
      else if unescape EncOther rest = None then None
      else Some \<lparr>u_Scheme = scheme, u_Host = []\<rparr>)"

definition parse_url :: "string \<Rightarrow> url option" where
  "parse_url raw =
     (let u = before_byte CHR ''#'' raw;
          frag = (case cut_byte CHR ''#'' raw of None \<Rightarrow> [] | Some (_, f) \<Rightarrow> f)
      in if list_ex is_ctl u then None
         else if u = ''*'' then (if unescape EncOther frag = None then None else Some \<lparr>u_Scheme = [], u_Host = []\<rparr>)
         else (case get_scheme u [] u of
                 None \<Rightarrow> None
               | Some (scheme, rest) \<Rightarrow>
                   (case parse_rest (to_lower scheme) (before_byte CHR ''?'' rest) of
                      None \<Rightarrow> None
                    | Some r \<Rightarrow> if unescape EncOther frag = None then None else Some r)))"

subsection \<open>What the host depends on\<close>

lemma get_scheme_app:
  assumes "list_all is_letter w"
  shows "get_scheme raw acc (w @ s) = get_scheme raw (acc @ w) s"
  using assms by (induction w arbitrary: acc) simp_all

lemma get_scheme_letters:
  assumes "list_all is_letter w" and "w \<noteq> []"
  shows "get_scheme raw [] (w @ CHR '':'' # s) = Some (w, s)"
proof -
  have "\<not> is_letter CHR '':''" "\<not> is_digit CHR '':''" by code_simp+
  then show ?thesis using assms by (simp add: get_scheme_app)
qed

text \<open>
  The host of a URL with an authority and a path: whatever the path, query and fragment are, it is
  the host of the authority, unless the text is no URL.
\<close>

lemma parse_url_authority:
  assumes w: "list_all is_letter w" "w \<noteq> []" and a: "CHR ''#'' \<notin> set a" "CHR ''?'' \<notin> set a" "CHR ''/'' \<notin> set a"
  shows "parse_url (w @ ''://'' @ a @ CHR ''/'' # p) = Some u \<Longrightarrow>
    u_Scheme u = to_lower w \<and> parse_authority a = Some (u_Host u)"
proof -
  assume pu: "parse_url (w @ ''://'' @ a @ CHR ''/'' # p) = Some u"
  have wl: "CHR ''#'' \<notin> set w"
  proof -
    have "\<not> is_letter CHR ''#''" by code_simp
    then show ?thesis using w(1) by (auto simp: list_all_iff)
  qed
  let ?p = "before_byte CHR ''#'' p"
  have u: "before_byte CHR ''#'' (w @ ''://'' @ a @ CHR ''/'' # p) = w @ CHR '':'' # ''//'' @ a @ CHR ''/'' # ?p"
    using wl a by (simp add: before_byte_def takeWhile_append)
  have star: "w @ CHR '':'' # ''//'' @ a @ CHR ''/'' # ?p \<noteq> ''*''" using w(2) by (cases w) auto
  let ?q = "before_byte CHR ''?'' ?p"
  have q: "before_byte CHR ''?'' (''//'' @ a @ CHR ''/'' # ?p) = ''//'' @ a @ CHR ''/'' # ?q"
    using a by (simp add: before_byte_def takeWhile_append)
  have lw: "to_lower w \<noteq> []" using w(2) by (simp add: to_lower_def)
  have "parse_rest (to_lower w) (''//'' @ a @ CHR ''/'' # ?q) = Some u"
    using pu u star get_scheme_letters [OF w] q
    by (auto simp: parse_url_def Let_def split: if_splits option.splits)
  then show "u_Scheme u = to_lower w \<and> parse_authority a = Some (u_Host u)"
    using lw a by (auto simp: parse_rest_def split: if_splits option.splits)
qed

end
