(* ===== verification/Notify.thy ===== *)
theory Notify
  imports GoUrl
begin

text \<open>
  \<^verbatim>\<open>dashboard/internal/notify\<close>: the runtime-mutable webhook URL (\<^verbatim>\<open>webhookconfig.go\<close>) and the
  transports over one JSON-POST routine with a bounded retry (\<^verbatim>\<open>notify.go\<close>). The HTTP client, the
  wait between attempts and the cancellation of the context are an environment over an outside
  world \<open>'w\<close>; logging is left out.
\<close>

subsection \<open>The webhook configuration\<close>

record webhook_config =
  wh_seed :: string
  wh_override :: "string option"

record webhook_status =
  ws_Enabled :: bool
  ws_MaskedURL :: string
  ws_OverrideActive :: bool

definition redactURL :: "string \<Rightarrow> string" where
  "redactURL raw =
     (case parse_url raw of
        None \<Rightarrow> ''[webhook]''
      | Some u \<Rightarrow>
          if u_Host u = [] then ''[webhook]''
          else if u_Scheme u = [] then u_Host u
          else u_Scheme u @ ''://'' @ u_Host u)"

definition NewWebhookConfig :: "string \<Rightarrow> webhook_config" where
  "NewWebhookConfig seed = \<lparr>wh_seed = seed, wh_override = None\<rparr>"

definition Current :: "webhook_config \<Rightarrow> string" where
  "Current c = (case wh_override c of Some u \<Rightarrow> u | None \<Rightarrow> wh_seed c)"

definition SetURL :: "string \<Rightarrow> webhook_config \<Rightarrow> webhook_config" where
  "SetURL u c = c\<lparr>wh_override := Some u\<rparr>"

definition Revert :: "webhook_config \<Rightarrow> webhook_config" where
  "Revert c = c\<lparr>wh_override := None\<rparr>"

definition webhook_Enabled :: "webhook_config \<Rightarrow> bool" where
  "webhook_Enabled c \<longleftrightarrow> Current c \<noteq> []"

definition webhook_Status :: "webhook_config \<Rightarrow> webhook_status" where
  "webhook_Status c =
     (let current = (case wh_override c of None \<Rightarrow> wh_seed c | Some u \<Rightarrow> u)
      in \<lparr>ws_Enabled = (current \<noteq> []),
          ws_MaskedURL = (if current \<noteq> [] then redactURL current else []),
          ws_OverrideActive = (wh_override c \<noteq> None)\<rparr>)"

subsection \<open>The retry budget\<close>

definition defaultTimeout :: duration where "defaultTimeout = 5 * second"
definition defaultMaxAttempts :: int where "defaultMaxAttempts = 3"
definition defaultBackoff :: duration where "defaultBackoff = 500 * 10 ^ 6"

record http_retry =
  hr_Timeout :: duration
  hr_MaxAttempts :: int
  hr_Backoff :: duration

definition retry_timeout :: "http_retry \<Rightarrow> duration" where
  "retry_timeout r = (if hr_Timeout r > 0 then hr_Timeout r else defaultTimeout)"

definition retry_maxAttempts :: "http_retry \<Rightarrow> int" where
  "retry_maxAttempts r = (if hr_MaxAttempts r > 0 then hr_MaxAttempts r else defaultMaxAttempts)"

definition retry_backoff :: "http_retry \<Rightarrow> duration" where
  "retry_backoff r = (if hr_Backoff r > 0 then hr_Backoff r else defaultBackoff)"

subsection \<open>Posting\<close>

record http_request =
  rq_URL :: string
  rq_Headers :: "string \<rightharpoonup> string"
  rq_Body :: json

text \<open>The body of a response: an error of reading it, or the JSON value it holds if it is JSON.\<close>

record http_response =
  rs_Status :: int
  rs_Body :: "json option option"

record 'w http_env =
  http_do :: "http_request \<Rightarrow> duration \<Rightarrow> 'w \<Rightarrow> http_response option \<times> 'w"
  ctx_wait :: "duration \<Rightarrow> 'w \<Rightarrow> string option \<times> 'w"

datatype notify_error =
    ErrBuild string
  | ErrPost string
  | ErrStatus string int
  | ErrReadBody string
  | ErrSlackUnparseable
  | ErrSlackRejected string
  | ErrAborted int string
  | ErrGaveUp int notify_error
  | ErrJoin "notify_error list"

definition postOnce :: "'w http_env \<Rightarrow> string \<Rightarrow> (string \<rightharpoonup> string) \<Rightarrow> json \<Rightarrow> duration \<Rightarrow> string \<Rightarrow>
    (json option \<Rightarrow> notify_error option) option \<Rightarrow> 'w \<Rightarrow> notify_error option \<times> 'w" where
  "postOnce env url headers body timeout host validate w =
     (if parse_url url = None then (Some (ErrBuild host), w)
      else (case http_do env \<lparr>rq_URL = url, rq_Headers = [''Content-Type'' \<mapsto> ''application/json''] ++ headers,
                              rq_Body = body\<rparr> timeout w of
              (None, w') \<Rightarrow> (Some (ErrPost host), w')
            | (Some resp, w') \<Rightarrow>
                if rs_Status resp < 200 \<or> rs_Status resp \<ge> 300 then (Some (ErrStatus host (rs_Status resp)), w')
                else (case validate of
                        None \<Rightarrow> (None, w')
                      | Some v \<Rightarrow>
                          (case rs_Body resp of
                             None \<Rightarrow> (Some (ErrReadBody host), w')
                           | Some b \<Rightarrow> (v b, w')))))"

text \<open>
  The loop of \<^verbatim>\<open>postJSON\<close> with the attempts that are left; the error given is that of the last
  attempt.
\<close>

fun post_loop :: "nat \<Rightarrow> int \<Rightarrow> ('w \<Rightarrow> notify_error option \<times> 'w) \<Rightarrow> (int \<Rightarrow> 'w \<Rightarrow> string option \<times> 'w) \<Rightarrow>
    int \<Rightarrow> notify_error \<Rightarrow> 'w \<Rightarrow> notify_error option \<times> 'w" where
  "post_loop 0 attempt once wait m lastErr w = (Some (ErrGaveUp m lastErr), w)"
| "post_loop (Suc k) attempt once wait m lastErr w =
     (case (if attempt > 1 then wait (attempt - 1) w else (None, w)) of
        (Some e, w1) \<Rightarrow> (Some (ErrAborted attempt e), w1)
      | (None, w1) \<Rightarrow>
          (case once w1 of
             (None, w2) \<Rightarrow> (None, w2)
           | (Some e, w2) \<Rightarrow> post_loop k (attempt + 1) once wait m e w2))"

definition postJSON :: "'w http_env \<Rightarrow> string \<Rightarrow> (string \<rightharpoonup> string) \<Rightarrow> json \<Rightarrow> http_retry \<Rightarrow> string \<Rightarrow>
    (json option \<Rightarrow> notify_error option) option \<Rightarrow> 'w \<Rightarrow> notify_error option \<times> 'w" where
  "postJSON env url headers payload retry host validate =
     post_loop (nat (retry_maxAttempts retry)) 1
       (postOnce env url headers payload (retry_timeout retry) host validate)
       (\<lambda>k. ctx_wait env (i64 (retry_backoff retry * k)))
       (retry_maxAttempts retry) (ErrPost host)"

subsection \<open>The transports\<close>

type_synonym 'w notifier = "string \<Rightarrow> 'w \<Rightarrow> notify_error option \<times> 'w"

definition slackPayload :: "string \<Rightarrow> json" where
  "slackPayload text = JObj [(''text'', JStr text)]"

definition Webhook_Notify :: "'w http_env \<Rightarrow> webhook_config \<Rightarrow> http_retry \<Rightarrow> 'w notifier" where
  "Webhook_Notify env c retry message w =
     (let target = Current c
      in if target = [] then (None, w)
         else postJSON env target Map.empty (slackPayload message) retry (redactURL target) None w)"

definition NewNotifier_retry :: http_retry where
  "NewNotifier_retry = \<lparr>hr_Timeout = defaultTimeout, hr_MaxAttempts = defaultMaxAttempts, hr_Backoff = defaultBackoff\<rparr>"

definition NoOp_Notify :: "'w notifier" where
  "NoOp_Notify message w = (None, w)"

definition slackPostMessageURL :: string where
  "slackPostMessageURL = ''https://slack.com/api/chat.postMessage''"

record slack_bot =
  sb_Token :: string
  sb_Channel :: string

definition slackBotPayload :: "string \<Rightarrow> string \<Rightarrow> json" where
  "slackBotPayload channel text = JObj [(''channel'', JStr channel), (''text'', JStr text)]"

text \<open>A bool field of a struct, as \<open>string_member\<close> is a string one.\<close>

definition bool_member :: "string \<Rightarrow> (string \<times> json) list \<Rightarrow> bool option" where
  "bool_member name ms =
     fold (\<lambda>(k, v) acc.
             if to_lower k \<noteq> name then acc
             else (case v of JBool b \<Rightarrow> map_option (\<lambda>_. b) acc | JNull \<Rightarrow> acc | _ \<Rightarrow> None))
       ms (Some False)"

definition slack_ack :: "json option \<Rightarrow> (bool \<times> string) option" where
  "slack_ack b =
     (case b of
        Some (JObj ms) \<Rightarrow>
          (case (bool_member ''ok'' ms, string_member ''error'' ms) of
             (Some ok, Some e) \<Rightarrow> Some (ok, e)
           | _ \<Rightarrow> None)
      | Some JNull \<Rightarrow> Some (False, [])
      | _ \<Rightarrow> None)"

definition validateSlackResponse :: "json option \<Rightarrow> notify_error option" where
  "validateSlackResponse b =
     (case slack_ack b of
        None \<Rightarrow> Some ErrSlackUnparseable
      | Some (ok, e) \<Rightarrow> if \<not> ok then Some (ErrSlackRejected e) else None)"

definition SlackBot_Notify :: "'w http_env \<Rightarrow> slack_bot \<Rightarrow> http_retry \<Rightarrow> 'w notifier" where
  "SlackBot_Notify env s retry message w =
     (if sb_Token s = [] \<or> sb_Channel s = [] then (None, w)
      else postJSON env slackPostMessageURL [''Authorization'' \<mapsto> ''Bearer '' @ sb_Token s]
             (slackBotPayload (sb_Channel s) message) retry ''slack.com'' (Some validateSlackResponse) w)"

record telegram =
  tg_Token :: string
  tg_ChatID :: string

definition telegramPayload :: "string \<Rightarrow> string \<Rightarrow> json" where
  "telegramPayload chat text = JObj [(''chat_id'', JStr chat), (''text'', JStr text)]"

definition telegram_endpoint :: "string \<Rightarrow> string" where
  "telegram_endpoint token = ''https://api.telegram.org/bot'' @ token @ ''/sendMessage''"

definition Telegram_Notify :: "'w http_env \<Rightarrow> telegram \<Rightarrow> http_retry \<Rightarrow> 'w notifier" where
  "Telegram_Notify env t retry message w =
     (if tg_Token t = [] \<or> tg_ChatID t = [] then (None, w)
      else (let endpoint = telegram_endpoint (tg_Token t)
            in postJSON env endpoint Map.empty (telegramPayload (tg_ChatID t) message) retry (redactURL endpoint) None w))"

definition discordPayload :: "string \<Rightarrow> json" where
  "discordPayload text = JObj [(''content'', JStr text)]"

definition Discord_Notify :: "'w http_env \<Rightarrow> string \<Rightarrow> http_retry \<Rightarrow> 'w notifier" where
  "Discord_Notify env hook retry message w =
     (if hook = [] then (None, w)
      else postJSON env hook Map.empty (discordPayload message) retry (redactURL hook) None w)"

text \<open>The constructors from the environment: nothing when a variable is unset or empty.\<close>

definition NewSlackBotFromEnv :: "(string \<Rightarrow> string) \<Rightarrow> slack_bot option" where
  "NewSlackBotFromEnv getenv =
     (let token = getenv ''DASHBOARD_SLACK_BOT_TOKEN''; channel = getenv ''DASHBOARD_SLACK_CHANNEL''
      in if token = [] \<or> channel = [] then None else Some \<lparr>sb_Token = token, sb_Channel = channel\<rparr>)"

definition NewTelegramFromEnv :: "(string \<Rightarrow> string) \<Rightarrow> telegram option" where
  "NewTelegramFromEnv getenv =
     (let token = getenv ''DASHBOARD_TELEGRAM_TOKEN''; chat = getenv ''DASHBOARD_TELEGRAM_CHAT_ID''
      in if token = [] \<or> chat = [] then None else Some \<lparr>tg_Token = token, tg_ChatID = chat\<rparr>)"

definition NewDiscordFromEnv :: "(string \<Rightarrow> string) \<Rightarrow> string option" where
  "NewDiscordFromEnv getenv =
     (let hook = getenv ''DASHBOARD_DISCORD_WEBHOOK_URL'' in if hook = [] then None else Some hook)"

subsection \<open>The composite\<close>

definition NewMultiNotifier :: "'w notifier option list \<Rightarrow> 'w notifier list" where
  "NewMultiNotifier children = List.map_filter (\<lambda>c. c) children"

fun notify_children :: "'w notifier list \<Rightarrow> string \<Rightarrow> 'w \<Rightarrow> notify_error list \<times> 'w" where
  "notify_children [] message w = ([], w)"
| "notify_children (c # cs) message w =
     (case c message w of
        (r, w1) \<Rightarrow>
          (case notify_children cs message w1 of
             (errs, w2) \<Rightarrow> ((case r of None \<Rightarrow> errs | Some e \<Rightarrow> e # errs), w2)))"

text \<open>\<^verbatim>\<open>errors.Join\<close> of no error is nil.\<close>

definition Multi_Notify :: "'w notifier list \<Rightarrow> 'w notifier" where
  "Multi_Notify cs message w =
     (case notify_children cs message w of
        ([], w') \<Rightarrow> (None, w')
      | (errs, w') \<Rightarrow> (Some (ErrJoin errs), w'))"

subsection \<open>The holder\<close>

datatype webhook_op = WSet string | WRevert

fun webhook_step :: "webhook_op \<Rightarrow> webhook_config \<Rightarrow> webhook_config" where
  "webhook_step (WSet u) c = SetURL u c"
| "webhook_step WRevert c = Revert c"

interpretation webhook_ops: op_invariant "\<lambda>c. wh_seed c = seed" "\<lambda>_. True" webhook_step for seed
proof
  fix s ev show "wh_seed s = seed \<Longrightarrow> True \<Longrightarrow> wh_seed (webhook_step ev s) = seed"
    by (cases ev) (simp_all add: SetURL_def Revert_def)
qed

definition last_word :: "string \<Rightarrow> webhook_op list \<Rightarrow> string" where
  "last_word seed evs = (case rev evs of WSet u # _ \<Rightarrow> u | _ \<Rightarrow> seed)"

lemma webhook_Current:
  "Current (fold webhook_step evs (NewWebhookConfig seed)) = last_word seed evs"
proof (cases evs rule: rev_exhaust)
  case Nil
  then show ?thesis by (simp add: last_word_def Current_def NewWebhookConfig_def)
next
  case (snoc es ev)
  have "wh_seed (fold webhook_step es (NewWebhookConfig seed)) = seed"
    by (rule webhook_ops.run_inv) (simp_all add: NewWebhookConfig_def)
  then show ?thesis using snoc by (cases ev) (simp_all add: last_word_def Current_def SetURL_def Revert_def)
qed

subsection \<open>What a label shows\<close>

lemma redact_authority:
  assumes "list_all is_letter w" "w \<noteq> []" and "CHR ''#'' \<notin> set a" "CHR ''?'' \<notin> set a" "CHR ''/'' \<notin> set a"
  shows "redactURL (w @ ''://'' @ a @ CHR ''/'' # p) = ''[webhook]'' \<or>
    (\<exists>h. parse_authority a = Some h \<and> redactURL (w @ ''://'' @ a @ CHR ''/'' # p) = to_lower w @ ''://'' @ h)"
proof (cases "parse_url (w @ ''://'' @ a @ CHR ''/'' # p)")
  case (Some u)
  with parse_url_authority [OF assms, of p u] have "u_Scheme u = to_lower w" "parse_authority a = Some (u_Host u)"
    by simp_all
  moreover have "to_lower w \<noteq> []" using assms(2) by (simp add: to_lower_def)
  ultimately show ?thesis using Some by (simp add: redactURL_def)
qed (simp add: redactURL_def)

lemma parse_authority_host:
  "parse_authority a = Some h \<Longrightarrow> parse_host (if CHR ''@'' \<in> set a then after_last CHR ''@'' a else a) = Some h"
  by (auto simp: parse_authority_def Let_def split: if_splits option.splits)

lemma telegram_label:
  "redactURL (telegram_endpoint token) = ''[webhook]'' \<or> redactURL (telegram_endpoint token) = ''https://api.telegram.org''"
proof -
  have "list_all is_letter ''https''" "CHR ''#'' \<notin> set ''api.telegram.org''" "CHR ''?'' \<notin> set ''api.telegram.org''"
    "CHR ''/'' \<notin> set ''api.telegram.org''" by code_simp+
  moreover have "parse_authority ''api.telegram.org'' = Some ''api.telegram.org''" "to_lower ''https'' = ''https''"
    by code_simp+
  ultimately show ?thesis
    using redact_authority [of "''https''" "''api.telegram.org''" "''bot'' @ token @ ''/sendMessage''"]
    by (simp add: telegram_endpoint_def)
qed

text \<open>An error whose only free text about the target is one of the given labels.\<close>

fun label_only :: "string set \<Rightarrow> notify_error \<Rightarrow> bool" where
  "label_only L (ErrBuild h) = (h \<in> L)"
| "label_only L (ErrPost h) = (h \<in> L)"
| "label_only L (ErrStatus h n) = (h \<in> L)"
| "label_only L (ErrReadBody h) = (h \<in> L)"
| "label_only L (ErrGaveUp m e) = label_only L e"
| "label_only L (ErrJoin es) = list_all (label_only L) es"
| "label_only L _ = True"

lemma validateSlack_label: "validateSlackResponse b = Some e \<Longrightarrow> label_only L e"
  by (auto simp: validateSlackResponse_def split: option.splits if_splits)

lemma postOnce_label:
  assumes "postOnce env url hs body t host v w = (Some e, w')" and "host \<in> L"
    and "\<And>f b e. v = Some f \<Longrightarrow> f b = Some e \<Longrightarrow> label_only L e"
  shows "label_only L e"
  using assms by (auto simp: postOnce_def split: if_splits prod.splits option.splits)

lemma post_loop_label:
  assumes "post_loop k a once wait m le w = (Some e, w')" and "label_only L le"
    and "\<And>w e w'. once w = (Some e, w') \<Longrightarrow> label_only L e"
  shows "label_only L e"
  using assms
  by (induction k a once wait m le w rule: post_loop.induct) (auto split: prod.splits option.splits if_splits)

lemma postJSON_label:
  assumes "postJSON env url hs body r host v w = (Some e, w')" and "host \<in> L"
    and "\<And>f b e. v = Some f \<Longrightarrow> f b = Some e \<Longrightarrow> label_only L e"
  shows "label_only L e"
  using assms(1) unfolding postJSON_def
  by (rule post_loop_label) (use assms(2,3) postOnce_label in \<open>auto intro: postOnce_label\<close>)

subsection \<open>Counting the requests\<close>

text \<open>The same environment with a counter of the requests it was asked to make.\<close>

definition counting :: "'w http_env \<Rightarrow> ('w \<times> nat) http_env" where
  "counting env = \<lparr>http_do = (\<lambda>rq t (w, n). let (r, w') = http_do env rq t w in (r, (w', Suc n))),
                   ctx_wait = (\<lambda>d (w, n). let (r, w') = ctx_wait env d w in (r, (w', n)))\<rparr>"

lemma postOnce_counting:
  assumes "parse_url url \<noteq> None" and "postOnce (counting env) url hs body t host v (w, n) = (r, (w', n'))"
  shows "n' = Suc n"
  using assms by (auto simp: postOnce_def counting_def Let_def split: if_splits prod.splits option.splits)

lemma wait_counting: "ctx_wait (counting env) d (w, n) = (r, (w', n')) \<Longrightarrow> n' = n"
  by (auto simp: counting_def split: prod.splits)

definition attempts_outcome :: "int \<Rightarrow> notify_error option \<Rightarrow> int \<Rightarrow> bool" where
  "attempts_outcome m res n =
     (case res of
        None \<Rightarrow> 1 \<le> n \<and> n \<le> m
      | Some (ErrGaveUp m' e) \<Rightarrow> m' = m \<and> n = m
      | Some (ErrAborted k e) \<Rightarrow> k = n + 1 \<and> 1 \<le> n \<and> n < m
      | Some _ \<Rightarrow> False)"

lemma post_loop_count:
  assumes "\<And>w n r w' n'. once (w, n) = (r, (w', n')) \<Longrightarrow> n' = Suc n"
    and "\<And>j w n r w' n'. wait j (w, n) = (r, (w', n')) \<Longrightarrow> n' = n"
    and "post_loop k (int n + 1) once wait (int n + int k) le (w, n) = (res, (w', n'))" and "0 < n + k"
  shows "attempts_outcome (int n + int k) res (int n')"
  using assms(3,4)
proof (induction k arbitrary: n le w)
  case 0
  then show ?case by (auto simp: attempts_outcome_def)
next
  case (Suc k)
  obtain r1 w1 n1 where wt: "(if int n + 1 > 1 then wait (int n + 1 - 1) (w, n) else (None, (w, n))) = (r1, (w1, n1))"
    by (metis prod_cases3)
  have n1: "n1 = n" using wt assms(2) by (auto split: if_splits)
  show ?case
  proof (cases r1)
    case (Some e)
    then have "0 < n" using wt by (auto split: if_splits)
    then show ?thesis using Some Suc.prems(1) wt n1 by (auto simp: attempts_outcome_def)
  next
    case None
    obtain r2 w2 n2 where o: "once (w1, n1) = (r2, (w2, n2))" by (metis prod_cases3)
    have n2: "n2 = Suc n" using assms(1) [OF o] n1 by simp
    show ?thesis
    proof (cases r2)
      case None
      then show ?thesis using \<open>r1 = None\<close> Suc.prems(1) wt o n2 by (auto simp: attempts_outcome_def)
    next
      case (Some e)
      have "post_loop k (int n + 1 + 1) once wait (int n + int (Suc k)) e (w2, n2) = (res, (w', n'))"
        using Suc.prems(1) [unfolded post_loop.simps wt] \<open>r1 = None\<close> Some o by simp
      moreover have "int n + 1 + 1 = int (Suc n) + 1" "int n + int (Suc k) = int (Suc n) + int k" by simp_all
      ultimately have "post_loop k (int (Suc n) + 1) once wait (int (Suc n) + int k) e (w2, Suc n) = (res, (w', n'))"
        by (simp only: n2)
      from Suc.IH [OF this] show ?thesis by (simp add: add.assoc add.left_commute)
    qed
  qed
qed

lemma maxAttempts_pos: "1 \<le> retry_maxAttempts r"
  by (simp add: retry_maxAttempts_def defaultMaxAttempts_def)

lemma postJSON_count:
  assumes "parse_url url \<noteq> None"
    and "postJSON (counting env) url hs body retry host v (w, 0) = (res, (w', n))"
  shows "attempts_outcome (retry_maxAttempts retry) res (int n)"
  using post_loop_count [where n = 0 and k = "nat (retry_maxAttempts retry)", OF postOnce_counting [OF assms(1)] wait_counting]
    assms(2) maxAttempts_pos [of retry] unfolding postJSON_def by fastforce

subsection \<open>The composite\<close>

definition world_before :: "'w notifier list \<Rightarrow> string \<Rightarrow> 'w \<Rightarrow> nat \<Rightarrow> 'w" where
  "world_before cs msg w i = fold (\<lambda>c w. snd (c msg w)) (take i cs) w"

lemma map_filter_map: "List.map_filter f (map g xs) = List.map_filter (\<lambda>x. f (g x)) xs"
  by (induction xs) (simp_all add: List.map_filter_simps split: option.splits)

lemma notify_children_eq:
  "notify_children cs msg w =
    (List.map_filter (\<lambda>i. fst ((cs ! i) msg (world_before cs msg w i))) [0 ..< length cs],
     world_before cs msg w (length cs))"
proof (induction cs arbitrary: w)
  case Nil
  then show ?case by (simp add: world_before_def List.map_filter_simps)
next
  case (Cons c cs)
  obtain r w1 where c: "c msg w = (r, w1)" by fastforce
  have wb: "world_before (c # cs) msg w (Suc i) = world_before cs msg w1 i" for i
    by (simp add: world_before_def c)
  have up: "[0 ..< length (c # cs)] = 0 # map Suc [0 ..< length cs]"
    by (simp only: list.size One_nat_def add_Suc_right add_0_right upt_conv_Cons map_Suc_upt zero_less_Suc)
  have "List.map_filter (\<lambda>i. fst (((c # cs) ! i) msg (world_before (c # cs) msg w i))) [0 ..< length (c # cs)] =
      (case r of None \<Rightarrow> [] | Some e \<Rightarrow> [e]) @ List.map_filter (\<lambda>i. fst ((cs ! i) msg (world_before cs msg w1 i))) [0 ..< length cs]"
    unfolding up List.map_filter_simps map_filter_map
    by (simp add: wb world_before_def [of _ _ _ 0] c split: option.splits)
  then show ?case using Cons [of w1] wb [of "length cs"] by (simp add: c split: option.splits)
qed

lemma map_filter_Nil: "List.map_filter f xs = [] \<longleftrightarrow> (\<forall>x \<in> set xs. f x = None)"
  by (induction xs) (auto simp: List.map_filter_simps split: option.splits)

subsection \<open>Properties\<close>

text \<open>
  After any sequence of overrides and reverts the effective URL is the one of the last
  override not yet reverted, else the boot value, and the status shown agrees with it: delivery on
  exactly when it is not empty, and only its label.
\<close>

theorem webhook_config_tracks:
  "let c = fold webhook_step evs (NewWebhookConfig seed); u = last_word seed evs
   in Current c = u \<and> wh_seed c = seed \<and> webhook_Enabled c = (u \<noteq> []) \<and>
      ws_Enabled (webhook_Status c) = (u \<noteq> []) \<and>
      ws_MaskedURL (webhook_Status c) = (if u = [] then [] else redactURL u)"
proof -
  let ?c = "fold webhook_step evs (NewWebhookConfig seed)"
  have "wh_seed ?c = seed" by (rule webhook_ops.run_inv) (simp_all add: NewWebhookConfig_def)
  moreover have "Current ?c = last_word seed evs" by (rule webhook_Current)
  ultimately show ?thesis
    by (simp add: Let_def webhook_Enabled_def webhook_Status_def)
      (simp add: Current_def split: option.split)
qed

text \<open>
  The label of a webhook URL is a fixed token, or its scheme and its host: whatever the path,
  the query and the fragment hold, and whatever user and password the authority holds, they do not
  show.
\<close>

theorem redactURL_hides_path:
  assumes "list_all is_letter w" "w \<noteq> []" and "CHR ''#'' \<notin> set a" "CHR ''?'' \<notin> set a" "CHR ''/'' \<notin> set a"
  shows "redactURL (w @ ''://'' @ a @ CHR ''/'' # path) = ''[webhook]'' \<or>
    (\<exists>h. parse_host (if CHR ''@'' \<in> set a then after_last CHR ''@'' a else a) = Some h \<and>
         redactURL (w @ ''://'' @ a @ CHR ''/'' # path) = to_lower w @ ''://'' @ h)"
  using redact_authority [OF assms, of path] parse_authority_host by blast

theorem redactURL_hides_path_witness:
  "redactURL (''https'' @ ''://'' @ ''u:p@hooks.slack.com'' @ CHR ''/'' # ''services/T0/B0/secret'') \<noteq>
   ''https://u:p@hooks.slack.com''"
proof -
  have h: "parse_host (after_last CHR ''@'' ''u:p@hooks.slack.com'') = Some ''hooks.slack.com''"
    "list_all is_letter ''https''" "to_lower ''https'' = ''https''" by code_simp+
  show ?thesis
    using redactURL_hides_path [of "''https''" "''u:p@hooks.slack.com''" "''services/T0/B0/secret''"] h by auto
qed



definition down :: "unit http_env" where
  "down = \<lparr>http_do = (\<lambda>rq t w. (None, w)), ctx_wait = (\<lambda>d w. (None, w))\<rparr>"


text \<open>
  A composite calls every child with the message, in order, each in the world the ones before
  it have left, whatever they returned; it succeeds exactly when all of them do, and otherwise
  gives the errors of those that failed, in order.
\<close>

theorem Multi_Notify_isolates:
  "Multi_Notify cs msg w =
    (let errs = List.map_filter (\<lambda>i. fst ((cs ! i) msg (world_before cs msg w i))) [0 ..< length cs]
     in (if errs = [] then None else Some (ErrJoin errs), world_before cs msg w (length cs)))"
  by (simp add: Multi_Notify_def notify_children_eq Let_def split: list.split)

end
