(* ===== verification/Poller.thy ===== *)
theory Poller
  imports Alerts WgShow Notify
begin

text \<open>
  \<^verbatim>\<open>dashboard/internal/poller/poller.go\<close>: the background sampler. One tick of the sample loop is
  \<open>collect\<close> (the three reads of the tick, the rows written from them, the caches and the metrics
  snapshot) followed by \<open>evaluateAlerts\<close>; a tick of the retention loop is \<open>retention_tick\<close>; the
  dispatch worker takes one event with \<open>dispatch_one\<close>. What the reads gave and the clock are
  arguments of a tick. The channel between the sample loop and the worker is a list.
\<close>

subsection \<open>State\<close>

definition DefaultSampleEvery :: duration where "DefaultSampleEvery = 30 * second"
definition DefaultRetentionEvery :: duration where "DefaultRetentionEvery = hour"
definition DefaultRetention :: duration where "DefaultRetention = 8 * 24 * hour + hour"
definition dispatchBufferSize :: nat where "dispatchBufferSize = 64"
definition peerOnlineThreshold :: duration where "peerOnlineThreshold = 3 * minute"

record peer_metric =
  pm_Name :: string
  pm_LastHandshake :: time
  pm_RxBytes :: int
  pm_TxBytes :: int

record disk_metric =
  dm_Mount :: string
  dm_PctFull :: rat

record metrics_snapshot =
  ms_ServiceActive :: bool
  ms_ServiceKnown :: bool
  ms_PeersTotal :: nat
  ms_PeersOnline :: nat
  ms_Peers :: "peer_metric list"
  ms_CPUPercent :: rat
  ms_CPUKnown :: bool
  ms_MemPercent :: rat
  ms_MemKnown :: bool
  ms_Disks :: "disk_metric list"

record poller =
  p_DB :: db
  p_Evaluator :: "evaluator option"
  p_StatusHolder :: "status_holder option"
  p_dispatch :: "event list"
  p_lastHandshake :: "string \<rightharpoonup> int"
  p_lastCPUPct :: rat
  p_lastCPUValid :: bool
  p_lastPeers :: "peer_sample list"
  p_lastPeersValid :: bool
  p_metrics :: metrics_snapshot

definition empty_metrics :: metrics_snapshot where
  "empty_metrics = \<lparr>ms_ServiceActive = False, ms_ServiceKnown = False, ms_PeersTotal = 0, ms_PeersOnline = 0,
     ms_Peers = [], ms_CPUPercent = 0, ms_CPUKnown = False, ms_MemPercent = 0, ms_MemKnown = False, ms_Disks = []\<rparr>"

definition New :: "db \<Rightarrow> evaluator option \<Rightarrow> status_holder option \<Rightarrow> poller" where
  "New d ev h = \<lparr>p_DB = d, p_Evaluator = ev, p_StatusHolder = h, p_dispatch = [], p_lastHandshake = Map.empty,
     p_lastCPUPct = 0, p_lastCPUValid = False, p_lastPeers = [], p_lastPeersValid = False, p_metrics = empty_metrics\<rparr>"

definition MetricsSnapshot :: "poller \<Rightarrow> metrics_snapshot" where
  "MetricsSnapshot p = p_metrics p"

definition recordHostMetrics :: "bool \<Rightarrow> rat \<Rightarrow> rat \<Rightarrow> poller \<Rightarrow> poller" where
  "recordHostMetrics valid cpu mem p =
     (if valid then p\<lparr>p_metrics := (p_metrics p)\<lparr>ms_CPUPercent := cpu, ms_CPUKnown := True,
                                                 ms_MemPercent := mem, ms_MemKnown := True\<rparr>\<rparr>
      else p\<lparr>p_metrics := (p_metrics p)\<lparr>ms_CPUKnown := False, ms_MemKnown := False\<rparr>\<rparr>)"

definition is_online :: "time \<Rightarrow> peer_sample \<Rightarrow> bool" where
  "is_online now s \<longleftrightarrow> \<not> is_zero (ps_LastHandshake s) \<and> time_sub now (ps_LastHandshake s) \<le> peerOnlineThreshold"

definition peer_metric_of :: "peer_sample \<Rightarrow> peer_metric" where
  "peer_metric_of s = \<lparr>pm_Name = ps_Name s, pm_LastHandshake = ps_LastHandshake s,
     pm_RxBytes = ps_RxBytes s, pm_TxBytes = ps_TxBytes s\<rparr>"

definition recordPeerMetrics :: "peer_sample list \<Rightarrow> time \<Rightarrow> poller \<Rightarrow> poller" where
  "recordPeerMetrics samples now p =
     p\<lparr>p_metrics := (p_metrics p)\<lparr>ms_Peers := map peer_metric_of samples, ms_PeersTotal := length samples,
                                  ms_PeersOnline := length (filter (is_online now) samples)\<rparr>\<rparr>"

definition recordServiceMetric :: "bool \<Rightarrow> poller \<Rightarrow> poller" where
  "recordServiceMetric active p =
     p\<lparr>p_metrics := (p_metrics p)\<lparr>ms_ServiceActive := active, ms_ServiceKnown := True\<rparr>\<rparr>"

definition recordDiskMetrics :: "(string \<times> rat) list \<Rightarrow> poller \<Rightarrow> poller" where
  "recordDiskMetrics mounts p =
     p\<lparr>p_metrics := (p_metrics p)\<lparr>ms_Disks := map (\<lambda>(path, pct). \<lparr>dm_Mount = path, dm_PctFull = pct\<rparr>) mounts\<rparr>\<rparr>"

subsection \<open>collect\<close>

record proc_stats =
  st_CPUPercent :: rat
  st_MemUsedPercent :: rat
  st_WgRxBytesCum :: int
  st_WgTxBytesCum :: int

text \<open>What the three reads of a tick gave, and the clock read after them.\<close>

record reads =
  rd_stats :: "string + proc_stats"
  rd_peers :: "string + wg_peer list"
  rd_clients :: "manifest_error + manifest_client list"
  rd_now :: time

datatype poll_error = PollProc string | PollWG string | PollManifest manifest_error | PollDb db_error

definition first_err :: "poll_error option \<Rightarrow> poll_error option \<Rightarrow> poll_error option" where
  "first_err a b = (case a of None \<Rightarrow> b | Some e \<Rightarrow> Some e)"

definition poll_db :: "unit dbm \<Rightarrow> poller \<Rightarrow> poll_error option \<times> poller" where
  "poll_db m p =
     (case m (p_DB p) of
        (Inl e, d) \<Rightarrow> (Some (PollDb e), p\<lparr>p_DB := d\<rparr>)
      | (Inr _, d) \<Rightarrow> (None, p\<lparr>p_DB := d\<rparr>))"

definition collect_stats :: "reads \<Rightarrow> poller \<Rightarrow> poll_error option \<times> poller" where
  "collect_stats r p =
     (case rd_stats r of
        Inl e \<Rightarrow> (None, recordHostMetrics False 0 0 (p\<lparr>p_lastCPUValid := False\<rparr>))
      | Inr st \<Rightarrow>
          (let p0 = recordHostMetrics True (st_CPUPercent st) (st_MemUsedPercent st)
                      (p\<lparr>p_lastCPUPct := st_CPUPercent st, p_lastCPUValid := True\<rparr>);
               (e1, p1) = poll_db (InsertSystemMetric \<lparr>sm_TS = rd_now r, sm_CPUPct = st_CPUPercent st,
                                     sm_MemPct = st_MemUsedPercent st\<rparr>) p0;
               (e2, p2) = poll_db (InsertTrafficMetric \<lparr>tm_TS = rd_now r, tm_RxBytesCum = st_WgRxBytesCum st,
                                     tm_TxBytesCum = st_WgTxBytesCum st\<rparr>) p1
           in (first_err e1 e2, p2)))"

definition traffic_row :: "time \<Rightarrow> (string \<rightharpoonup> manifest_client) \<Rightarrow> wg_peer \<Rightarrow> client_traffic" where
  "traffic_row now index pr =
     (let (name, addr) = (case index (wp_PublicKey pr) of
                            Some c \<Rightarrow> (mc_Name c, mc_Address c)
                          | None \<Rightarrow> (wp_PublicKey pr, []))
      in \<lparr>ct_TS = now, ct_PublicKey = wp_PublicKey pr, ct_Name = name, ct_Address = addr,
          ct_RxBytesCum = wp_TransferRx pr, ct_TxBytesCum = wp_TransferTx pr\<rparr>)"

definition collect_traffic :: "reads \<Rightarrow> poller \<Rightarrow> poll_error option \<times> poller" where
  "collect_traffic r p =
     (case (rd_peers r, rd_clients r) of
        (Inr peers, Inr cs) \<Rightarrow>
          if peers \<noteq> [] then poll_db (InsertClientTraffic (map (traffic_row (rd_now r) (ByPublicKey cs)) peers)) p
          else (None, p)
      | _ \<Rightarrow> (None, p))"

fun peer_samples :: "(string \<rightharpoonup> manifest_client) \<Rightarrow> wg_peer list \<Rightarrow> peer_sample list" where
  "peer_samples index [] = []"
| "peer_samples index (pr # ps) =
     (case index (wp_PublicKey pr) of
        None \<Rightarrow> peer_samples index ps
      | Some c \<Rightarrow> \<lparr>ps_Name = mc_Name c, ps_LastHandshake = wp_LatestHandshake pr,
                   ps_RxBytes = wp_TransferRx pr, ps_TxBytes = wp_TransferTx pr\<rparr> # peer_samples index ps)"

definition collect_peers :: "reads \<Rightarrow> poller \<Rightarrow> poller" where
  "collect_peers r p =
     (case (rd_peers r, rd_clients r) of
        (Inr peers, Inr cs) \<Rightarrow>
          (let samples = peer_samples (ByPublicKey cs) peers
           in recordPeerMetrics samples (rd_now r) (p\<lparr>p_lastPeers := samples, p_lastPeersValid := True\<rparr>))
      | _ \<Rightarrow> p\<lparr>p_lastPeersValid := False\<rparr>)"

text \<open>The loop over the peers that emits the handshakes newer than the cached one.\<close>

fun handshake_loop :: "(string \<rightharpoonup> manifest_client) \<Rightarrow> wg_peer list \<Rightarrow> (string \<rightharpoonup> int) \<Rightarrow>
    handshake_event list \<times> (string \<rightharpoonup> int)" where
  "handshake_loop manifest [] cache = ([], cache)"
| "handshake_loop manifest (pr # ps) cache =
     (if is_zero (wp_LatestHandshake pr) then handshake_loop manifest ps cache
      else (let hs = unix_secs (wp_LatestHandshake pr);
                prior = (case cache (wp_PublicKey pr) of None \<Rightarrow> 0 | Some v \<Rightarrow> v)
            in if hs > prior then
                 (let name = (case manifest (wp_PublicKey pr) of None \<Rightarrow> wp_PublicKey pr | Some c \<Rightarrow> mc_Name c);
                      (evs, cache') = handshake_loop manifest ps (cache(wp_PublicKey pr \<mapsto> hs))
                  in (\<lparr>he_TS = unix_time hs, he_PublicKey = wp_PublicKey pr, he_Name = name\<rparr> # evs, cache'))
               else handshake_loop manifest ps cache))"

definition manifest_index :: "reads \<Rightarrow> (string \<rightharpoonup> manifest_client)" where
  "manifest_index r = (case rd_clients r of Inl e \<Rightarrow> Map.empty | Inr cs \<Rightarrow> ByPublicKey cs)"

definition collect_handshakes :: "reads \<Rightarrow> poller \<Rightarrow> poll_error option \<times> poller" where
  "collect_handshakes r p =
     (case rd_peers r of
        Inl e \<Rightarrow> (None, p)
      | Inr peers \<Rightarrow>
          (case handshake_loop (manifest_index r) peers (p_lastHandshake p) of
             (events, cache) \<Rightarrow>
               (let p' = p\<lparr>p_lastHandshake := cache\<rparr>
                in if events \<noteq> [] then poll_db (InsertHandshakeEvents events) p' else (None, p'))))"

definition read_err :: "reads \<Rightarrow> poll_error option" where
  "read_err r =
     first_err (case rd_stats r of Inl e \<Rightarrow> Some (PollProc e) | Inr _ \<Rightarrow> None)
       (first_err (case rd_peers r of Inl e \<Rightarrow> Some (PollWG e) | Inr _ \<Rightarrow> None)
         (case rd_clients r of Inl e \<Rightarrow> Some (PollManifest e) | Inr _ \<Rightarrow> None))"

definition collect :: "reads \<Rightarrow> poller \<Rightarrow> poll_error option \<times> poller" where
  "collect r p =
     (let (e1, p1) = collect_stats r p;
          (e2, p2) = collect_traffic r p1;
          p3 = collect_peers r p2;
          (e4, p4) = collect_handshakes r p3
      in (first_err (read_err r) (first_err e1 (first_err e2 e4)), p4))"

subsection \<open>evaluateAlerts and the dispatch worker\<close>

text \<open>
  The reads of the alert path: the status of the unit and the mounts, each of which may have no
  reader; the clock.
\<close>

record alert_reads =
  ar_service :: "(string + bool) option"
  ar_disk :: "(string + (string \<times> rat) list) option"
  ar_now :: time

text \<open>The non-blocking send: an event is dropped when the buffer is full.\<close>

definition send_event :: "event \<Rightarrow> event list \<Rightarrow> event list" where
  "send_event ev q = (if length q < dispatchBufferSize then q @ [ev] else q)"

definition alert_input_of :: "alert_reads \<Rightarrow> bool \<Rightarrow> poller \<Rightarrow> alert_input" where
  "alert_input_of ar active p =
     \<lparr>in_ServiceActive = active,
      in_CPUPercent = (if p_lastCPUValid p then p_lastCPUPct p else 0),
      in_DiskUsage = (case ar_disk ar of
                        Some (Inr mounts) \<Rightarrow> map (\<lambda>(path, pct). \<lparr>fu_Mount = path, fu_PctFull = pct\<rparr>) mounts
                      | _ \<Rightarrow> []),
      in_Peers = (if p_lastPeersValid p then p_lastPeers p else [])\<rparr>"

definition finish_alerts :: "alert_reads \<Rightarrow> bool \<Rightarrow> evaluator \<Rightarrow> poller \<Rightarrow> poller" where
  "finish_alerts ar active e p =
     (let p1 = (case ar_disk ar of Some (Inr mounts) \<Rightarrow> recordDiskMetrics mounts p | _ \<Rightarrow> p);
          (events, e') = Evaluate (ar_now ar) (alert_input_of ar active p) e
      in p1\<lparr>p_Evaluator := Some e',
            p_StatusHolder := map_option (holder_Update (Active e') events) (p_StatusHolder p1),
            p_dispatch := fold send_event events (p_dispatch p1)\<rparr>)"

definition evaluateAlerts :: "alert_reads \<Rightarrow> poller \<Rightarrow> poller" where
  "evaluateAlerts ar p =
     (case p_Evaluator p of
        None \<Rightarrow> p
      | Some e \<Rightarrow>
          (case ar_service ar of
             None \<Rightarrow> finish_alerts ar False e p
           | Some (Inl err) \<Rightarrow> p
           | Some (Inr active) \<Rightarrow> finish_alerts ar active e (recordServiceMetric active p)))"

definition sample_tick :: "reads \<Rightarrow> alert_reads \<Rightarrow> poller \<Rightarrow> poller" where
  "sample_tick r ar p = evaluateAlerts ar (snd (collect r p))"

text \<open>One event taken from the channel; a notifier that is not set is the no-op one.\<close>

definition dispatch_one :: "'w notifier option \<Rightarrow> poller \<Rightarrow> 'w \<Rightarrow> poller \<times> 'w" where
  "dispatch_one notifier p w =
     (case (p_dispatch p, p_Evaluator p) of
        (ev # q, Some e) \<Rightarrow>
          (let n = (case notifier of None \<Rightarrow> NoOp_Notify | Some f \<Rightarrow> f)
           in (p\<lparr>p_dispatch := q\<rparr>, snd (n (FormatMessage ev (evaluator_Host e)) w)))
      | _ \<Rightarrow> (p, w))"

subsection \<open>The retention loop\<close>

definition retention_tick :: "time \<Rightarrow> duration \<Rightarrow> ('w \<Rightarrow> string option \<times> 'w) option \<Rightarrow> poller \<Rightarrow> 'w \<Rightarrow> poller \<times> 'w" where
  "retention_tick now retention recheck p w =
     (case PruneBefore (now - retention) (p_DB p) of
        (Inl e, d) \<Rightarrow> (p\<lparr>p_DB := d\<rparr>, w)
      | (Inr n, d) \<Rightarrow> (p\<lparr>p_DB := d\<rparr>, case recheck of None \<Rightarrow> w | Some f \<Rightarrow> snd (f w)))"

subsection \<open>Each table depends on its own reads\<close>

lemma db_each_no_fault:
  assumes "\<And>x d. faults d = [] \<Longrightarrow> f x d = (Inr (), d\<lparr>tabs := g x (tabs d)\<rparr>)"
  shows "faults d = [] \<Longrightarrow> db_each f xs d = (Inr (), d\<lparr>tabs := fold g xs (tabs d)\<rparr>)"
  by (induction xs arbitrary: d) (simp_all add: assms db_bind_def db_return_def)

lemma InsertClientTraffic_no_fault:
  assumes "faults d = []"
  shows "InsertClientTraffic rows d = (Inr (), d\<lparr>tabs := fold put_client_traffic rows (tabs d)\<rparr>)"
proof -
  let ?body = "db_bind (db_ok ''prepare client_traffic insert'')
      (\<lambda>_. db_each (\<lambda>r. db_call ''insert client_traffic row'' (\<lambda>t. Inr ((), put_client_traffic r t))) rows)"
  have "?body d = (Inr (), d\<lparr>tabs := fold put_client_traffic rows (tabs d)\<rparr>)"
    using assms db_each_no_fault [of "\<lambda>r. db_call ''insert client_traffic row'' (\<lambda>t. Inr ((), put_client_traffic r t))" put_client_traffic d rows]
    by (simp add: db_bind_def db_ok_no_fault db_call_no_fault)
  from db_tx_no_fault [where m = ?body, OF assms this] show ?thesis
    using assms by (simp add: InsertClientTraffic_def db_return_def)
qed

lemma InsertHandshakeEvents_no_fault:
  assumes "faults d = []"
  shows "InsertHandshakeEvents es d = (Inr (), d\<lparr>tabs := fold put_handshake es (tabs d)\<rparr>)"
proof -
  let ?body = "db_bind (db_ok ''prepare handshake_events insert'')
      (\<lambda>_. db_each (\<lambda>e. db_call ''insert handshake_events row'' (\<lambda>t. Inr ((), put_handshake e t))) es)"
  have "?body d = (Inr (), d\<lparr>tabs := fold put_handshake es (tabs d)\<rparr>)"
    using assms db_each_no_fault [of "\<lambda>e. db_call ''insert handshake_events row'' (\<lambda>t. Inr ((), put_handshake e t))" put_handshake d es]
    by (simp add: db_bind_def db_ok_no_fault db_call_no_fault)
  from db_tx_no_fault [where m = ?body, OF assms this] show ?thesis
    using assms by (simp add: InsertHandshakeEvents_def db_return_def)
qed

text \<open>The handshakes a tick emits, and what the tick does to each of the four tables.\<close>

definition emitted :: "reads \<Rightarrow> poller \<Rightarrow> handshake_event list" where
  "emitted r p = (case rd_peers r of Inl e \<Rightarrow> []
     | Inr ps \<Rightarrow> fst (handshake_loop (manifest_index r) ps (p_lastHandshake p)))"

definition stats_rows :: "reads \<Rightarrow> tables \<Rightarrow> tables" where
  "stats_rows r t =
     (case rd_stats r of
        Inl e \<Rightarrow> t
      | Inr st \<Rightarrow> t\<lparr>system_metrics := replace_row (unix_secs (rd_now r)) (st_CPUPercent st, st_MemUsedPercent st) (system_metrics t),
                    traffic_metrics := replace_row (unix_secs (rd_now r)) (st_WgRxBytesCum st, st_WgTxBytesCum st) (traffic_metrics t)\<rparr>)"

definition traffic_rows :: "reads \<Rightarrow> client_traffic list" where
  "traffic_rows r =
     (case (rd_peers r, rd_clients r) of
        (Inr ps, Inr cs) \<Rightarrow> map (traffic_row (rd_now r) (ByPublicKey cs)) ps
      | _ \<Rightarrow> [])"

lemma collect_stats_frame:
  "p_lastHandshake (snd (collect_stats r p)) = p_lastHandshake p"
  "p_dispatch (snd (collect_stats r p)) = p_dispatch p"
  "p_Evaluator (snd (collect_stats r p)) = p_Evaluator p"
  by (auto simp: collect_stats_def recordHostMetrics_def Let_def poll_db_def split: sum.splits prod.splits)

lemma collect_traffic_frame:
  "p_lastHandshake (snd (collect_traffic r p)) = p_lastHandshake p"
  "p_dispatch (snd (collect_traffic r p)) = p_dispatch p"
  "p_Evaluator (snd (collect_traffic r p)) = p_Evaluator p"
  by (auto simp: collect_traffic_def poll_db_def split: sum.splits prod.splits if_splits)

lemma collect_peers_frame [simp]:
  "p_lastHandshake (collect_peers r p) = p_lastHandshake p" "p_DB (collect_peers r p) = p_DB p"
  "p_dispatch (collect_peers r p) = p_dispatch p" "p_Evaluator (collect_peers r p) = p_Evaluator p"
  by (auto simp: collect_peers_def recordPeerMetrics_def Let_def split: sum.splits)

lemma collect_stats_no_fault:
  assumes "faults (p_DB p) = []"
  shows "fst (collect_stats r p) = None \<and> p_DB (snd (collect_stats r p)) = (p_DB p)\<lparr>tabs := stats_rows r (tabs (p_DB p))\<rparr>"
  using assms
  by (cases "rd_stats r")
    (simp_all add: collect_stats_def stats_rows_def poll_db_def InsertSystemMetric_def InsertTrafficMetric_def
      db_call_no_fault recordHostMetrics_def first_err_def)

lemma collect_traffic_no_fault:
  assumes "faults (p_DB p) = []"
  shows "fst (collect_traffic r p) = None \<and>
    p_DB (snd (collect_traffic r p)) = (p_DB p)\<lparr>tabs := fold put_client_traffic (traffic_rows r) (tabs (p_DB p))\<rparr>"
  using InsertClientTraffic_no_fault [OF assms]
  by (auto simp: collect_traffic_def traffic_rows_def poll_db_def split: sum.splits)

lemma collect_handshakes_no_fault:
  assumes "faults (p_DB p) = []"
  shows "fst (collect_handshakes r p) = None \<and>
    p_DB (snd (collect_handshakes r p)) = (p_DB p)\<lparr>tabs := fold put_handshake (emitted r p) (tabs (p_DB p))\<rparr>"
proof (cases "rd_peers r")
  case (Inr ps)
  obtain evs cache where l: "handshake_loop (manifest_index r) ps (p_lastHandshake p) = (evs, cache)" by fastforce
  show ?thesis
    using InsertHandshakeEvents_no_fault [OF assms, of evs] Inr l
    by (simp add: collect_handshakes_def emitted_def poll_db_def Let_def)
qed (simp add: collect_handshakes_def emitted_def)

lemma put_client_traffic_frame:
  "system_metrics (fold put_client_traffic rows t) = system_metrics t"
  "traffic_metrics (fold put_client_traffic rows t) = traffic_metrics t"
  "handshake_events (fold put_client_traffic rows t) = handshake_events t"
  "clients (fold put_client_traffic rows t) = clients t"
  by (induction rows arbitrary: t) (simp_all add: put_client_traffic_def)

lemma put_handshake_frame:
  "system_metrics (fold put_handshake es t) = system_metrics t"
  "traffic_metrics (fold put_handshake es t) = traffic_metrics t"
  "client_traffics (fold put_handshake es t) = client_traffics t"
  "clients (fold put_handshake es t) = clients t"
  by (induction es arbitrary: t) (simp_all add: put_handshake_def)

definition traffic_key :: "client_traffic \<Rightarrow> (int \<times> string) \<times> string \<times> string \<times> int \<times> int" where
  "traffic_key r = ((unix_secs (ct_TS r), ct_PublicKey r), ct_Name r, ct_Address r, ct_RxBytesCum r, ct_TxBytesCum r)"

lemma put_client_traffic_rows:
  "client_traffics (fold put_client_traffic rows t) =
    fold (\<lambda>r. replace_row (fst (traffic_key r)) (snd (traffic_key r))) rows (client_traffics t)"
  by (induction rows arbitrary: t) (simp_all add: put_client_traffic_def traffic_key_def)

lemma put_handshake_rows:
  "handshake_events (fold put_handshake es t) =
    fold (\<lambda>e. replace_row (unix_secs (he_TS e), he_PublicKey e) (he_Name e)) es (handshake_events t)"
  by (induction es arbitrary: t) (simp_all add: put_handshake_def)

lemma stats_rows_frame [simp]:
  "client_traffics (stats_rows r t) = client_traffics t" "handshake_events (stats_rows r t) = handshake_events t"
  "clients (stats_rows r t) = clients t"
  by (simp_all add: stats_rows_def split: sum.split)

lemma emitted_cong: "p_lastHandshake p' = p_lastHandshake p \<Longrightarrow> emitted r p' = emitted r p"
  by (simp add: emitted_def split: sum.split)

lemma collect_no_fault:
  assumes "faults (p_DB p) = []"
  shows "fst (collect r p) = read_err r \<and> p_DB (snd (collect r p)) =
    (p_DB p)\<lparr>tabs := fold put_handshake (emitted r p) (fold put_client_traffic (traffic_rows r) (stats_rows r (tabs (p_DB p))))\<rparr>"
proof -
  obtain e1 p1 where 1: "collect_stats r p = (e1, p1)" by fastforce
  obtain e2 p2 where 2: "collect_traffic r p1 = (e2, p2)" by fastforce
  obtain e4 p4 where 4: "collect_handshakes r (collect_peers r p2) = (e4, p4)" by fastforce
  have s1: "e1 = None" "p_DB p1 = (p_DB p)\<lparr>tabs := stats_rows r (tabs (p_DB p))\<rparr>"
    using collect_stats_no_fault [OF assms, of r] 1 by simp_all
  have f1: "faults (p_DB p1) = []" using s1 assms by simp
  have s2: "e2 = None" "p_DB p2 = (p_DB p1)\<lparr>tabs := fold put_client_traffic (traffic_rows r) (tabs (p_DB p1))\<rparr>"
    using collect_traffic_no_fault [OF f1, of r] 2 by simp_all
  have f2: "faults (p_DB (collect_peers r p2)) = []" using s2 f1 by simp
  have "p_lastHandshake (collect_peers r p2) = p_lastHandshake p"
    using collect_stats_frame(1) [of r p] collect_traffic_frame(1) [of r p1] 1 2 by simp
  then have e: "emitted r (collect_peers r p2) = emitted r p" by (rule emitted_cong)
  have s4: "e4 = None" "p_DB p4 = (p_DB p2)\<lparr>tabs := fold put_handshake (emitted r p) (tabs (p_DB p2))\<rparr>"
    using collect_handshakes_no_fault [OF f2, of r] 4 e by simp_all
  show ?thesis using 1 2 4 s1 s2 s4 by (simp add: collect_def first_err_def split: option.split)
qed

subsection \<open>Handshakes\<close>

definition cached :: "(string \<rightharpoonup> int) \<Rightarrow> string \<Rightarrow> int" where
  "cached cache k = (case cache k of None \<Rightarrow> 0 | Some v \<Rightarrow> v)"

text \<open>Times that go up strictly from \<open>lo\<close>, the last of them (or \<open>lo\<close>) being \<open>hi\<close>.\<close>

fun climbs :: "int \<Rightarrow> int list \<Rightarrow> int \<Rightarrow> bool" where
  "climbs lo [] hi = (hi = lo)"
| "climbs lo (t # ts) hi = (lo < t \<and> climbs t ts hi)"

lemma climbs_append: "climbs lo xs mid \<Longrightarrow> climbs mid ys hi \<Longrightarrow> climbs lo (xs @ ys) hi"
  by (induction xs arbitrary: lo) auto

lemma climbs_sorted: "climbs lo ts hi \<Longrightarrow> sorted_wrt (<) ts \<and> (\<forall>t \<in> set ts. lo < t \<and> t \<le> hi) \<and> lo \<le> hi"
proof (induction ts arbitrary: lo)
  case (Cons t ts)
  then have "sorted_wrt (<) ts" "\<forall>u \<in> set ts. t < u \<and> u \<le> hi" "t \<le> hi" "lo < t" by auto
  then show ?case by auto
qed simp

lemma climbs_last: "climbs lo ts hi \<Longrightarrow> lo < hi \<Longrightarrow> hi \<in> set ts"
proof (induction ts arbitrary: lo)
  case (Cons t ts)
  then show ?case using climbs_sorted [of t ts hi] by (cases "t = hi") auto
qed simp

definition secs_of :: "string \<Rightarrow> handshake_event list \<Rightarrow> int list" where
  "secs_of k es = map (\<lambda>e. unix_secs (he_TS e)) (filter (\<lambda>e. he_PublicKey e = k) es)"

lemma secs_of_simps [simp]:
  "secs_of k [] = []" "secs_of k (e # es) = (if he_PublicKey e = k then [unix_secs (he_TS e)] else []) @ secs_of k es"
  "secs_of k (xs @ ys) = secs_of k xs @ secs_of k ys"
  by (simp_all add: secs_of_def)

lemma handshake_skip:
  "is_zero (wp_LatestHandshake pr) \<or> unix_secs (wp_LatestHandshake pr) \<le> cached cache (wp_PublicKey pr) \<Longrightarrow>
    handshake_loop m (pr # ps) cache = handshake_loop m ps cache"
  by (auto simp: cached_def Let_def split: option.splits)

lemma handshake_take:
  assumes "handshake_loop m (pr # ps) cache = (evs, cache')"
    and "\<not> (is_zero (wp_LatestHandshake pr) \<or> unix_secs (wp_LatestHandshake pr) \<le> cached cache (wp_PublicKey pr))"
  obtains es n where "handshake_loop m ps (cache(wp_PublicKey pr \<mapsto> unix_secs (wp_LatestHandshake pr))) = (es, cache')"
    and "evs = \<lparr>he_TS = unix_time (unix_secs (wp_LatestHandshake pr)), he_PublicKey = wp_PublicKey pr, he_Name = n\<rparr> # es"
  using assms by (auto simp: cached_def Let_def split: option.splits prod.splits)

declare handshake_loop.simps(2) [simp del]

lemma handshake_loop_climbs:
  "handshake_loop m ps cache = (evs, cache') \<Longrightarrow> climbs (cached cache k) (secs_of k evs) (cached cache' k)"
proof (induction ps arbitrary: cache evs)
  case (Cons pr ps)
  show ?case
  proof (cases "is_zero (wp_LatestHandshake pr) \<or> unix_secs (wp_LatestHandshake pr) \<le> cached cache (wp_PublicKey pr)")
    case True
    with Cons handshake_skip [OF True] show ?thesis by simp
  next
    case False
    from handshake_take [OF Cons.prems False] obtain es n where
      es: "handshake_loop m ps (cache(wp_PublicKey pr \<mapsto> unix_secs (wp_LatestHandshake pr))) = (es, cache')"
      and e: "evs = \<lparr>he_TS = unix_time (unix_secs (wp_LatestHandshake pr)), he_PublicKey = wp_PublicKey pr, he_Name = n\<rparr> # es" .
    from Cons.IH [OF es] show ?thesis using e False by (auto simp: cached_def)
  qed
qed simp

lemma cached_mono: "handshake_loop m ps cache = (evs, cache') \<Longrightarrow> cached cache k \<le> cached cache' k"
  using climbs_sorted [OF handshake_loop_climbs] by blast

lemma handshake_loop_covers:
  assumes "handshake_loop m ps cache = (evs, cache')" and "pr \<in> set ps" and "\<not> is_zero (wp_LatestHandshake pr)"
  shows "unix_secs (wp_LatestHandshake pr) \<le> cached cache' (wp_PublicKey pr)"
  using assms(1,2)
proof (induction ps arbitrary: cache evs)
  case (Cons q ps)
  show ?case
  proof (cases "is_zero (wp_LatestHandshake q) \<or> unix_secs (wp_LatestHandshake q) \<le> cached cache (wp_PublicKey q)")
    case True
    have l: "handshake_loop m ps cache = (evs, cache')" using Cons.prems(1) handshake_skip [OF True] by simp
    show ?thesis
      using Cons.IH [OF l] Cons.prems(2) True assms(3) cached_mono [OF l, of "wp_PublicKey q"] by auto
  next
    case False
    from handshake_take [OF Cons.prems(1) False] obtain es where
      es: "handshake_loop m ps (cache(wp_PublicKey q \<mapsto> unix_secs (wp_LatestHandshake q))) = (es, cache')" .
    show ?thesis
      using Cons.IH [OF es] Cons.prems(2) cached_mono [OF es, of "wp_PublicKey q"] by (auto simp: cached_def)
  qed
qed simp

subsection \<open>Runs\<close>

lemma poll_db_frame [simp]:
  "p_lastHandshake (snd (poll_db m p)) = p_lastHandshake p" "p_dispatch (snd (poll_db m p)) = p_dispatch p"
  "p_Evaluator (snd (poll_db m p)) = p_Evaluator p" "p_DB (snd (poll_db m p)) = snd (m (p_DB p))"
  by (simp_all add: poll_db_def split: prod.split sum.split)

lemma collect_handshakes_cache:
  "p_lastHandshake (snd (collect_handshakes r p)) =
    (case rd_peers r of Inl e \<Rightarrow> p_lastHandshake p
     | Inr ps \<Rightarrow> snd (handshake_loop (manifest_index r) ps (p_lastHandshake p)))"
  "p_dispatch (snd (collect_handshakes r p)) = p_dispatch p"
  "p_Evaluator (snd (collect_handshakes r p)) = p_Evaluator p"
  by (simp_all add: collect_handshakes_def Let_def split: sum.split prod.split)

lemma collect_frame:
  "p_lastHandshake (snd (collect r p)) =
    (case rd_peers r of Inl e \<Rightarrow> p_lastHandshake p
     | Inr ps \<Rightarrow> snd (handshake_loop (manifest_index r) ps (p_lastHandshake p)))"
  "p_dispatch (snd (collect r p)) = p_dispatch p" "p_Evaluator (snd (collect r p)) = p_Evaluator p"
  by (simp_all add: collect_def split_beta Let_def collect_handshakes_cache collect_stats_frame collect_traffic_frame
      split: sum.split)

lemma evaluateAlerts_frame:
  "p_lastHandshake (evaluateAlerts ar p) = p_lastHandshake p" "p_DB (evaluateAlerts ar p) = p_DB p"
  by (auto simp: evaluateAlerts_def finish_alerts_def Let_def recordDiskMetrics_def recordServiceMetric_def
      split: option.splits sum.splits prod.splits)

lemma tick_climbs:
  "climbs (cached (p_lastHandshake p) k) (secs_of k (emitted r p)) (cached (p_lastHandshake (sample_tick r ar p)) k)"
proof (cases "rd_peers r")
  case (Inr ps)
  obtain evs c where "handshake_loop (manifest_index r) ps (p_lastHandshake p) = (evs, c)" by fastforce
  from handshake_loop_climbs [OF this] this Inr show ?thesis
    by (simp add: sample_tick_def evaluateAlerts_frame collect_frame emitted_def)
qed (simp add: sample_tick_def evaluateAlerts_frame collect_frame emitted_def)

fun run_poller :: "(reads \<times> alert_reads) list \<Rightarrow> poller \<Rightarrow> handshake_event list \<times> poller" where
  "run_poller [] p = ([], p)"
| "run_poller ((r, ar) # ts) p =
     (case run_poller ts (sample_tick r ar p) of (evs, p') \<Rightarrow> (emitted r p @ evs, p'))"

lemma run_climbs:
  "run_poller ts p = (evs, p') \<Longrightarrow>
    climbs (cached (p_lastHandshake p) k) (secs_of k evs) (cached (p_lastHandshake p') k)"
proof (induction ts arbitrary: p evs)
  case (Cons t ts)
  obtain r ar where t: "t = (r, ar)" by fastforce
  obtain es where es: "run_poller ts (sample_tick r ar p) = (es, p')" and e: "evs = emitted r p @ es"
    using Cons.prems t by (auto split: prod.splits)
  from climbs_append [OF tick_climbs Cons.IH [OF es]] show ?case by (simp add: e)
qed simp

lemma run_covers:
  assumes "run_poller ts p = (evs, p')" and "(r, ar) \<in> set ts" and "rd_peers r = Inr ps" and "pr \<in> set ps"
    and "\<not> is_zero (wp_LatestHandshake pr)"
  shows "unix_secs (wp_LatestHandshake pr) \<le> cached (p_lastHandshake p') (wp_PublicKey pr)"
  using assms(1,2)
proof (induction ts arbitrary: p evs)
  case (Cons t ts)
  obtain r0 ar0 where t: "t = (r0, ar0)" by fastforce
  obtain es where es: "run_poller ts (sample_tick r0 ar0 p) = (es, p')"
    using Cons.prems(1) t by (auto split: prod.splits)
  have up: "cached (p_lastHandshake (sample_tick r0 ar0 p)) (wp_PublicKey pr) \<le> cached (p_lastHandshake p') (wp_PublicKey pr)"
    using climbs_sorted [OF run_climbs [OF es]] by blast
  show ?case
  proof (cases "(r, ar) = t")
    case True
    obtain hs c where l: "handshake_loop (manifest_index r) ps (p_lastHandshake p) = (hs, c)" by fastforce
    have "unix_secs (wp_LatestHandshake pr) \<le> cached c (wp_PublicKey pr)"
      by (rule handshake_loop_covers [OF l assms(4,5)])
    with up show ?thesis using l True t assms(3)
      by (simp add: sample_tick_def evaluateAlerts_frame collect_frame)
  next
    case False
    then show ?thesis using Cons.IH [OF es] Cons.prems(2) by simp
  qed
qed simp

subsection \<open>The queue of alerts\<close>

lemma fold_send: "length q \<le> dispatchBufferSize \<Longrightarrow> fold send_event evs q = take dispatchBufferSize (q @ evs)"
proof (induction evs arbitrary: q)
  case (Cons e evs)
  show ?case
  proof (cases "length q < dispatchBufferSize")
    case True
    then show ?thesis using Cons.IH [of "q @ [e]"] by (simp add: send_event_def)
  next
    case False
    then show ?thesis using Cons by (simp add: send_event_def)
  qed
qed simp

datatype poll_op = OpTick reads alert_reads | OpDispatch | OpRetain time duration | OpDriver "bool list"

text \<open>What the ticks do to the poller's own state: the deliveries of the worker do not feed back.\<close>

fun poll_step :: "poll_op \<Rightarrow> poller \<Rightarrow> poller" where
  "poll_step (OpTick r ar) p = sample_tick r ar p"
| "poll_step OpDispatch p = fst (dispatch_one (None :: unit notifier option) p ())"
| "poll_step (OpRetain now d) p = fst (retention_tick now d (None :: (unit \<Rightarrow> string option \<times> unit) option) p ())"
| "poll_step (OpDriver fs) p = p\<lparr>p_DB := (p_DB p)\<lparr>faults := fs\<rparr>\<rparr>"

definition poll_inv :: "poller \<Rightarrow> bool" where
  "poll_inv p \<longleftrightarrow> length (p_dispatch p) \<le> dispatchBufferSize \<and> tables_ok (tabs (p_DB p))"

lemma finish_alerts_queue:
  "p_dispatch (finish_alerts ar active e p) =
    fold send_event (fst (Evaluate (ar_now ar) (alert_input_of ar active p) e)) (p_dispatch p)"
  by (auto simp: finish_alerts_def Let_def recordDiskMetrics_def split: prod.splits option.splits sum.splits)

lemma evaluateAlerts_queue:
  "length (p_dispatch p) \<le> dispatchBufferSize \<Longrightarrow> length (p_dispatch (evaluateAlerts ar p)) \<le> dispatchBufferSize"
  by (auto simp: evaluateAlerts_def finish_alerts_queue fold_send recordServiceMetric_def split: option.split sum.split)

lemma snd_poll_db_keeps: "keeps P m \<Longrightarrow> P (tabs (p_DB p)) \<Longrightarrow> P (tabs (p_DB (snd (poll_db m p))))"
  by (simp add: keepsD)

lemma recordHost_DB [simp]: "p_DB (recordHostMetrics b c m p) = p_DB p"
  by (simp add: recordHostMetrics_def)

lemma collect_tables_ok:
  assumes "tables_ok (tabs (p_DB p))" shows "tables_ok (tabs (p_DB (snd (collect r p))))"
proof -
  have s: "tables_ok (tabs (p_DB (snd (collect_stats r p))))" if "tables_ok (tabs (p_DB p))" for p
    using that
    by (auto simp: collect_stats_def Let_def split_beta split: sum.split
        intro!: keepsD [OF keeps_InsertTrafficMetric] keepsD [OF keeps_InsertSystemMetric])
  have t: "tables_ok (tabs (p_DB (snd (collect_traffic r p))))" if "tables_ok (tabs (p_DB p))" for p
    using that by (auto simp: collect_traffic_def split: sum.split intro!: keepsD [OF keeps_InsertClientTraffic])
  have h: "tables_ok (tabs (p_DB (snd (collect_handshakes r p))))" if "tables_ok (tabs (p_DB p))" for p
    using that by (auto simp: collect_handshakes_def Let_def split: sum.split prod.split
        intro!: keepsD [OF keeps_InsertHandshakeEvents])
  show ?thesis using h [OF _, of "collect_peers r (snd (collect_traffic r (snd (collect_stats r p))))"] t [OF s [OF assms]]
    by (simp add: collect_def split_beta Let_def)
qed

lemma poll_step_inv: "poll_inv p \<Longrightarrow> poll_inv (poll_step ev p)"
proof (cases ev)
  case (OpTick r ar)
  assume "poll_inv p"
  then show ?thesis using OpTick evaluateAlerts_queue [of "snd (collect r p)" ar] collect_tables_ok [of p r]
    by (simp add: poll_inv_def sample_tick_def evaluateAlerts_frame collect_frame)
next
  case OpDispatch
  assume "poll_inv p"
  then show ?thesis using OpDispatch
    by (auto simp: poll_inv_def dispatch_one_def Let_def split: list.split option.split)
next
  case (OpRetain now d)
  assume "poll_inv p"
  then have "tables_ok (tabs (snd (PruneBefore (now - d) (p_DB p))))"
    by (intro keepsD [OF keeps_PruneBefore]) (simp add: poll_inv_def)
  then show ?thesis using OpRetain \<open>poll_inv p\<close>
    by (auto simp: poll_inv_def retention_tick_def split: prod.split sum.split)
next
  case (OpDriver fs)
  assume "poll_inv p"
  then show ?thesis using OpDriver by (simp add: poll_inv_def)
qed

interpretation poll_ops: op_invariant poll_inv "\<lambda>_. True" poll_step
  by unfold_locales (rule poll_step_inv)

subsection \<open>Properties\<close>


definition idle_reads :: reads where
  "idle_reads = \<lparr>rd_stats = Inl ''no /proc'', rd_peers = Inr [sample_peer\<lparr>wp_LatestHandshake := unix_time 7\<rparr>],
     rd_clients = Inl ManifestParse, rd_now = unix_time 10\<rparr>"

lemma idle_emitted:
  "emitted idle_reads (New (open_db fs) None None) = [\<lparr>he_TS = unix_time 7, he_PublicKey = ''K='', he_Name = ''K=''\<rparr>]"
  by (simp add: emitted_def idle_reads_def manifest_index_def New_def handshake_loop.simps sample_peer_def is_zero_def
      zero_time_def unix_time_def unix_secs_def)



definition no_alerts :: alert_reads where
  "no_alerts = \<lparr>ar_service = None, ar_disk = None, ar_now = 0\<rparr>"




text \<open>
  A tick whose status read succeeds shows in the alert view exactly what the evaluator holds
  active, even when the queue is full; the queue takes the events of the tick in order as far as
  there is room, and drops the rest.
\<close>

theorem alerts_view_and_queue:
  assumes "p_Evaluator p = Some e" and "p_StatusHolder p = Some h" and "ar_service ar = Some (Inr active)"
    and "length (p_dispatch p) \<le> 64"
  shows "\<exists>e' h' events. Evaluate (ar_now ar) (alert_input_of ar active p) e = (events, e') \<and>
    p_Evaluator (evaluateAlerts ar p) = Some e' \<and> p_StatusHolder (evaluateAlerts ar p) = Some h' \<and>
    st_Active (Snapshot h') = Active e' \<and>
    p_dispatch (evaluateAlerts ar p) = take 64 (p_dispatch p @ events)"
proof -
  obtain events e' where ev: "Evaluate (ar_now ar) (alert_input_of ar active p) e = (events, e')" by fastforce
  have i: "alert_input_of ar active (recordServiceMetric active p) = alert_input_of ar active p"
    by (simp add: alert_input_of_def recordServiceMetric_def)
  have "evaluateAlerts ar p = finish_alerts ar active e (recordServiceMetric active p)"
    using assms(1,3) by (simp add: evaluateAlerts_def)
  moreover have "p_dispatch (finish_alerts ar active e (recordServiceMetric active p)) = take 64 (p_dispatch p @ events)"
    using assms(4) fold_send [of "p_dispatch p" events]
    by (simp add: finish_alerts_queue i ev dispatchBufferSize_def) (simp add: recordServiceMetric_def)
  moreover have "p_StatusHolder (finish_alerts ar active e (recordServiceMetric active p)) =
      Some (holder_Update (Active e') events h)" "p_Evaluator (finish_alerts ar active e (recordServiceMetric active p)) = Some e'"
    using assms(2) unfolding finish_alerts_def Let_def i ev prod.case
    by (auto simp: recordServiceMetric_def recordDiskMetrics_def split: option.splits sum.splits)
  ultimately show ?thesis using ev by (simp add: Snapshot_def holder_Update_def Let_def)
qed

theorem alerts_view_and_queue_witness:
  "\<exists>e'. p_Evaluator (evaluateAlerts \<lparr>ar_service = Some (Inr False), ar_disk = None, ar_now = 5\<rparr>
    (New (open_db []) (Some (Alerts.New no_config)) (Some NewStatusHolder))) = Some e'"
  using alerts_view_and_queue [of "New (open_db []) (Some (Alerts.New no_config)) (Some NewStatusHolder)" "Alerts.New no_config"
      NewStatusHolder "\<lparr>ar_service = Some (Inr False), ar_disk = None, ar_now = 5\<rparr>" False]
  by (auto simp: New_def)

end
