(* ===== verification/GoFloat.thy ===== *)
theory GoFloat
  imports GoFmt
begin

text \<open>
  Arithmetic on \<^verbatim>\<open>float64\<close>. A finite value is a rational number, and every operation of the
  code is the exact one followed by \<open>fl\<close>, the rounding to 53 significant bits, ties to even.
  Overflow to infinity and the subnormal numbers are left out: the operands of the components are
  counters, sizes and durations, whose quotients stay far from both ends of the range.
\<close>

definition flog2 :: "rat \<Rightarrow> int" where
  "flog2 x =
     (let (p, q) = quotient_of x; e = int (bit_length (nat p)) - int (bit_length (nat q))
      in if x < 2 powi e then e - 1 else e)"

definition fl :: "rat \<Rightarrow> rat" where
  "fl x =
     (if x = 0 then 0
      else (let u = 2 powi (flog2 \<bar>x\<bar> - 52) in of_int (round_half_even (x / u)) * u))"

lemma fl_zero [simp]: "fl 0 = 0" by (simp add: fl_def)

lemma bit_length_bounds: "0 < n \<Longrightarrow> 2 ^ (bit_length n - 1) \<le> n \<and> n < 2 ^ bit_length n \<and> 0 < bit_length n"
proof (induction n rule: bit_length.induct)
  case (1 n)
  show ?case
  proof (cases "n div 2 = 0")
    case True
    with 1 have "n = 1" by auto
    then show ?thesis by (simp add: bit_length.simps)
  next
    case False
    with 1 have "2 ^ (bit_length (n div 2) - 1) \<le> n div 2" "n div 2 < 2 ^ bit_length (n div 2)"
      "0 < bit_length (n div 2)" by auto
    then have "2 * 2 ^ (bit_length (n div 2) - 1) \<le> n" "n < 2 * 2 ^ bit_length (n div 2)" by linarith+
    moreover have "2 * 2 ^ (bit_length (n div 2) - 1) = (2 :: nat) ^ bit_length (n div 2)"
      using \<open>0 < bit_length (n div 2)\<close> by (metis Suc_diff_1 power_Suc)
    moreover have "bit_length n = Suc (bit_length (n div 2))" using 1 by (subst bit_length.simps) simp
    ultimately show ?thesis by simp
  qed
qed

lemma flog2_bounds:
  assumes "0 < x"
  shows "2 powi flog2 x \<le> x" "x < 2 powi (flog2 x + 1)"
proof -
  obtain p q where pq: "quotient_of x = (p, q)" by fastforce
  then have q: "0 < q" and x: "x = of_int p / of_int q" using quotient_of_denom_pos quotient_of_div by auto
  with assms have p: "0 < p" by (simp add: zero_less_divide_iff)
  let ?a = "bit_length (nat p)" and ?b = "bit_length (nat q)"
  have "2 ^ (?a - 1) \<le> nat p" "nat p < 2 ^ ?a" "0 < ?a" "2 ^ (?b - 1) \<le> nat q" "nat q < 2 ^ ?b" "0 < ?b"
    using bit_length_bounds [of "nat p"] bit_length_bounds [of "nat q"] p q by auto
  then have ip: "2 ^ (?a - 1) \<le> p" "p < 2 ^ ?a" "2 ^ (?b - 1) \<le> q" "q < 2 ^ ?b" and ab: "0 < ?a" "0 < ?b"
    using p q by (simp_all add: nat_less_iff le_nat_iff)
  have A: "2 powi (int ?a - 1) \<le> (of_int p :: rat)" "(of_int p :: rat) < 2 powi int ?a"
  proof -
    have "of_int (2 ^ (?a - 1)) \<le> (of_int p :: rat)" "(of_int p :: rat) < of_int (2 ^ ?a)"
      using ip by (simp_all only: of_int_le_iff of_int_less_iff)
    moreover have "int ?a - 1 = int (?a - 1)" using ab by simp
    ultimately show "2 powi (int ?a - 1) \<le> (of_int p :: rat)" "(of_int p :: rat) < 2 powi int ?a"
      by (simp_all del: of_nat_diff)
  qed
  have B: "2 powi (int ?b - 1) \<le> (of_int q :: rat)" "(of_int q :: rat) < 2 powi int ?b"
  proof -
    have "of_int (2 ^ (?b - 1)) \<le> (of_int q :: rat)" "(of_int q :: rat) < of_int (2 ^ ?b)"
      using ip by (simp_all only: of_int_le_iff of_int_less_iff)
    moreover have "int ?b - 1 = int (?b - 1)" using ab by simp
    ultimately show "2 powi (int ?b - 1) \<le> (of_int q :: rat)" "(of_int q :: rat) < 2 powi int ?b"
      by (simp_all del: of_nat_diff)
  qed
  let ?e = "int ?a - int ?b"
  have "2 powi (?e - 1) * (of_int q :: rat) \<le> 2 powi (?e - 1) * 2 powi int ?b" using B by (intro mult_left_mono) auto
  also have "\<dots> = 2 powi (int ?a - 1)" by (subst power_int_add [symmetric]) (simp_all add: algebra_simps)
  finally have lo: "2 powi (?e - 1) \<le> x" using A q unfolding x by (simp add: pos_le_divide_eq)
  have "(of_int p :: rat) < 2 powi int ?a" by (rule A)
  also have "\<dots> = 2 powi (?e + 1) * 2 powi (int ?b - 1)" by (subst power_int_add [symmetric]) (simp_all add: algebra_simps)
  also have "\<dots> \<le> 2 powi (?e + 1) * of_int q" using B by (intro mult_left_mono) auto
  finally have hi: "x < 2 powi (?e + 1)" using q unfolding x by (simp add: pos_divide_less_eq)
  show "2 powi flog2 x \<le> x" "x < 2 powi (flog2 x + 1)" using lo hi by (auto simp: flog2_def pq Let_def)
qed

lemma round_half_even_near: "\<bar>of_int (round_half_even r) - r\<bar> \<le> 1 / 2"
  using of_int_floor_le [of r] floor_correct [of r] by (simp add: round_half_even_def Let_def)

lemma round_half_even_unique:
  assumes "\<bar>of_int k - r\<bar> < 1 / 2"
  shows "round_half_even r = k"
proof -
  have "\<bar>of_int (round_half_even r) - of_int k :: rat\<bar> < 1" using assms round_half_even_near [of r] by linarith
  then have "\<bar>round_half_even r - k\<bar> < 1" by (simp flip: of_int_diff of_int_abs)
  then show ?thesis by simp
qed

lemma fl_near: "\<bar>fl x - x\<bar> \<le> \<bar>x\<bar> / 2 ^ 53"
proof (cases "x = 0")
  case False
  define u :: rat where "u = 2 powi (flog2 \<bar>x\<bar> - 52)"
  have u: "0 < u" by (simp add: u_def)
  have "\<bar>fl x - x\<bar> = \<bar>of_int (round_half_even (x / u)) - x / u\<bar> * u"
    using u False by (simp add: fl_def Let_def flip: u_def) (simp add: abs_mult_pos' algebra_simps)
  also have "\<dots> \<le> 1 / 2 * u" using u by (intro mult_right_mono round_half_even_near) simp
  also have "u = 2 powi flog2 \<bar>x\<bar> / 2 ^ 52" by (simp add: u_def power_int_diff)
  also have "1 / 2 * (2 powi flog2 \<bar>x\<bar> / 2 ^ 52) \<le> \<bar>x\<bar> / (2 ^ 53 :: rat)"
    using flog2_bounds(1) [of "\<bar>x\<bar>"] False by simp
  finally show ?thesis .
qed simp

text \<open>A value close to an integer of the format rounds to it.\<close>

lemma fl_to_int:
  assumes "0 < x" and "2 ^ e \<le> x" and "x < 2 ^ Suc e" and "e \<le> 52" and "\<bar>of_int k - x\<bar> * 2 ^ (53 - e) < 1"
  shows "fl x = of_int k"
proof -
  have "flog2 x = int e"
  proof -
    have "(2 :: rat) powi flog2 x < 2 powi (int e + 1)" "(2 :: rat) powi int e < 2 powi (flog2 x + 1)"
      using flog2_bounds [OF assms(1)] assms(2,3) by (auto simp: power_int_add)
    then have "\<not> int e + 1 \<le> flog2 x" "\<not> flog2 x + 1 \<le> int e"
      using power_int_increasing [of "int e + 1" "flog2 x" "2 :: rat"] power_int_increasing [of "flog2 x + 1" "int e" "2 :: rat"] by auto
    then show ?thesis by linarith
  qed
  then have "fl x = of_int (round_half_even (x * 2 ^ (52 - e))) / 2 ^ (52 - e)"
  proof -
    have "(2 :: rat) powi (int e - 52) = inverse (2 ^ (52 - e))"
      using assms(4) by (simp add: power_int_def nat_diff_distrib' power_one_over inverse_eq_divide)
    with \<open>flog2 x = int e\<close> assms(1) show ?thesis by (simp add: fl_def Let_def divide_inverse)
  qed
  moreover have "round_half_even (x * 2 ^ (52 - e)) = k * 2 ^ (52 - e)"
  proof (rule round_half_even_unique)
    have "2 * \<bar>of_int (k * 2 ^ (52 - e)) - x * 2 ^ (52 - e)\<bar> = \<bar>of_int k - x\<bar> * 2 ^ (53 - e)"
    proof -
      have "53 - e = Suc (52 - e)" using assms(4) by simp
      then show ?thesis by (simp add: abs_mult flip: left_diff_distrib)
    qed
    with assms(5) show "\<bar>of_int (k * 2 ^ (52 - e)) - x * 2 ^ (52 - e)\<bar> < 1 / 2" by linarith
  qed
  ultimately show ?thesis by simp
qed

end
