(* ===== verification/History.thy ===== *)
theory History
  imports GoFloat Db
begin

text \<open>
  Connection history (\<^verbatim>\<open>internal/history/history.go\<close>) and the throughput percentile
  (\<^verbatim>\<open>internal/p95/p95.go\<close> with its caller in \<^verbatim>\<open>internal/server/handlers_clients.go\<close>). The
  sessions are specified as the maximal runs of handshakes whose gaps stay within the threshold,
  the percentile by counting: the least value that at least 95 in a hundred do not exceed.
\<close>

subsection \<open>Sessions\<close>

definition SessionGapThreshold :: duration where "SessionGapThreshold = 10 * minute"

record session =
  Start :: time
  End :: time

definition session_Duration :: "session \<Rightarrow> duration" where
  "session_Duration s = time_sub (End s) (Start s)"

record summary =
  Sessions :: "session list"
  SessionCount :: int
  ConnectedTime :: duration
  Online :: bool
  LastSeen :: time
  LastSeenText :: string

definition plural :: "int \<Rightarrow> string \<Rightarrow> string" where
  "plural n unit = (if n = 1 then ''1 '' @ unit @ '' ago'' else itoa n @ '' '' @ unit @ ''s ago'')"

text \<open>
  \<^verbatim>\<open>d.Minutes()\<close>, \<^verbatim>\<open>d.Hours()\<close> and \<^verbatim>\<open>d.Seconds()\<close>: the whole units, truncated
  towards zero, plus the rest as a fraction, both in floating point.
\<close>

definition in_units :: "duration \<Rightarrow> duration \<Rightarrow> rat" where
  "in_units unit d =
     fl (of_int (sgn d * (\<bar>d\<bar> div unit)) + fl (of_int (sgn d * (\<bar>d\<bar> mod unit)) / of_int unit))"

definition humanizeSince :: "time \<Rightarrow> time \<Rightarrow> string" where
  "humanizeSince now t =
     (if is_zero t then ''never''
      else (let d = time_sub now t
            in if d < minute then ''just now''
               else if d < hour then plural \<lfloor>in_units minute d\<rfloor> ''minute''
               else if d < 24 * hour then plural \<lfloor>in_units hour d\<rfloor> ''hour''
               else plural (\<lfloor>in_units hour d\<rfloor> div 24) ''day''))"

text \<open>The walk over the timestamps: the start of the open session and the handshake before.\<close>

fun session_walk :: "duration \<Rightarrow> time \<Rightarrow> time \<Rightarrow> time list \<Rightarrow> session list" where
  "session_walk gap start prev [] = [\<lparr>Start = start, End = prev\<rparr>]"
| "session_walk gap start prev (ts # hs) =
     (if time_sub ts prev > gap then \<lparr>Start = start, End = prev\<rparr> # session_walk gap ts ts hs
      else session_walk gap start ts hs)"

definition Derive :: "time list \<Rightarrow> time \<Rightarrow> duration \<Rightarrow> duration \<Rightarrow> summary" where
  "Derive handshakes now gap onlineThreshold =
     (case handshakes of
        [] \<Rightarrow> \<lparr>Sessions = [], SessionCount = 0, ConnectedTime = 0, Online = False, LastSeen = zero_time,
               LastSeenText = ''never''\<rparr>
      | h # hs \<Rightarrow>
          (let ss = session_walk gap h h hs; l = last handshakes
           in \<lparr>Sessions = ss, SessionCount = int (length ss),
               ConnectedTime = fold (\<lambda>s n. i64 (n + session_Duration s)) ss 0,
               Online = (time_sub now l \<le> onlineThreshold), LastSeen = l,
               LastSeenText = humanizeSince now l\<rparr>))"

subsection \<open>The percentile\<close>

text \<open>The double nearest to 0.95.\<close>

definition f095 :: rat where "f095 = 8556839292003942 / 2 ^ 53"

definition Nearest :: "rat list \<Rightarrow> rat" where
  "Nearest rates =
     (let n = int (length rates)
      in if n = 0 then 0
         else (let sorted = sort rates; i = \<lceil>fl (f095 * of_int n)\<rceil> - 1;
                   i1 = (if i < 0 then 0 else i);
                   idx = (if i1 \<ge> n then n - 1 else i1)
               in sorted ! nat idx))"

text \<open>
  The rates between adjacent samples, whose times are whole seconds apart; the sums and the
  differences of the counters wrap at 64 bits.
\<close>

fun sample_rates :: "client_traffic list \<Rightarrow> rat list" where
  "sample_rates (a # b # rows) =
     (let dt = in_units second (time_sub (ct_TS b) (ct_TS a));
          dRx = i64 (ct_RxBytesCum b - ct_RxBytesCum a);
          dTx = i64 (ct_TxBytesCum b - ct_TxBytesCum a)
      in if dt \<le> 0 then sample_rates (b # rows)
         else fl (fl (of_int (i64 (max 0 dRx + max 0 dTx))) / dt) # sample_rates (b # rows))"
| "sample_rates _ = []"

definition p95ThroughputBps :: "client_traffic list \<Rightarrow> int" where
  "p95ThroughputBps rows =
     (if length rows < 2 then 0
      else (let v = Nearest (sample_rates rows) in if v < 0 then - \<lfloor>- v\<rfloor> else \<lfloor>v\<rfloor>))"

definition handshakeTimes :: "handshake_event list \<Rightarrow> time list" where
  "handshakeTimes events = map he_TS events"

subsection \<open>The sessions are the maximal runs\<close>

definition spans :: "time list list \<Rightarrow> session list" where
  "spans runs = map (\<lambda>r. \<lparr>Start = hd r, End = last r\<rparr>) runs"

lemma spans_simps [simp]: "spans [] = []" "spans (r # rs) = \<lparr>Start = hd r, End = last r\<rparr> # spans rs"
  by (simp_all add: spans_def)

lemma session_Duration_span [simp]: "session_Duration \<lparr>Start = a, End = b\<rparr> = time_sub b a"
  by (simp add: session_Duration_def)

text \<open>The runs of a list: no gap inside a run exceeds the threshold, every gap between runs does.\<close>

definition session_runs :: "duration \<Rightarrow> time list \<Rightarrow> time list list \<Rightarrow> bool" where
  "session_runs gap hs runs \<longleftrightarrow>
     concat runs = hs \<and> [] \<notin> set runs \<and>
     list_all (successively (\<lambda>a b. time_sub b a \<le> gap)) runs \<and>
     successively (\<lambda>r r'. gap < time_sub (hd r') (last r)) runs"

fun runs_of :: "duration \<Rightarrow> time list \<Rightarrow> time list list" where
  "runs_of gap [] = []"
| "runs_of gap [x] = [[x]]"
| "runs_of gap (x # y # hs) =
     (if time_sub y x > gap then [x] # runs_of gap (y # hs)
      else (case runs_of gap (y # hs) of [] \<Rightarrow> [[x]] | r # rs \<Rightarrow> (x # r) # rs))"

lemma runs_of_Cons: "\<exists>r rs. runs_of gap (x # hs) = (x # r) # rs"
  by (induction hs arbitrary: x) (auto split: list.splits)

lemma runs_of_runs: "session_runs gap hs (runs_of gap hs)"
proof (induction gap hs rule: runs_of.induct)
  case (3 gap x y hs)
  obtain r rs where r: "runs_of gap (y # hs) = (y # r) # rs" using runs_of_Cons by blast
  from 3 show ?case by (cases "time_sub y x > gap") (auto simp: session_runs_def r successively_Cons)
qed (simp_all add: session_runs_def)

lemma session_walk_runs:
  "session_walk gap start prev hs =
     (case runs_of gap (prev # hs) of r # rs \<Rightarrow> \<lparr>Start = start, End = last r\<rparr> # spans rs)"
proof (induction hs arbitrary: start prev)
  case (Cons ts hs)
  obtain r rs where r: "runs_of gap (ts # hs) = (ts # r) # rs" using runs_of_Cons by blast
  show ?case by (simp add: Cons r)
qed simp

lemma Derive_runs: "Sessions (Derive hs now gap onl) = spans (runs_of gap hs)"
proof (cases hs)
  case (Cons h t)
  then obtain r rs where r: "runs_of gap hs = (h # r) # rs" using runs_of_Cons by blast
  with Cons show ?thesis by (simp add: Derive_def session_walk_runs Let_def spans_def)
qed (simp add: Derive_def spans_def)

subsection \<open>The connected time\<close>

text \<open>The gaps that count: those between neighbours of the same session.\<close>

definition kept_gaps :: "duration \<Rightarrow> time list \<Rightarrow> int list" where
  "kept_gaps gap hs = filter (\<lambda>d. d \<le> gap) (map (\<lambda>(a, b). b - a) (zip hs (tl hs)))"

lemma kept_gaps_Cons: "kept_gaps gap (x # y # hs) = (if y - x \<le> gap then [y - x] else []) @ kept_gaps gap (y # hs)"
  by (simp add: kept_gaps_def)

lemma kept_gaps_bounds:
  "sorted (h # t) \<Longrightarrow> 0 \<le> sum_list (kept_gaps gap (h # t)) \<and> sum_list (kept_gaps gap (h # t)) \<le> last (h # t) - h"
proof (induction t arbitrary: h)
  case (Cons y t)
  then have "sorted (y # t)" "h \<le> y" by auto
  with Cons.IH [of y] show ?case by (auto simp: kept_gaps_Cons)
qed (simp add: kept_gaps_def)

lemma sum_spans:
  assumes "sorted (h # t)" and "last (h # t) - h \<le> max_duration"
  shows "sum_list (map session_Duration (spans (runs_of gap (h # t)))) = sum_list (kept_gaps gap (h # t))"
  using assms
proof (induction t arbitrary: h)
  case (Cons y t)
  obtain r rs where r: "runs_of gap (y # t) = (y # r) # rs" using runs_of_Cons by blast
  have runs: "concat (runs_of gap (y # t)) = y # t" using runs_of_runs [of gap "y # t"] by (simp add: session_runs_def)
  have s: "sorted (y # t)" "h \<le> y" using Cons.prems(1) by auto
  have t: "y # t = (y # r) @ concat rs" using runs r by simp
  have lastr: "y \<le> last (y # r)" "last (y # r) \<le> last (y # t)"
  proof -
    have "sorted ((y # r) @ concat rs)" using s(1) t by simp
    then have o: "\<forall>a \<in> set (y # r). y \<le> a" "\<forall>a \<in> set (y # r). \<forall>b \<in> set (concat rs). a \<le> b"
      by (auto simp: sorted_append)
    moreover have "last (y # r) \<in> set (y # r)" by (rule last_in_set) simp
    ultimately show "y \<le> last (y # r)" by blast
    show "last (y # r) \<le> last (y # t)"
    proof (cases "concat rs = []")
      case True
      with t show ?thesis by simp
    next
      case False
      then have "last (y # t) = last (concat rs)" "last (concat rs) \<in> set (concat rs)" using t by (simp_all only: last_append if_False last_in_set not_False_eq_True)
      with o(2) \<open>last (y # r) \<in> set (y # r)\<close> show ?thesis by metis
    qed
  qed
  have le: "last (h # y # t) - h \<le> max_duration" by (rule Cons.prems(2))
  then have le': "last (y # t) - h \<le> max_duration" by simp
  then have "last (y # t) - y \<le> max_duration" using s(2) by linarith
  with Cons.IH s(1) have IH: "sum_list (map session_Duration (spans (runs_of gap (y # t)))) = sum_list (kept_gaps gap (y # t))"
    by blast
  have sub: "time_sub y h = y - h" "time_sub (last (y # r)) h = last (y # r) - h" "time_sub (last (y # r)) y = last (y # r) - y"
    using s(2) le' lastr by (intro time_sub_exact; simp add: min_duration_def del: last.simps)+
  have k: "last (y # r) - y + sum_list (map session_Duration (spans rs)) = sum_list (kept_gaps gap (y # t))"
    using IH by (simp only: r spans_simps list.map sum_list.Cons session_Duration_span sub list.sel)
  have "runs_of gap (h # y # t) = (if y - h > gap then [h] # (y # r) # rs else (h # y # r) # rs)"
    by (simp add: r sub)
  with k sub show ?case by (auto simp: kept_gaps_Cons simp del: runs_of.simps split: if_splits)
qed (simp add: kept_gaps_def)

subsection \<open>The percentile is the nearest rank\<close>

lemma fl_between:
  assumes "0 < x" and "of_int j + 1 / 20 \<le> y" and "y + 1 / 20 \<le> of_int j + 1" and "\<bar>y - x\<bar> \<le> 1 / 100"
    and "x < 2 ^ 40"
  shows "\<lceil>fl x\<rceil> = \<lceil>y\<rceil>"
proof -
  have "\<bar>fl x - x\<bar> \<le> \<bar>x\<bar> / 2 ^ 53" by (rule fl_near)
  also have "\<dots> \<le> 1 / 100" using assms(1,5) by simp
  finally have "of_int j < fl x \<and> fl x \<le> of_int j + 1" using assms(2-4) by linarith
  moreover have "of_int j < y \<and> y \<le> of_int j + 1" using assms(2,3) by linarith
  ultimately have "\<lceil>fl x\<rceil> = j + 1" "\<lceil>y\<rceil> = j + 1" by (simp_all add: ceiling_eq_iff)
  then show ?thesis by simp
qed

lemma fl_f095_multiple:
  assumes "0 < m" and "m < 2 ^ 40"
  shows "fl (f095 * of_int (20 * m)) = of_int (19 * m)"
proof -
  let ?x = "f095 * of_int (20 * m) :: rat"
  have x: "?x = of_int (19 * m) - of_int (8 * m) / 2 ^ 53" by (simp add: f095_def field_simps)
  have m: "(1 :: rat) \<le> of_int m" "(of_int m :: rat) < 2 ^ 40"
    using assms by (metis of_int_1_le_iff zless_imp_add1_zle add_0) (use assms in \<open>metis of_int_less_iff of_int_power of_int_numeral\<close>)
  then have pos: "1 \<le> ?x" unfolding x by simp
  define e where "e = nat (flog2 ?x)"
  have b: "2 powi flog2 ?x \<le> ?x" "?x < 2 powi (flog2 ?x + 1)" using flog2_bounds pos by auto
  have "0 \<le> flog2 ?x"
  proof (rule ccontr)
    assume "\<not> 0 \<le> flog2 ?x"
    then have "(2 :: rat) powi (flog2 ?x + 1) \<le> 2 powi 0" by (intro power_int_increasing) auto
    with b pos show False by simp
  qed
  then have e: "2 ^ e \<le> ?x" "?x < 2 ^ Suc e"
    using b by (simp_all add: e_def power_int_def nat_add_distrib)
  have le: "e \<le> 52"
  proof (rule ccontr)
    assume "\<not> e \<le> 52"
    then have "(2 :: rat) ^ 53 \<le> 2 ^ e" by (intro power_increasing) auto
    moreover have "?x < 19 * 2 ^ 40" using m unfolding x by simp
    moreover have "19 * 2 ^ 40 < (2 :: rat) ^ 53" by simp
    ultimately show False using e(1) by linarith
  qed
  have "(19 * m - 1) < 2 * 2 ^ e"
  proof -
    have "of_int (19 * m) - 1 < (of_int (2 * 2 ^ e) :: rat)" using e(2) m unfolding x by simp
    then show ?thesis by (metis of_int_1 of_int_diff of_int_less_iff)
  qed
  then have "8 * m < 2 ^ e" using assms(1) by linarith
  then have "of_int (8 * m) < (of_int (2 ^ e) :: rat)" by (simp only: of_int_less_iff)
  then have "of_int (8 * m) / 2 ^ 53 * 2 ^ (53 - e) < (1 :: rat)"
  proof -
    assume "of_int (8 * m) < (of_int (2 ^ e) :: rat)"
    then have "of_int (8 * m) * 2 ^ (53 - e) < (2 ^ e * 2 ^ (53 - e) :: rat)" by (intro mult_strict_right_mono) auto
    also have "\<dots> = 2 ^ 53" using le by (simp flip: power_add)
    finally show ?thesis by simp
  qed
  moreover have "\<bar>of_int (19 * m) - ?x\<bar> = of_int (8 * m) / 2 ^ 53" unfolding x using m by simp
  ultimately have "\<bar>of_int (19 * m) - ?x\<bar> * 2 ^ (53 - e) < 1" by (simp only:)
  moreover have "0 < ?x" using pos by linarith
  ultimately show ?thesis using fl_to_int [OF _ e le] by blast
qed

lemma nearest_rank_index:
  assumes "0 < n" and "n < 2 ^ 40"
  shows "\<lceil>fl (f095 * of_int n)\<rceil> = \<lceil>19 * of_int n / 20 :: rat\<rceil>"
proof (cases "n mod 20 = 0")
  case True
  then obtain m where m: "n = 20 * m" using True by (metis mod_0_imp_dvd dvdE)
  with assms have "0 < m" "m < 2 ^ 40" by auto
  then have "fl (f095 * of_int n) = of_int (19 * m)" using fl_f095_multiple m by simp
  then show ?thesis by (simp add: m)
next
  case False
  let ?j = "19 * n div 20"
  have r: "19 * n mod 20 \<noteq> 0" using False by presburger
  have "19 * n = 20 * ?j + 19 * n mod 20" by simp
  moreover have "1 \<le> 19 * n mod 20" "19 * n mod 20 \<le> 19" using r pos_mod_bound [of 20 "19 * n"] pos_mod_sign [of 20 "19 * n"] by linarith+
  ultimately have "20 * ?j + 1 \<le> 19 * n" "19 * n + 1 \<le> 20 * ?j + 20" by linarith+
  then have "of_int (20 * ?j + 1) \<le> (of_int (19 * n) :: rat)" "(of_int (19 * n + 1) :: rat) \<le> of_int (20 * ?j + 20)"
    by (simp_all only: of_int_le_iff)
  then have j: "of_int ?j + 1 / 20 \<le> (19 * of_int n / 20 :: rat)" "19 * of_int n / 20 + 1 / 20 \<le> (of_int ?j + 1 :: rat)" by simp_all
  have n: "(0 :: rat) < of_int n" "(of_int n :: rat) < 2 ^ 40"
  proof -
    have "of_int n < (of_int (2 ^ 40) :: rat)" "of_int 0 < (of_int n :: rat)" using assms by (simp_all only: of_int_less_iff)
    then show "(0 :: rat) < of_int n" "(of_int n :: rat) < 2 ^ 40" by simp_all
  qed
  have d: "19 * of_int n / 20 - f095 * of_int n = of_int n * (2 / (5 * 2 ^ 53))" by (simp add: f095_def field_simps)
  have "\<bar>19 * of_int n / 20 - f095 * of_int n\<bar> \<le> 1 / 100" unfolding d using n by simp
  moreover have "0 < f095 * of_int n" "f095 * of_int n < 2 ^ 40" using n by (simp_all add: f095_def)
  ultimately show ?thesis using fl_between [OF _ j] by blast
qed

lemma filter_sort_length: "length (filter P (sort xs)) = length (filter P (xs :: rat list))"
  by (metis mset_filter mset_sort size_mset)

lemma sorted_rank:
  assumes "sorted xs" and "i < length xs"
  shows "i < length (filter (\<lambda>x. x \<le> xs ! i) xs)" "length (filter (\<lambda>x. x < xs ! i) xs) \<le> i"
proof -
  have "xs = take (Suc i) xs @ drop (Suc i) xs" by simp
  moreover have "filter (\<lambda>x. x \<le> xs ! i) (take (Suc i) xs) = take (Suc i) xs"
    using assms by (auto simp: filter_id_conv in_set_conv_nth intro!: sorted_nth_mono)
  ultimately have "length (filter (\<lambda>x. x \<le> xs ! i) xs) \<ge> length (take (Suc i) xs)"
    by (metis filter_append le_add1 length_append)
  then show "i < length (filter (\<lambda>x. x \<le> xs ! i) xs)" using assms(2) by simp
  have "filter (\<lambda>x. x < xs ! i) (drop i xs) = []"
    using assms by (auto simp: filter_empty_conv in_set_conv_nth not_less intro!: sorted_nth_mono)
  then have "filter (\<lambda>x. x < xs ! i) xs = filter (\<lambda>x. x < xs ! i) (take i xs)"
    by (metis append_Nil2 append_take_drop_id filter_append)
  then show "length (filter (\<lambda>x. x < xs ! i) xs) \<le> i"
    using length_filter_le [of "\<lambda>x. x < xs ! i" "take i xs"] by simp
qed

lemma ceiling_20:
  "20 * \<lceil>19 * of_int n / 20 :: rat\<rceil> - 20 < 19 * n" "19 * n \<le> 20 * \<lceil>19 * of_int n / 20 :: rat\<rceil>"
proof -
  define k where "k = \<lceil>19 * of_int n / 20 :: rat\<rceil>"
  have "of_int k - 1 < (19 * of_int n / 20 :: rat)" "(19 * of_int n / 20 :: rat) \<le> of_int k"
    using ceiling_correct [of "19 * of_int n / 20 :: rat"] by (simp_all add: k_def)
  then have "of_int (20 * k - 20) < (of_int (19 * n) :: rat)" "(of_int (19 * n) :: rat) \<le> of_int (20 * k)" by simp_all
  then have "20 * k - 20 < 19 * n" "19 * n \<le> 20 * k" by (simp_all only: of_int_less_iff of_int_le_iff)
  then show "20 * \<lceil>19 * of_int n / 20 :: rat\<rceil> - 20 < 19 * n" "19 * n \<le> 20 * \<lceil>19 * of_int n / 20 :: rat\<rceil>"
    by (simp_all only: k_def)
qed

text \<open>
  The percentile is an observed value; at least 95 in a hundred of the values do not exceed it,
  and fewer than 95 in a hundred are smaller, although the rank is computed in floating point.
\<close>

theorem Nearest_is_nearest_rank:
  assumes "0 < length rates" and "length rates < 2 ^ 40"
  shows "Nearest rates \<in> set rates \<and>
    95 * length rates \<le> 100 * length (filter (\<lambda>x. x \<le> Nearest rates) rates) \<and>
    100 * length (filter (\<lambda>x. x < Nearest rates) rates) < 95 * length rates"
proof -
  let ?n = "int (length rates)" and ?k = "\<lceil>19 * of_int (int (length rates)) / 20 :: rat\<rceil>"
  have idx: "\<lceil>fl (f095 * of_int ?n)\<rceil> = ?k" using assms by (intro nearest_rank_index) auto
  have k: "20 * ?k - 20 < 19 * ?n" "19 * ?n \<le> 20 * ?k" by (rule ceiling_20)+
  define i where "i = nat (?k - 1)"
  have n: "0 < ?n" using assms(1) by simp
  have "0 \<le> ?k - 1" using k n by linarith
  then have i2: "int i = ?k - 1" unfolding i_def by (rule nat_0_le)
  then have "i < length rates" using k n by linarith
  with i2 have i: "i < length rates" "int i = ?k - 1" by blast+
  have N: "Nearest rates = sort rates ! i"
    using i2 i(1) n unfolding Nearest_def Let_def idx i2 [symmetric] by auto
  have "i < length (sort rates)" using i by simp
  from sorted_rank [OF _ this] have r: "i < length (filter (\<lambda>x. x \<le> Nearest rates) rates)"
    "length (filter (\<lambda>x. x < Nearest rates) rates) \<le> i"
    by (simp_all add: N filter_sort_length)
  have "Nearest rates \<in> set rates" using i by (metis N length_sort nth_mem set_sort)
  moreover have "95 * length rates \<le> 100 * length (filter (\<lambda>x. x \<le> Nearest rates) rates)" using r(1) k i(2) by linarith
  moreover have "100 * length (filter (\<lambda>x. x < Nearest rates) rates) < 95 * length rates" using r(2) k i(2) by linarith
  ultimately show ?thesis by blast
qed

theorem Nearest_is_nearest_rank_witness:
  "95 * length [3, 1, 2] \<le> 100 * length (filter (\<lambda>x. x \<le> Nearest [3, 1, 2]) [3, 1, 2])"
  using Nearest_is_nearest_rank [of "[3, 1, 2]"] by simp

lemma fold_i64_sum:
  "\<forall>x \<in> set xs. 0 \<le> f x \<Longrightarrow> 0 \<le> n \<Longrightarrow> n + sum_list (map f xs) \<le> max_duration \<Longrightarrow>
   fold (\<lambda>s n. i64 (n + f s)) xs n = n + sum_list (map f xs)"
proof (induction xs arbitrary: n)
  case (Cons x xs)
  then have "0 \<le> sum_list (map f xs)" by (intro sum_list_nonneg) auto
  with Cons have "in_i64 (n + f x)" by (simp add: in_i64_def max_duration_def)
  with Cons show ?case by (simp add: algebra_simps)
qed simp

lemma sorted_concat_span: "sorted (concat rs) \<Longrightarrow> r \<in> set rs \<Longrightarrow> r \<noteq> [] \<Longrightarrow> hd r \<le> last (r :: int list)"
proof (induction rs)
  case (Cons a rs)
  then show ?case
  proof (cases "r = a")
    case True
    with Cons.prems have "sorted r" by (simp add: sorted_append)
    with Cons.prems(3) show ?thesis by (cases r) auto
  qed (simp add: sorted_append)
qed simp

text \<open>
  C22. For handshakes in order of time, the sessions are the maximal runs whose gaps stay within the
  threshold, each given by its first and last handshake; the connected time is the sum of the gaps
  inside them, never more than the time between the first and the last handshake.
\<close>

theorem Derive_reconstructs_sessions:
  assumes "sorted hs" and "hs \<noteq> []" and "last hs - hd hs \<le> max_duration"
  shows "\<exists>runs. session_runs gap hs runs \<and> Sessions (Derive hs now gap onl) = spans runs \<and>
    SessionCount (Derive hs now gap onl) = int (length runs) \<and>
    ConnectedTime (Derive hs now gap onl) = sum_list (kept_gaps gap hs) \<and>
    0 \<le> ConnectedTime (Derive hs now gap onl) \<and> ConnectedTime (Derive hs now gap onl) \<le> last hs - hd hs \<and>
    LastSeen (Derive hs now gap onl) = last hs"
proof -
  obtain h t where hs: "hs = h # t" using assms(2) by (cases hs) auto
  have c: "0 \<le> sum_list (kept_gaps gap hs)" "sum_list (kept_gaps gap hs) \<le> last hs - hd hs"
    using kept_gaps_bounds [of h t gap] assms(1) by (simp_all add: hs)
  have "ConnectedTime (Derive hs now gap onl) = fold (\<lambda>s n. i64 (n + session_Duration s)) (spans (runs_of gap hs)) 0"
    using Derive_runs [of hs now gap onl] by (simp add: Derive_def hs Let_def)
  also have "\<dots> = sum_list (map session_Duration (spans (runs_of gap hs)))"
  proof -
    have r: "concat (runs_of gap hs) = hs" "[] \<notin> set (runs_of gap hs)"
      using runs_of_runs [of gap hs] by (simp_all add: session_runs_def)
    have "\<forall>s \<in> set (spans (runs_of gap hs)). 0 \<le> session_Duration s"
    proof
      fix s
      assume "s \<in> set (spans (runs_of gap hs))"
      then obtain u where u: "u \<in> set (runs_of gap hs)" "s = \<lparr>Start = hd u, End = last u\<rparr>" by (auto simp: spans_def)
      with r assms(1) have "hd u \<le> last u" by (metis sorted_concat_span)
      with u show "0 \<le> session_Duration s" by simp
    qed
    moreover have "sum_list (map session_Duration (spans (runs_of gap hs))) \<le> max_duration"
      using sum_spans [of h t gap] assms c(2) unfolding hs by simp
    ultimately show ?thesis using fold_i64_sum [of "spans (runs_of gap hs)" session_Duration 0] by simp
  qed
  also have "\<dots> = sum_list (kept_gaps gap hs)" using sum_spans [of h t gap] assms unfolding hs by simp
  finally have ct: "ConnectedTime (Derive hs now gap onl) = sum_list (kept_gaps gap hs)" .
  have "SessionCount (Derive hs now gap onl) = int (length (Sessions (Derive hs now gap onl)))"
    by (simp add: Derive_def hs Let_def)
  then have "SessionCount (Derive hs now gap onl) = int (length (runs_of gap hs))"
    by (simp add: Derive_runs spans_def)
  moreover have "LastSeen (Derive hs now gap onl) = last hs" by (simp add: Derive_def hs Let_def)
  ultimately show ?thesis using runs_of_runs [of gap hs] Derive_runs [of hs now gap onl] ct c by metis
qed

theorem Derive_reconstructs_sessions_witness:
  "ConnectedTime (Derive [0, minute, hour] hour SessionGapThreshold (3 * minute)) = sum_list (kept_gaps SessionGapThreshold [0, minute, hour])"
  using Derive_reconstructs_sessions [of "[0, minute, hour]" SessionGapThreshold hour "3 * minute"]
  by (auto simp: go_time)

end
