(* ===== verification/GoNum.thy ===== *)
theory GoNum
  imports GoFloat GoText ClientStore NetIP
begin

text \<open>
  Reading and printing floats: \<^verbatim>\<open>strconv.ParseFloat\<close>, and \<^verbatim>\<open>strconv.FormatFloat\<close> with
  \<^verbatim>\<open>'g', -1\<close>. The printed form of a number reads back as that number.
\<close>

subsection \<open>strconv.ParseFloat\<close>

datatype gofloat = NaN | PosInf | NegInf | Fin rat

definition base16_val :: "char \<Rightarrow> nat option" where
  "base16_val c =
     (let v = (of_char (lower_char c) :: nat)
      in if is_digit c then Some (digit_val c) else if 97 \<le> v \<and> v \<le> 102 then Some (v - 87) else None)"

definition base_val :: "bool \<Rightarrow> char \<Rightarrow> nat option" where
  "base_val hex c = (if hex then base16_val c else if is_digit c then Some (digit_val c) else None)"

text \<open>An underscore must stand between digits, or between a base prefix and a digit.\<close>

datatype seen = SawStart | SawDigit | SawBar | SawOther

fun bars_ok :: "bool \<Rightarrow> seen \<Rightarrow> string \<Rightarrow> bool" where
  "bars_ok hex saw [] = (saw \<noteq> SawBar)"
| "bars_ok hex saw (c # s) =
     (if base_val hex c \<noteq> None then bars_ok hex SawDigit s
      else if c = CHR ''_'' then saw = SawDigit \<and> bars_ok hex SawBar s
      else saw \<noteq> SawBar \<and> bars_ok hex SawOther s)"

definition drop_sign :: "string \<Rightarrow> bool \<times> string" where
  "drop_sign s =
     (if s \<noteq> [] \<and> hd s = CHR ''-'' then (True, tl s) else if s \<noteq> [] \<and> hd s = CHR ''+'' then (False, tl s) else (False, s))"

definition underscoreOK :: "string \<Rightarrow> bool" where
  "underscoreOK s0 =
     (let s = snd (drop_sign s0);
          pre = (2 \<le> length s \<and> hd s = CHR ''0'' \<and> lower_char (s ! 1) \<in> {CHR ''b'', CHR ''o'', CHR ''x''})
      in if pre then bars_ok (lower_char (s ! 1) = CHR ''x'') SawDigit (drop 2 s) else bars_ok False SawStart s)"

text \<open>The mantissa: its digits as a number, how many follow the point, and whether there are any.\<close>

fun read_mant :: "bool \<Rightarrow> string \<Rightarrow> bool \<Rightarrow> nat \<Rightarrow> nat \<Rightarrow> bool \<Rightarrow> nat \<times> nat \<times> bool \<times> string" where
  "read_mant hex [] dot m f sd = (m, f, sd, [])"
| "read_mant hex (c # s) dot m f sd =
     (if c = CHR ''.'' \<and> \<not> dot then read_mant hex s True m f sd
      else (case base_val hex c of
              None \<Rightarrow> (m, f, sd, c # s)
            | Some d \<Rightarrow> read_mant hex s dot (m * (if hex then 16 else 10) + d) (if dot then Suc f else f) True))"

definition exp_val :: "string \<Rightarrow> int" where
  "exp_val ds = foldl (\<lambda>e c. if e < 10000 then e * 10 + int (digit_val c) else e) 0 ds"

definition read_exp :: "bool \<Rightarrow> string \<Rightarrow> int option" where
  "read_exp hex rest =
     (case rest of
        [] \<Rightarrow> if hex then None else Some 0
      | c # r \<Rightarrow>
          if lower_char c \<noteq> (if hex then CHR ''p'' else CHR ''e'') then None
          else (case drop_sign r of
                  (neg, ds) \<Rightarrow>
                    if ds = [] \<or> \<not> list_all is_digit ds then None
                    else Some (if neg then - exp_val ds else exp_val ds)))"

definition float_value :: "bool \<Rightarrow> nat \<Rightarrow> nat \<Rightarrow> int \<Rightarrow> rat" where
  "float_value hex m f e =
     (if hex then of_nat m * 2 powi (e - 4 * int f) else of_nat m * 10 powi (e - int f))"

definition parse_special :: "string \<Rightarrow> gofloat option" where
  "parse_special s =
     (if to_lower s = ''nan'' then Some NaN
      else (case drop_sign s of
              (neg, r) \<Rightarrow>
                if to_lower r \<in> {''inf'', ''infinity''} then Some (if neg then NegInf else PosInf) else None))"

text \<open>\<open>None\<close> is an error: not a number, or out of range.\<close>

definition float_limit :: rat where "float_limit = 2 ^ 1024"

definition in_format :: "bool \<Rightarrow> rat \<Rightarrow> gofloat option" where
  "in_format neg v = (if float_limit \<le> v then None else Some (Fin (if neg then - v else v)))"

definition parse_float :: "string \<Rightarrow> gofloat option" where
  "parse_float s0 =
     (case parse_special s0 of
        Some v \<Rightarrow> Some v
      | None \<Rightarrow>
          if CHR ''_'' \<in> set s0 \<and> \<not> underscoreOK s0 then None
          else (case drop_sign (filter (\<lambda>c. c \<noteq> CHR ''_'') s0) of
                  (neg, s) \<Rightarrow>
                    (let hex = (3 \<le> length s \<and> hd s = CHR ''0'' \<and> lower_char (s ! 1) = CHR ''x'')
                     in case read_mant hex (if hex then drop 2 s else s) False 0 0 False of
                          (m, f, sd, rest) \<Rightarrow>
                            if \<not> sd then None
                            else (case read_exp hex rest of
                                    None \<Rightarrow> None
                                  | Some e \<Rightarrow> in_format neg (fl (float_value hex m f e))))))"

subsection \<open>strconv.FormatFloat\<close>

text \<open>The decimal exponent of a positive number.\<close>

definition flog10 :: "rat \<Rightarrow> int" where
  "flog10 x =
     (if x \<ge> 1 then int (length (itoa_nat (nat \<lfloor>x\<rfloor>))) - 1
      else - int (length (itoa_nat (nat (\<lceil>1 / x\<rceil> - 1)))))"

text \<open>
  The digits of a positive number: the fewest that read back as it, the nearest such. A number of
  \<open>n\<close> digits is \<open>m * 10 powi k\<close>.
\<close>

definition digits_at :: "rat \<Rightarrow> nat \<Rightarrow> (nat \<times> int) option" where
  "digits_at x n =
     (let k = flog10 x - int n + 1; q = x / 10 powi k; near = nat (round_half_even q)
      in map_option (\<lambda>m. (m, k))
           (find (\<lambda>m. fl (of_nat m * 10 powi k) = x) [near, nat \<lfloor>q\<rfloor>, nat \<lfloor>q\<rfloor> + 1]))"

definition shortest :: "rat \<Rightarrow> nat \<times> int" where
  "shortest x =
     (case List.map_filter (digits_at x) [1 ..< 18] of
        c # cs \<Rightarrow> c
      | [] \<Rightarrow> (nat (round_half_even (x / 10 powi (flog10 x - 16))), flog10 x - 16))"

fun strip_zeros :: "nat \<Rightarrow> int \<Rightarrow> nat \<times> int" where
  "strip_zeros m k = (if 0 < m \<and> m mod 10 = 0 then strip_zeros (m div 10) (k + 1) else (m, k))"

declare strip_zeros.simps [simp del]

definition exp_digits :: "int \<Rightarrow> string" where
  "exp_digits e = (if e < 0 then ''-'' else ''+'') @ pad_left 2 (itoa_nat (nat \<bar>e\<bar>))"

text \<open>\<open>m * 10 powi k\<close> in the two forms.\<close>

definition fmt_e :: "nat \<Rightarrow> int \<Rightarrow> string" where
  "fmt_e m k =
     (let ds = itoa_nat m
      in take 1 ds @ (if tl ds = [] then [] else CHR ''.'' # tl ds) @ ''e'' @ exp_digits (k + int (length ds) - 1))"

definition fmt_f :: "nat \<Rightarrow> int \<Rightarrow> string" where
  "fmt_f m k =
     (if k \<ge> 0 then itoa_nat (m * 10 ^ nat k)
      else itoa_nat (m div 10 ^ nat (- k)) @ ''.'' @ pad_left (nat (- k)) (itoa_nat (m mod 10 ^ nat (- k))))"

definition format_pos :: "rat \<Rightarrow> string" where
  "format_pos x =
     (case shortest x of
        (m0, k0) \<Rightarrow>
          (case strip_zeros m0 k0 of
             (m, k) \<Rightarrow>
               (let e = k + int (length (itoa_nat m)) - 1
                in if e < -4 \<or> e \<ge> 6 then fmt_e m k else fmt_f m k)))"

definition format_float :: "rat \<Rightarrow> string" where
  "format_float v = (if v = 0 then ''0'' else if v < 0 then CHR ''-'' # format_pos (- v) else format_pos v)"

subsection \<open>Printing and reading a float\<close>

lemma itoa_nat_bounds: "0 < n \<Longrightarrow> 10 ^ (length (itoa_nat n) - 1) \<le> n \<and> n < 10 ^ length (itoa_nat n)"
proof (induction n rule: itoa_nat.induct)
  case (1 n)
  show ?case
  proof (cases "n < 10")
    case True
    with 1 show ?thesis by (simp add: itoa_nat.simps [of n])
  next
    case False
    let ?l = "length (itoa_nat (n div 10))"
    have l: "0 < ?l" by simp
    from 1 False have "10 ^ (?l - 1) \<le> n div 10" "n div 10 < 10 ^ ?l" by auto
    then have "10 * 10 ^ (?l - 1) \<le> n" "n < 10 * 10 ^ ?l" by linarith+
    moreover have "10 * 10 ^ (?l - 1) = (10 :: nat) ^ ?l" using l by (metis Suc_diff_1 power_Suc)
    ultimately show ?thesis using False by (simp add: itoa_nat.simps [of n])
  qed
qed

lemma itoa_nat_length_le: "n < 10 ^ j \<Longrightarrow> 0 < j \<Longrightarrow> length (itoa_nat n) \<le> j"
proof (rule ccontr)
  assume n: "n < 10 ^ j" "0 < j" and l: "\<not> length (itoa_nat n) \<le> j"
  then have "0 < n" by (cases "n = 0") (simp_all add: itoa_nat.simps)
  from itoa_nat_bounds [OF this] have "10 ^ (length (itoa_nat n) - 1) \<le> n" by simp
  moreover have "(10 :: nat) ^ j \<le> 10 ^ (length (itoa_nat n) - 1)" using l by (intro power_increasing) auto
  ultimately show False using n by linarith
qed

lemma flog10_lower:
  assumes "0 < x"
  shows "10 powi flog10 x \<le> x"
proof (cases "x \<ge> 1")
  case True
  then have n: "0 < nat \<lfloor>x\<rfloor>" by simp
  let ?l = "length (itoa_nat (nat \<lfloor>x\<rfloor>))"
  have "(10 :: rat) powi flog10 x = of_nat (10 ^ (?l - 1))"
  proof -
    have "flog10 x = int (?l - 1)" using True by (simp add: flog10_def of_nat_diff Suc_leI)
    then show ?thesis by simp
  qed
  also have "\<dots> \<le> of_nat (nat \<lfloor>x\<rfloor>)" using itoa_nat_bounds [OF n] by (simp only: of_nat_le_iff)
  also have "\<dots> \<le> x" using True by simp
  finally show ?thesis .
next
  case False
  with assms have "1 < 1 / x" by simp
  then have c: "2 \<le> \<lceil>1 / x\<rceil>" by (simp add: le_ceiling_iff)
  then have n: "0 < nat (\<lceil>1 / x\<rceil> - 1)" by simp
  let ?n = "nat (\<lceil>1 / x\<rceil> - 1)"
  have "?n < 10 ^ length (itoa_nat ?n)" using itoa_nat_bounds [OF n] by simp
  then have "int ?n < 10 ^ length (itoa_nat ?n)" by (metis of_nat_less_iff of_nat_numeral of_nat_power)
  moreover have "int ?n = \<lceil>1 / x\<rceil> - 1" using c by linarith
  ultimately have "\<lceil>1 / x\<rceil> \<le> 10 ^ length (itoa_nat ?n)" by linarith
  then have "1 / x \<le> of_int (10 ^ length (itoa_nat ?n))" by (simp add: ceiling_le_iff)
  with assms show ?thesis using False by (simp add: flog10_def power_int_minus field_simps)
qed

text \<open>A number close enough to one of the format rounds to it.\<close>

lemma fl_unit:
  assumes "0 < x" and "fl x = x"
  obtains k where "x = of_int k * 2 powi (flog2 x - 52)" "2 ^ 52 \<le> k" "k < 2 ^ 53"
proof -
  let ?u = "2 powi (flog2 x - 52) :: rat"
  have x: "x = of_int (round_half_even (x / ?u)) * ?u" using assms by (simp add: fl_def Let_def)
  have p: "?u * 2 ^ 52 = 2 powi flog2 x" "?u * 2 ^ 53 = 2 powi (flog2 x + 1)" by (simp_all add: power_int_diff power_int_add)
  have u: "0 < ?u" by simp
  let ?k = "round_half_even (x / ?u)"
  have "?u * 2 ^ 52 \<le> of_int ?k * ?u" "of_int ?k * ?u < ?u * 2 ^ 53"
    using flog2_bounds [OF assms(1)] x p by simp_all
  then have "(2 :: rat) ^ 52 \<le> of_int ?k" "of_int ?k < (2 :: rat) ^ 53"
    using u by (simp_all add: mult.commute [of ?u])
  then have "2 ^ 52 \<le> ?k" "?k < 2 ^ 53" by simp_all
  with x that show ?thesis by blast
qed

lemma flog2_unique:
  assumes "2 powi e \<le> x" and "x < 2 powi (e + 1)"
  shows "flog2 x = e"
proof -
  have x: "0 < x" using assms(1) by (rule less_le_trans [rotated]) simp
  have "(2 :: rat) powi flog2 x < 2 powi (e + 1)" "(2 :: rat) powi e < 2 powi (flog2 x + 1)"
    using flog2_bounds [OF x] assms by linarith+
  then have "\<not> e + 1 \<le> flog2 x" "\<not> flog2 x + 1 \<le> e"
    using power_int_increasing [of "e + 1" "flog2 x" "2 :: rat"] power_int_increasing [of "flog2 x + 1" e "2 :: rat"] by auto
  then show ?thesis by linarith
qed

lemma fl_step:
  assumes "flog2 y = e" and "0 < y" and "\<bar>of_int k - y / 2 powi (e - 52)\<bar> < 1 / 2"
  shows "fl y = of_int k * 2 powi (e - 52)"
  using assms round_half_even_unique [OF assms(3)] by (simp add: fl_def Let_def)

lemma fl_absorb:
  assumes "0 < x" and "fl x = x" and "\<bar>y - x\<bar> < x / 2 ^ 54"
  shows "fl y = x"
proof -
  let ?e = "flog2 x" let ?u = "2 powi (?e - 52) :: rat"
  obtain k where k: "x = of_int k * ?u" "2 ^ 52 \<le> k" "k < 2 ^ 53" using fl_unit [OF assms(1,2)] .
  have u: "0 < ?u" by simp
  have p: "?u * 2 ^ 52 = 2 powi ?e" "?u * 2 ^ 53 = 2 powi (?e + 1)" by (simp_all add: power_int_diff power_int_add)
  have d: "\<bar>y - x\<bar> < ?u / 2"
  proof -
    have "x < 2 powi (?e + 1)" by (rule flog2_bounds [OF assms(1)])
    with assms(3) p show ?thesis by simp
  qed
  have hi: "y < 2 powi (?e + 1)"
  proof -
    have "(of_int k :: rat) \<le> of_int (2 ^ 53 - 1)" using k(3) by (simp only: of_int_le_iff)
    then have "of_int k * ?u \<le> of_int (2 ^ 53 - 1) * ?u" using u by (intro mult_right_mono) simp_all
    with k(1) have "x \<le> (2 ^ 53 - 1) * ?u" by simp
    then have "x \<le> ?u * 2 ^ 53 - ?u" by (simp add: algebra_simps)
    with d u show ?thesis using p(2) by linarith
  qed
  show ?thesis
  proof (cases "2 powi ?e \<le> y")
    case True
    then have f: "flog2 y = ?e" using hi by (rule flog2_unique)
    have y: "0 < y" using True by (rule less_le_trans [rotated]) simp
    have "of_int k - y / ?u = (x - y) / ?u" using u k(1) by (simp add: field_simps)
    then have "\<bar>of_int k - y / ?u\<bar> < 1 / 2" using d u by (simp add: field_simps abs_minus_commute)
    from fl_step [OF f y this] k(1) show ?thesis by simp
  next
    case False
    have k52: "k = 2 ^ 52"
    proof (rule ccontr)
      assume "k \<noteq> 2 ^ 52"
      with k(2) have "(of_int (2 ^ 52 + 1) :: rat) \<le> of_int k" by (simp only: of_int_le_iff)
      then have "of_int (2 ^ 52 + 1) * ?u \<le> of_int k * ?u" using u by (intro mult_right_mono) simp_all
      with k(1) have "(2 ^ 52 + 1) * ?u \<le> x" by simp
      then have "?u * 2 ^ 52 + ?u \<le> x" by (simp add: algebra_simps)
      with d u False show False using p(1) by linarith
    qed
    then have xe: "x = 2 powi ?e" using k(1) p(1) by (simp add: mult.commute)
    have h: "(2 :: rat) powi (?e - 1) = x / 2" by (subst xe) (simp add: power_int_diff)
    have lo: "2 powi (?e - 1) \<le> y"
    proof -
      have "x - x / 2 ^ 54 < y" using assms(3) by linarith
      moreover have "x / 2 \<le> x - x / 2 ^ 54" using assms(1) by simp
      ultimately show ?thesis unfolding h by linarith
    qed
    have f: "flog2 y = ?e - 1" using lo False by (intro flog2_unique) simp_all
    have y: "0 < y" using lo by (rule less_le_trans [rotated]) simp
    have w: "(2 :: rat) powi (?e - 1 - 52) = x / 2 ^ 53" by (subst xe) (simp add: power_int_diff)
    have "of_int (2 ^ 53) - y / (x / 2 ^ 53) = (x - y) * (2 ^ 53 / x)" using assms(1) by (simp add: field_simps)
    then have "\<bar>of_int (2 ^ 53) - y / (x / 2 ^ 53)\<bar> = \<bar>y - x\<bar> * (2 ^ 53 / x)"
      using assms(1) by (simp only: abs_mult abs_minus_commute [of x y]) simp
    also have "\<dots> < x / 2 ^ 54 * (2 ^ 53 / x)" using assms(1,3) by (intro mult_strict_right_mono) simp_all
    also have "\<dots> = 1 / 2" using assms(1) by simp
    finally have "\<bar>of_int (2 ^ 53) - y / 2 powi (?e - 1 - 52)\<bar> < 1 / 2" unfolding w .
    from fl_step [OF f y this] show ?thesis unfolding w by simp
  qed
qed

lemma in_map_filter: "y \<in> set (List.map_filter f xs) \<longleftrightarrow> (\<exists>x \<in> set xs. f x = Some y)"
  by (induction xs) (auto split: option.splits)

lemma digits_at_exact: "digits_at x n = Some (m, k) \<Longrightarrow> fl (of_nat m * 10 powi k) = x"
  unfolding digits_at_def Let_def by (clarsimp simp del: find.simps dest!: find_SomeD)

lemma digits_at_17:
  assumes "0 < x" and "fl x = x"
  shows "digits_at x 17 \<noteq> None"
proof -
  let ?k = "flog10 x - int 17 + 1" let ?s = "10 powi ?k :: rat"
  let ?r = "round_half_even (x / ?s)"
  have s: "0 < ?s" by simp
  have "?s * 10 ^ 16 = 10 powi flog10 x" by (simp add: power_int_diff power_int_add)
  with flog10_lower [OF assms(1)] have sx: "?s * 10 ^ 16 \<le> x" by simp
  have r: "0 \<le> ?r" using assms(1) s by (auto simp: round_half_even_def Let_def)
  have "\<bar>of_int ?r * ?s - x\<bar> = \<bar>of_int ?r - x / ?s\<bar> * ?s" using s by (simp add: abs_mult_pos' algebra_simps)
  also have "\<dots> \<le> 1 / 2 * ?s" using s round_half_even_near by (intro mult_right_mono) simp_all
  also have "\<dots> < x / 2 ^ 54" using sx assms(1) by simp
  finally have "fl (of_int ?r * ?s) = x" by (rule fl_absorb [OF assms])
  with r have "fl (of_nat (nat ?r) * ?s) = x" by simp
  then show ?thesis by (simp add: digits_at_def Let_def)
qed

lemma shortest_exact:
  assumes "0 < x" and "fl x = x" and "shortest x = (m, k)"
  shows "fl (of_nat m * 10 powi k) = x"
proof -
  obtain c where c: "digits_at x 17 = Some c" using digits_at_17 [OF assms(1,2)] by blast
  have "c \<in> set (List.map_filter (digits_at x) [1 ..< 18])"
    using c by (auto simp: in_map_filter intro: bexI [of _ 17])
  then obtain d ds where d: "List.map_filter (digits_at x) [1 ..< 18] = d # ds"
    by (cases "List.map_filter (digits_at x) [1 ..< 18]") auto
  then have "d \<in> set (List.map_filter (digits_at x) [1 ..< 18])" by simp
  then obtain n where "digits_at x n = Some d" by (auto simp: in_map_filter)
  with d assms(3) show ?thesis by (simp add: shortest_def digits_at_exact)
qed

lemma strip_zeros_value:
  "strip_zeros m k = (m', k') \<Longrightarrow> (of_nat m' * 10 powi k' :: rat) = of_nat m * 10 powi k \<and> (0 < m \<longrightarrow> 0 < m')"
proof (induction m k rule: strip_zeros.induct)
  case (1 m k)
  show ?case
  proof (cases "0 < m \<and> m mod 10 = 0")
    case True
    then obtain q where q: "m = 10 * q" by auto
    from True 1(2) have "strip_zeros (m div 10) (k + 1) = (m', k')" by (simp add: strip_zeros.simps [of m])
    from 1(1) [OF True this] True q show ?thesis by (simp add: power_int_add)
  next
    case False
    with 1(2) show ?thesis by (auto simp: strip_zeros.simps [of m])
  qed
qed

definition num_char :: "char \<Rightarrow> bool" where
  "num_char c \<longleftrightarrow> is_digit c \<or> c \<in> {CHR ''.'', CHR ''e'', CHR ''+'', CHR ''-''}"

lemma lower_digit: "is_digit c \<Longrightarrow> lower_char c = c"
  by (auto simp: is_digit_def lower_char_def)

lemma num_char_facts: "num_char c \<Longrightarrow> c \<noteq> CHR ''_'' \<and> lower_char c \<noteq> CHR ''x''"
  by (auto simp: num_char_def lower_digit) (auto simp: is_digit_def lower_char_def)

lemma parse_special_digit:
  assumes "s \<noteq> []" and "is_digit (hd s)"
  shows "parse_special s = None" and "drop_sign s = (False, s)"
proof -
  obtain c t where s: "s = c # t" using assms(1) by (cases s) auto
  have "c \<noteq> CHR ''n''" "c \<noteq> CHR ''i''" "c \<noteq> CHR ''-''" "c \<noteq> CHR ''+''" "lower_char c = c"
    using assms(2) s by (auto simp: is_digit_def lower_digit)
  then show "parse_special s = None" "drop_sign s = (False, s)"
    by (simp_all add: s parse_special_def drop_sign_def to_lower_def)
qed

lemma read_mant_digits:
  "list_all is_digit ds \<Longrightarrow> read_mant False (ds @ rest) dot m f sd =
     read_mant False rest dot (digits_val m ds) (if dot then f + length ds else f) (sd \<or> ds \<noteq> [])"
proof (induction ds arbitrary: m f sd)
  case (Cons c ds)
  then have "c \<noteq> CHR ''.''" by (auto simp: is_digit_def)
  with Cons show ?case by (simp add: base_val_def)
qed simp

lemma read_mant_stop: "rest = [] \<or> hd rest = CHR ''e'' \<Longrightarrow> read_mant False rest dot m f sd = (m, f, sd, rest)"
  by (cases rest) (auto simp: base_val_def is_digit_def)

lemma read_mant_decimal:
  assumes "list_all is_digit ip" and "ip \<noteq> []" and "list_all is_digit fd" and "ex = [] \<or> hd ex = CHR ''e''"
  shows "read_mant False (ip @ (if dot then CHR ''.'' # fd else []) @ ex) False 0 0 False =
    (digits_val 0 (ip @ (if dot then fd else [])), if dot then length fd else 0, True, ex)"
  using assms by (simp add: read_mant_digits read_mant_stop)

lemma filter_no: "c \<notin> set s \<Longrightarrow> filter (\<lambda>x. x \<noteq> c) s = s"
  by (induction s) auto

lemma parse_plain:
  assumes "list_all num_char s" and "s \<noteq> []" and "is_digit (hd s)"
    and "read_mant False s False 0 0 False = (m, f, True, ex)" and "read_exp False ex = Some e"
  shows "parse_float s = in_format False (fl (float_value False m f e))"
proof -
  have bar: "CHR ''_'' \<notin> set s"
  proof
    assume "CHR ''_'' \<in> set s"
    with assms(1) have "num_char CHR ''_''" by (simp only: list_all_iff)
    then show False using num_char_facts by blast
  qed
  have x: "lower_char (s ! 1) \<noteq> CHR ''x''" if "3 \<le> length s"
  proof -
    from that have "s ! 1 \<in> set s" by (intro nth_mem) linarith
    with assms(1) have "num_char (s ! 1)" by (simp only: list_all_iff)
    then show ?thesis using num_char_facts by blast
  qed
  have hex: "(3 \<le> length s \<and> hd s = CHR ''0'' \<and> lower_char (s ! 1) = CHR ''x'') = False" using x by blast
  have f: "filter (\<lambda>c. c \<noteq> CHR ''_'') s = s" using bar by (rule filter_no)
  have "(CHR ''_'' \<in> set s \<and> \<not> underscoreOK s) = False" using bar by blast
  then show ?thesis
    unfolding parse_float_def parse_special_digit(1) [OF assms(2,3)] f parse_special_digit(2) [OF assms(2,3)] hex Let_def
      option.case prod.case if_False assms(4) assms(5) by (simp only: if_False not_True_eq_False prod.case option.case)
qed

lemma parse_decimal:
  assumes "list_all is_digit ip" and "ip \<noteq> []" and "list_all is_digit fd" and "ex = [] \<or> hd ex = CHR ''e''"
    and "list_all num_char ex" and "read_exp False ex = Some e"
  shows "parse_float (ip @ (if dot then CHR ''.'' # fd else []) @ ex) =
    in_format False (fl (of_nat (digits_val 0 (ip @ (if dot then fd else []))) * 10 powi (e - (if dot then int (length fd) else 0))))"
proof -
  let ?s = "ip @ (if dot then CHR ''.'' # fd else []) @ ex"
  have n: "list_all num_char ?s" using assms by (auto simp: list_all_iff num_char_def)
  have h: "?s \<noteq> []" "is_digit (hd ?s)" using assms(1,2) by (cases ip; simp)+
  from parse_plain [OF n h read_mant_decimal [OF assms(1-4)] assms(6)] show ?thesis
    by (cases dot) (simp_all add: float_value_def)
qed

lemma digits_val_shift: "digits_val a ds = a * 10 ^ length ds + digits_val 0 ds"
proof (induction ds arbitrary: a)
  case (Cons c ds)
  show ?case
    unfolding digits_val_simps(2) Cons [of "a * 10 + digit_val c"] Cons [of "0 * 10 + digit_val c"]
    by (simp add: algebra_simps)
qed simp

lemma digits_pad: "list_all is_digit (itoa_nat n)" "list_all is_digit (pad_left j (itoa_nat n))"
  "digits_val 0 (pad_left j (itoa_nat n)) = n"
proof -
  show d: "list_all is_digit (itoa_nat n)" using itoa_nat_digits by (simp add: list_all_iff)
  have "is_digit CHR ''0''" by (simp add: is_digit_def)
  with d show "list_all is_digit (pad_left j (itoa_nat n))" by (auto simp: pad_left_def list_all_iff)
  have "digits_val 0 (replicate k CHR ''0'') = 0" for k by (induction k) (simp_all add: digit_val_def)
  then show "digits_val 0 (pad_left j (itoa_nat n)) = n" by (simp add: pad_left_def)
qed

lemma length_pad: "n < 10 ^ j \<Longrightarrow> 0 < j \<Longrightarrow> length (pad_left j (itoa_nat n)) = j"
  using itoa_nat_length_le [of n j] by (simp add: pad_left_def)

lemma exp_val_digits: "digits_val a ds < 100000 \<Longrightarrow> foldl (\<lambda>e c. if e < 10000 then e * 10 + int (digit_val c) else e) (int a) ds = int (digits_val a ds)"
proof (induction ds arbitrary: a)
  case (Cons c ds)
  have "a * 10 + digit_val c \<le> digits_val (a * 10 + digit_val c) ds"
    by (rule digits_val_ge)
  with Cons.prems have "a < 10000" by simp
  with Cons.IH [of "a * 10 + digit_val c"] Cons.prems show ?case by simp
qed simp

lemma exp_val_pad: "n < 100000 \<Longrightarrow> exp_val (pad_left 2 (itoa_nat n)) = int n"
  using exp_val_digits [of 0 "pad_left 2 (itoa_nat n)"] digits_pad(3) [of 2 n] by (simp add: exp_val_def)

lemma read_exp_digits:
  assumes "\<bar>e\<bar> < 100000"
  shows "read_exp False (CHR ''e'' # exp_digits e) = Some e" "list_all num_char (exp_digits e)"
proof -
  let ?ds = "pad_left 2 (itoa_nat (nat \<bar>e\<bar>))"
  have d: "list_all is_digit ?ds" "?ds \<noteq> []" by (rule digits_pad) (simp add: pad_left_def)
  have v: "exp_val ?ds = \<bar>e\<bar>" using assms exp_val_pad [of "nat \<bar>e\<bar>"] by simp
  have l: "lower_char CHR ''e'' = CHR ''e''" by (simp add: lower_char_def)
  have ds: "exp_digits e = (if e < 0 then CHR ''-'' else CHR ''+'') # ?ds" by (simp add: exp_digits_def)
  show "read_exp False (CHR ''e'' # exp_digits e) = Some e"
    unfolding ds using d v l by (cases "e < 0") (simp_all only: read_exp_def drop_sign_def list.case list.sel if_True if_False list.distinct, simp_all)
  show "list_all num_char (exp_digits e)"
    using d(1) by (auto simp: exp_digits_def num_char_def list_all_iff)
qed

lemma parse_fmt_f:
  "parse_float (fmt_f m k) = in_format False (fl (of_nat m * 10 powi k))"
proof (cases "k \<ge> 0")
  case True
  have r: "read_exp False [] = Some 0" by (simp add: read_exp_def)
  have k: "(10 :: rat) powi k = 10 ^ nat k" using True by (simp add: power_int_def)
  from parse_decimal [OF digits_pad(1) [of "m * 10 ^ nat k"], of "[]" "[]" 0 False] True r k show ?thesis
    by (simp add: fmt_f_def)
next
  case False
  let ?j = "nat (- k)" let ?fd = "pad_left ?j (itoa_nat (m mod 10 ^ ?j))"
  have j: "0 < ?j" using False by simp
  then have l: "length ?fd = ?j" by (intro length_pad) simp_all
  have r: "read_exp False [] = Some 0" by (simp add: read_exp_def)
  have v: "digits_val 0 (itoa_nat (m div 10 ^ ?j) @ ?fd) = m"
    unfolding digits_val_simps(3) digits_val_itoa_nat digits_val_shift [of "m div 10 ^ ?j" ?fd] l digits_pad(3) by (rule div_mult_mod_eq)
  from parse_decimal [OF digits_pad(1) [of "m div 10 ^ ?j"] _ digits_pad(2) [of ?j "m mod 10 ^ ?j"], of "[]" 0 True] r l v False
  show ?thesis by (simp add: fmt_f_def)
qed

lemma parse_fmt_e:
  assumes "\<bar>k + int (length (itoa_nat m)) - 1\<bar> < 100000"
  shows "parse_float (fmt_e m k) = in_format False (fl (of_nat m * 10 powi k))"
proof -
  let ?ds = "itoa_nat m" let ?e = "k + int (length ?ds) - 1"
  obtain c t where ct: "?ds = c # t" by (cases ?ds) auto
  have d: "is_digit c" "list_all is_digit t" using digits_pad(1) [of m] ct by simp_all
  have v: "digits_val 0 (c # t) = m" using digits_val_itoa_nat [of m] ct by (simp del: digits_val_itoa_nat)
  let ?ex = "CHR ''e'' # exp_digits ?e"
  have x: "list_all num_char ?ex" using read_exp_digits(2) [OF assms] by (simp add: num_char_def)
  have s: "fmt_e m k = [c] @ (if t \<noteq> [] then CHR ''.'' # t else []) @ ?ex" by (simp add: fmt_e_def ct)
  have e: "?e - (if t \<noteq> [] then int (length t) else 0) = k" by (simp add: ct)
  have dv: "digits_val 0 ([c] @ (if t \<noteq> [] then t else [])) = m" using v by auto
  have "parse_float ([c] @ (if t \<noteq> [] then CHR ''.'' # t else []) @ ?ex) =
    in_format False (fl (of_nat (digits_val 0 ([c] @ (if t \<noteq> [] then t else []))) * 10 powi (?e - (if t \<noteq> [] then int (length t) else 0))))"
    by (rule parse_decimal) (use d x read_exp_digits(1) [OF assms] in simp_all)
  then show ?thesis unfolding s dv e .
qed

text \<open>The numbers the round trip is stated for, well inside the normal range.\<close>

definition float_top :: rat where "float_top = 10 ^ 300"

definition float_range :: "rat \<Rightarrow> bool" where
  "float_range x \<longleftrightarrow> x = 0 \<or> fl x = x \<and> 1 / float_top \<le> x \<and> x < float_top"

lemma big_float: "float_top < float_limit" "0 < float_top" by (simp_all add: float_limit_def float_top_def)

lemma powi_10_less: "(10 :: rat) powi a < 10 powi b \<Longrightarrow> a < b"
  by (rule ccontr) (use power_int_increasing [of b a "10 :: rat"] in simp)

lemma exponent_bound:
  assumes "0 < m" and "10 powi (- 301) \<le> (of_nat m * 10 powi k :: rat)" and "of_nat m * 10 powi k < (10 powi 301 :: rat)"
  shows "\<bar>k + int (length (itoa_nat m)) - 1\<bar> < 100000"
proof -
  let ?l = "length (itoa_nat m)"
  have l: "0 < ?l" by simp
  have b: "(10 :: rat) ^ (?l - 1) \<le> of_nat m" "(of_nat m :: rat) < 10 ^ ?l"
  proof -
    have "(of_nat (10 ^ (?l - 1)) :: rat) \<le> of_nat m" "(of_nat m :: rat) < of_nat (10 ^ ?l)"
      using itoa_nat_bounds [OF assms(1)] by (simp_all only: of_nat_le_iff of_nat_less_iff)
    then show "(10 :: rat) ^ (?l - 1) \<le> of_nat m" "(of_nat m :: rat) < 10 ^ ?l" by simp_all
  qed
  have "k + int ?l - 1 = int (?l - 1) + k" using l by (simp add: of_nat_diff Suc_leI)
  then have "(10 :: rat) powi (k + int ?l - 1) = 10 powi (int (?l - 1) + k)" by (rule arg_cong)
  also have "\<dots> = 10 powi int (?l - 1) * 10 powi k" by (rule power_int_add) simp
  also have "\<dots> = 10 ^ (?l - 1) * 10 powi k" by (simp only: power_int_of_nat)
  also have "\<dots> \<le> of_nat m * 10 powi k" using b by (intro mult_right_mono) simp_all
  also note assms(3)
  finally have up: "k + int ?l - 1 < 301" by (rule powi_10_less)
  note assms(2)
  also have "of_nat m * 10 powi k < (10 :: rat) ^ ?l * 10 powi k" using b by (intro mult_strict_right_mono) simp_all
  also have "\<dots> = 10 powi int ?l * 10 powi k" by (simp only: power_int_of_nat)
  also have "\<dots> = 10 powi (int ?l + k)" by (rule power_int_add [symmetric]) simp
  finally have "- 301 < int ?l + k" by (rule powi_10_less)
  with up show ?thesis by linarith
qed

lemma within_double:
  "(z :: rat) = 10 * t \<Longrightarrow> w = r / 10 \<Longrightarrow> 0 < r \<Longrightarrow> 0 < t \<Longrightarrow> r \<le> x \<Longrightarrow> x < t \<Longrightarrow> x \<le> 2 * y \<Longrightarrow> y \<le> 2 * x \<Longrightarrow> w \<le> y \<and> y < z"
  by linarith

lemma fl_half:
  assumes "0 \<le> x"
  shows "x / 2 \<le> fl x" "fl x \<le> 2 * x"
proof -
  have "\<bar>fl x - x\<bar> \<le> x / 2 ^ 53" using fl_near [of x] assms by simp
  moreover have "x / 2 ^ 53 \<le> x / 2" using assms by simp
  ultimately have "\<bar>fl x - x\<bar> \<le> x / 2" by (rule order_trans)
  then show "x / 2 \<le> fl x" "fl x \<le> 2 * x" using assms by linarith+
qed

lemma fl_nonpos: "x \<le> 0 \<Longrightarrow> fl x \<le> 0"
proof -
  assume x: "x \<le> 0"
  have "\<bar>fl x - x\<bar> \<le> - x / 2 ^ 53" using fl_near [of x] x by simp
  moreover have "- x / 2 ^ 53 \<le> - x" using x by (simp add: field_simps)
  ultimately have "\<bar>fl x - x\<bar> \<le> - x" by (rule order_trans)
  then show ?thesis by linarith
qed

text \<open>The printed digits of a number, and the bound on its exponent.\<close>

lemma printed_digits:
  assumes "float_range x" and "0 < x" and "(case shortest x of (m0, k0) \<Rightarrow> strip_zeros m0 k0) = (m, k)"
  shows "fl (of_nat m * 10 powi k) = x" "\<bar>k + int (length (itoa_nat m)) - 1\<bar> < 100000"
proof -
  have x: "fl x = x" "1 / float_top \<le> x" "x < float_top" using assms(1,2) by (auto simp: float_range_def)
  obtain m0 k0 where s0: "shortest x = (m0, k0)" by fastforce
  with assms(3) have s1: "strip_zeros m0 k0 = (m, k)" by simp
  let ?y = "of_nat m0 * 10 powi k0 :: rat"
  have y: "fl ?y = x" by (rule shortest_exact [OF assms(2) x(1) s0])
  have yk: "of_nat m * 10 powi k = ?y" using strip_zeros_value [OF s1] by simp
  with y show "fl (of_nat m * 10 powi k) = x" by simp
  have m0: "0 < m0" using y assms(2) by (cases "m0 = 0") simp_all
  then have m: "0 < m" using strip_zeros_value [OF s1] by simp
  have "0 \<le> ?y" by simp
  from fl_half [OF this] have xy: "x \<le> 2 * ?y" "?y \<le> 2 * x" unfolding y by linarith+
  have t: "(10 :: rat) powi 301 = 10 * float_top" "(10 :: rat) powi (- 301) = 1 / float_top / 10"
    by (simp_all only: float_top_def power_int_minus power_int_numeral) simp_all
  have "0 < 1 / float_top" using big_float(2) by simp
  from within_double [OF t this big_float(2) x(2,3) xy] have "10 powi (- 301) \<le> ?y" "?y < 10 powi 301" by simp_all
  then show "\<bar>k + int (length (itoa_nat m)) - 1\<bar> < 100000" using m by (intro exponent_bound) (simp_all add: yk)
qed

lemma format_pos_cases:
  "(case shortest x of (m0, k0) \<Rightarrow> strip_zeros m0 k0) = (m, k) \<Longrightarrow> format_pos x = fmt_e m k \<or> format_pos x = fmt_f m k"
  by (auto simp: format_pos_def Let_def split: prod.splits)

lemma parse_format_pos:
  assumes "float_range x" and "0 < x"
  shows "parse_float (format_pos x) = Some (Fin x)"
proof -
  obtain m k where s: "(case shortest x of (m0, k0) \<Rightarrow> strip_zeros m0 k0) = (m, k)" by fastforce
  note p = printed_digits [OF assms s]
  have "\<not> float_limit \<le> x" using assms big_float by (auto simp: float_range_def)
  then show ?thesis
    using format_pos_cases [OF s] parse_fmt_e [OF p(2)] parse_fmt_f [of m k] p(1) by (auto simp: in_format_def)
qed

text \<open>What the printer writes the reader gives back.\<close>

lemma parse_format: "float_range v \<Longrightarrow> parse_float (format_float v) = Some (Fin v)"
proof (cases "v = 0")
  case True
  have "parse_float (itoa_nat 0) = Some (Fin 0)"
    using parse_fmt_f [of 0 0] by (simp add: fmt_f_def in_format_def float_limit_def)
  moreover have "itoa_nat 0 = ''0''" by code_simp
  ultimately show ?thesis using True by (simp add: format_float_def)
next
  case False
  assume r: "float_range v"
  then have "0 < v" using False big_float(2) by (auto simp: float_range_def intro: less_le_trans [OF divide_pos_pos])
  with r parse_format_pos show ?thesis by (simp add: format_float_def)
qed

lemma parse_itoa:
  assumes "n < 2 ^ 64"
  shows "parse_float (itoa_nat n) = Some (Fin (fl (of_nat n)))"
proof -
  have "\<bar>fl (of_nat n) - of_nat n\<bar> \<le> (of_nat n :: rat)"
    using fl_near [of "of_nat n"] by (rule order_trans) simp
  then have "fl (of_nat n) \<le> 2 * of_nat n" by linarith
  also have "\<dots> < (2 * of_nat (2 ^ 64) :: rat)" using assms by (simp only: of_nat_less_iff mult_less_cancel_left_pos)
  also have "\<dots> \<le> float_limit" by (simp add: float_limit_def)
  finally show ?thesis using parse_fmt_f [of n 0] by (simp add: fmt_f_def in_format_def)
qed

lemma digits_num: "list_all is_digit s \<Longrightarrow> list_all num_char s"
  by (auto simp: list_all_iff num_char_def)

lemma fmt_f_num: "list_all num_char (fmt_f m k) \<and> fmt_f m k \<noteq> []"
  using digits_pad(1,2) by (simp add: fmt_f_def digits_num num_char_def)

lemma fmt_e_num: "\<bar>k + int (length (itoa_nat m)) - 1\<bar> < 100000 \<Longrightarrow> list_all num_char (fmt_e m k) \<and> fmt_e m k \<noteq> []"
proof -
  assume "\<bar>k + int (length (itoa_nat m)) - 1\<bar> < 100000"
  note e = read_exp_digits(2) [OF this]
  obtain c t where ct: "itoa_nat m = c # t" by (cases "itoa_nat m") auto
  with digits_pad(1) [of m] have "num_char c" "list_all num_char t" by (auto simp: list_all_iff num_char_def)
  with e ct show ?thesis by (simp add: fmt_e_def num_char_def)
qed

lemma format_float_num:
  assumes "float_range v"
  shows "list_all num_char (format_float v)" "format_float v \<noteq> []"
proof -
  have "list_all num_char (format_float v) \<and> format_float v \<noteq> []"
  proof (cases "v = 0")
    case False
    then have v: "0 < v" using assms big_float(2) by (auto simp: float_range_def intro: less_le_trans [OF divide_pos_pos])
    obtain m k where s: "(case shortest v of (m0, k0) \<Rightarrow> strip_zeros m0 k0) = (m, k)" by fastforce
    show ?thesis
      using format_pos_cases [OF s] fmt_e_num [OF printed_digits(2) [OF assms v s]] fmt_f_num [of m k] v
      by (auto simp: format_float_def)
  qed (simp add: format_float_def num_char_def is_digit_def)
  then show "list_all num_char (format_float v)" "format_float v \<noteq> []" by simp_all
qed

lemma fl_int_exact:
  assumes "n < 2 ^ 53"
  shows "fl (of_nat n) = of_nat n"
proof (cases "n = 0")
  case False
  then obtain e where e: "2 ^ e \<le> n" "n < 2 ^ Suc e" using ex_power_ivl1 [of 2 n] by auto
  have "e < 53"
  proof (rule ccontr)
    assume "\<not> e < 53"
    then have "(2 :: nat) ^ 53 \<le> 2 ^ e" by (intro power_increasing) auto
    with e assms show False by linarith
  qed
  moreover have "(2 :: rat) ^ e \<le> of_nat n" "(of_nat n :: rat) < 2 ^ Suc e"
  proof -
    have "(of_nat (2 ^ e) :: rat) \<le> of_nat n" "(of_nat n :: rat) < of_nat (2 ^ Suc e)"
      using e by (simp_all only: of_nat_le_iff of_nat_less_iff)
    then show "(2 :: rat) ^ e \<le> of_nat n" "(of_nat n :: rat) < 2 ^ Suc e" by simp_all
  qed
  ultimately have "fl (of_nat n) = of_int (int n)" using False by (intro fl_to_int [of _ e]) simp_all
  then show ?thesis by simp
qed simp

lemma fl_idem: "fl (fl x) = fl x" if "0 < x"
proof -
  let ?e = "flog2 x" let ?u = "2 powi (?e - 52) :: rat"
  let ?k = "round_half_even (x / ?u)"
  have u: "0 < ?u" by simp
  have p: "?u * 2 ^ 52 = 2 powi ?e" "?u * 2 ^ 53 = 2 powi (?e + 1)" by (simp_all add: power_int_diff power_int_add)
  have f: "fl x = of_int ?k * ?u" using that by (simp add: fl_def Let_def)
  have q: "2 ^ 52 \<le> x / ?u" "x / ?u < 2 ^ 53" using flog2_bounds [OF that] p u
    by (simp_all add: pos_le_divide_eq pos_divide_less_eq mult.commute)
  have r: "\<bar>of_int ?k - x / ?u\<bar> \<le> 1 / 2" by (rule round_half_even_near)
  have k: "2 ^ 52 \<le> ?k" "?k \<le> 2 ^ 53"
  proof -
    have "2 ^ 52 - 1 < (of_int ?k :: rat)" "(of_int ?k :: rat) < 2 ^ 53 + 1" using q r by linarith+
    then have "(of_int (2 ^ 52 - 1) :: rat) < of_int ?k" "(of_int ?k :: rat) < of_int (2 ^ 53 + 1)" by simp_all
    then have "2 ^ 52 - 1 < ?k" "?k < 2 ^ 53 + 1" by (simp_all only: of_int_less_iff)
    then show "2 ^ 52 \<le> ?k" "?k \<le> 2 ^ 53" by simp_all
  qed
  show ?thesis
  proof (cases "?k = 2 ^ 53")
    case True
    then have y: "fl x = 2 powi (?e + 1)" unfolding f p(2) [symmetric] by (simp add: mult.commute)
    have "flog2 (2 powi (?e + 1)) = ?e + 1" by (rule flog2_unique) (simp, rule power_int_strict_increasing, simp_all)
    moreover have "(2 :: rat) powi (?e + 1) / 2 powi (?e + 1 - 52) = 2 ^ 52" by (simp add: power_int_diff power_int_add)
    ultimately have "fl (2 powi (?e + 1)) = of_int (2 ^ 52) * 2 powi (?e + 1 - 52)" by (intro fl_step) simp_all
    also have "\<dots> = 2 powi (?e + 1)" by (simp add: power_int_diff power_int_add)
    finally show ?thesis unfolding y .
  next
    case False
    then have "?k < 2 ^ 53" using k by simp
    then have k': "(2 :: rat) ^ 52 \<le> of_int ?k" "(of_int ?k :: rat) < 2 ^ 53" using k(1) by simp_all
    have "?u * 2 ^ 52 \<le> of_int ?k * ?u" "of_int ?k * ?u < ?u * 2 ^ 53"
      unfolding mult.commute [of ?u] using k' u by (simp_all add: mult_right_mono)
    then have "flog2 (of_int ?k * ?u) = ?e" unfolding p by (intro flog2_unique)
    moreover have "0 < of_int ?k * ?u" using k'(1) u by (intro mult_pos_pos) simp_all
    ultimately show ?thesis unfolding f by (intro fl_step) simp_all
  qed
qed

end
