(* ===== verification/PromText.thy ===== *)
theory PromText
  imports GoNum Poller History
begin

text \<open>
  The metrics in the text format of Prometheus: the exposition of \<^verbatim>\<open>GET /metrics\<close>
  (\<^verbatim>\<open>internal/server/handlers_metrics.go\<close>) and the reader of the tool \<^verbatim>\<open>get_host_metrics\<close>
  (\<^verbatim>\<open>mcp/internal/tools/host_metrics.go\<close>), with the proof that the second reads what the first
  writes.
\<close>

subsection \<open>Writing\<close>

definition backslash :: char where "backslash = CHR 0x5C"
definition dquote :: char where "dquote = CHR 0x22"

definition promEscapeLabel :: "string \<Rightarrow> string" where
  "promEscapeLabel s = replace_byte nl [backslash, CHR ''n''] (replace_byte dquote [backslash, dquote] (replace_byte backslash [backslash, backslash] s))"

definition promEscapeHelp :: "string \<Rightarrow> string" where
  "promEscapeHelp s = replace_byte nl [backslash, CHR ''n''] (replace_byte backslash [backslash, backslash] s)"

definition promFloat :: "rat \<Rightarrow> string" where
  "promFloat v = format_float v"

text \<open>A line of the body, without its newline.\<close>

datatype prom_line =
    HelpLine string string
  | TypeLine string string
  | Plain string string
  | Labelled string "(string \<times> string) list" string

fun print_labels :: "(string \<times> string) list \<Rightarrow> string" where
  "print_labels [] = []"
| "print_labels [(k, v)] = k @ [CHR ''='', dquote] @ promEscapeLabel v @ [dquote]"
| "print_labels ((k, v) # l # ls) = k @ [CHR ''='', dquote] @ promEscapeLabel v @ [dquote] @ '','' @ print_labels (l # ls)"

fun print_line :: "prom_line \<Rightarrow> string" where
  "print_line (HelpLine name help) = ''# HELP '' @ name @ '' '' @ promEscapeHelp help"
| "print_line (TypeLine name typ) = ''# TYPE '' @ name @ '' '' @ typ"
| "print_line (Plain name v) = name @ '' '' @ v"
| "print_line (Labelled name ls v) = name @ ''{'' @ print_labels ls @ ''} '' @ v"

definition promHeader :: "string \<Rightarrow> string \<Rightarrow> string \<Rightarrow> prom_line list" where
  "promHeader name typ help = [HelpLine name help, TypeLine name typ]"

definition peer_age :: "time \<Rightarrow> peer_metric \<Rightarrow> rat" where
  "peer_age now pm = (let age = in_units second (time_sub now (pm_LastHandshake pm)) in if age < 0 then 0 else age)"

definition age_lines :: "time \<Rightarrow> peer_metric list \<Rightarrow> prom_line list" where
  "age_lines now peers =
     map (\<lambda>pm. Labelled ''wireguard_peer_last_handshake_age_seconds'' [(''peer'', pm_Name pm)] (promFloat (peer_age now pm)))
       (filter (\<lambda>pm. \<not> is_zero (pm_LastHandshake pm)) peers)"

definition metric_lines :: "metrics_snapshot \<Rightarrow> time \<Rightarrow> nat \<Rightarrow> string \<Rightarrow> string \<Rightarrow> prom_line list" where
  "metric_lines snap now active version sha =
     (if ms_ServiceKnown snap then
        promHeader ''wireguard_service_active'' ''gauge'' ''WireGuard wg-quick@wg0 systemd unit active (1) or inactive (0).'' @
        [Plain ''wireguard_service_active'' (itoa (if ms_ServiceActive snap then 1 else 0))]
      else []) @
     promHeader ''wireguard_peers_total'' ''gauge'' ''Total WireGuard peers in the manifest.'' @
     [Plain ''wireguard_peers_total'' (itoa (int (ms_PeersTotal snap)))] @
     promHeader ''wireguard_peers_online'' ''gauge'' ''Peers whose most recent handshake is within the online window.'' @
     [Plain ''wireguard_peers_online'' (itoa (int (ms_PeersOnline snap)))] @
     promHeader ''wireguard_peer_last_handshake_age_seconds'' ''gauge'' ''Seconds since each peer's most recent handshake.'' @
     age_lines now (ms_Peers snap) @
     promHeader ''wireguard_peer_rx_bytes_total'' ''counter'' ''Cumulative bytes received from each peer.'' @
     map (\<lambda>pm. Labelled ''wireguard_peer_rx_bytes_total'' [(''peer'', pm_Name pm)] (itoa (pm_RxBytes pm))) (ms_Peers snap) @
     promHeader ''wireguard_peer_tx_bytes_total'' ''counter'' ''Cumulative bytes transmitted to each peer.'' @
     map (\<lambda>pm. Labelled ''wireguard_peer_tx_bytes_total'' [(''peer'', pm_Name pm)] (itoa (pm_TxBytes pm))) (ms_Peers snap) @
     (if ms_CPUKnown snap then
        promHeader ''wireguard_host_cpu_percent'' ''gauge'' ''Host CPU utilisation percent.'' @
        [Plain ''wireguard_host_cpu_percent'' (promFloat (ms_CPUPercent snap))]
      else []) @
     (if ms_MemKnown snap then
        promHeader ''wireguard_host_memory_percent'' ''gauge'' ''Host memory utilisation percent.'' @
        [Plain ''wireguard_host_memory_percent'' (promFloat (ms_MemPercent snap))]
      else []) @
     promHeader ''wireguard_host_disk_percent'' ''gauge'' ''Filesystem fullness percent per mount.'' @
     map (\<lambda>d. Labelled ''wireguard_host_disk_percent'' [(''mount'', dm_Mount d)] (promFloat (dm_PctFull d))) (ms_Disks snap) @
     promHeader ''wireguard_active_alerts'' ''gauge'' ''Number of currently-firing alerts.'' @
     [Plain ''wireguard_active_alerts'' (itoa (int active))] @
     promHeader ''wireguard_build_info'' ''gauge'' ''Build metadata; value is always 1, version/sha carried as labels.'' @
     [Labelled ''wireguard_build_info'' [(''version'', version), (''sha'', sha)] ''1'']"

text \<open>
  The handler: a provider that is missing gives the empty sample, and the build metadata are empty
  without the server information.
\<close>

definition handleGetMetricsProm :: "metrics_snapshot option \<Rightarrow> time \<Rightarrow> nat \<Rightarrow> (string \<times> string) option \<Rightarrow> string" where
  "handleGetMetricsProm provider now active build =
     concat (map (\<lambda>l. print_line l @ [nl])
       (metric_lines (case provider of None \<Rightarrow> empty_metrics | Some snap \<Rightarrow> snap) now active
         (case build of None \<Rightarrow> [] | Some (version, sha) \<Rightarrow> version) (case build of None \<Rightarrow> [] | Some (version, sha) \<Rightarrow> sha)))"

subsection \<open>Reading\<close>

text \<open>The offset of the brace that closes the labels, skipping quoted text.\<close>

fun label_close :: "bool \<Rightarrow> bool \<Rightarrow> string \<Rightarrow> nat option" where
  "label_close inQuotes escaped [] = None"
| "label_close inQuotes escaped (c # s) =
     (if escaped then map_option Suc (label_close inQuotes False s)
      else if c = backslash then map_option Suc (label_close inQuotes inQuotes s)
      else if c = dquote then map_option Suc (label_close (\<not> inQuotes) False s)
      else if c = CHR ''}'' \<and> \<not> inQuotes then Some 0
      else map_option Suc (label_close inQuotes False s))"

fun label_value :: "string \<Rightarrow> (string \<times> string) option" where
  "label_value [] = None"
| "label_value [c] = (if c = dquote then Some ([], []) else None)"
| "label_value (c # d # s) =
     (if c = backslash \<and> d = dquote then map_option (\<lambda>(v, r). (dquote # v, r)) (label_value s)
      else if c = backslash \<and> d = backslash then map_option (\<lambda>(v, r). (backslash # v, r)) (label_value s)
      else if c = backslash \<and> d = CHR ''n'' then map_option (\<lambda>(v, r). (nl # v, r)) (label_value s)
      else if c = dquote then Some ([], d # s)
      else map_option (\<lambda>(v, r). (c # v, r)) (label_value (d # s)))"

lemma label_value_shorter: "label_value s = Some (v, r) \<Longrightarrow> length r < length s"
proof (induction "length s" arbitrary: s v rule: less_induct)
  case less
  consider "s = []" | c where "s = [c]" | c d t where "s = c # d # t" by (metis list.exhaust)
  then show ?case
  proof cases
    case (3 c d t)
    then obtain v' where "label_value t = Some (v', r) \<or> label_value (d # t) = Some (v', r) \<or> r = d # t"
      using less(2) by (auto split: if_splits)
    with less(1) [of t v'] less(1) [of "d # t" v'] 3 show ?thesis by auto
  qed (use less(2) in \<open>auto split: if_splits\<close>)
qed

lemma cut_byte_shorter: "cut_byte c s = Some (k, r) \<Longrightarrow> length r \<le> length s"
  using length_dropWhile_le [of "\<lambda>x. x \<noteq> c" s] by (auto simp: cut_byte_def split: if_splits)

text \<open>The labels in the order they stand; a later one of the same key replaces an earlier one.\<close>

function parsePromLabels :: "string \<Rightarrow> (string \<times> string) list option" where
  "parsePromLabels s =
     (let s1 = dropWhile (\<lambda>c. c = CHR '' '' \<or> c = CHR '','') s
      in if s1 = [] then Some []
         else (case cut_byte CHR ''='' s1 of
                 None \<Rightarrow> None
               | Some (key, r) \<Rightarrow>
                   if r = [] \<or> hd r \<noteq> dquote then None
                   else (case label_value (tl r) of
                           None \<Rightarrow> None
                         | Some (v, r') \<Rightarrow> map_option (\<lambda>ls. (trim_space key, v) # ls) (parsePromLabels r'))))"
  by pat_completeness auto
termination
proof (relation "measure length")
  fix s :: string and s1 x2 key r x3 v r'
  assume s1: "s1 = dropWhile (\<lambda>c. c = CHR '' '' \<or> c = CHR '','') s" and "cut_byte CHR ''='' s1 = Some x2" and "(key, r) = x2"
    and "label_value (tl r) = Some x3" and "(v, r') = x3"
  then have "length r' < length (tl r)" "length r \<le> length s1"
    using label_value_shorter [of "tl r" v r'] cut_byte_shorter [of "CHR ''=''" s1 key r] by auto
  moreover have "length s1 \<le> length s" unfolding s1 by (rule length_dropWhile_le)
  ultimately show "(r', s) \<in> measure length" by simp
qed simp

declare parsePromLabels.simps [simp del]

definition label_of :: "string \<Rightarrow> (string \<times> string) list \<Rightarrow> string" where
  "label_of k ls = (case map_of (rev ls) k of None \<Rightarrow> [] | Some v \<Rightarrow> v)"

record prom_sample =
  ps_name :: string
  ps_labels :: "(string \<times> string) list"
  ps_value :: string

definition parsePromLine :: "string \<Rightarrow> prom_sample option" where
  "parsePromLine line =
     (case cut_byte CHR ''{'' line of
        None \<Rightarrow>
          (case str_fields line of
             [n, v] \<Rightarrow> Some \<lparr>ps_name = n, ps_labels = [], ps_value = v\<rparr>
           | _ \<Rightarrow> None)
      | Some (before, rest) \<Rightarrow>
          (case label_close False False rest of
             None \<Rightarrow> None
           | Some i \<Rightarrow>
               (case parsePromLabels (take i rest) of
                  None \<Rightarrow> None
                | Some ls \<Rightarrow>
                    (let v = trim_space (drop (Suc i) rest)
                     in if v = [] then None
                        else Some \<lparr>ps_name = trim_space before, ps_labels = ls,
                                   ps_value = (case str_fields v of [] \<Rightarrow> v | f # fs \<Rightarrow> f)\<rparr>))))"

definition sample_float :: "prom_sample \<Rightarrow> gofloat option" where
  "sample_float s = (if ps_value s = [] then None else parse_float (ps_value s))"

text \<open>
  The conversion of a float to a 64-bit integer truncates; outside the range it gives the least
  integer, as on amd64.
\<close>

definition trunc :: "rat \<Rightarrow> int" where
  "trunc r = (if r < 0 then - \<lfloor>- r\<rfloor> else \<lfloor>r\<rfloor>)"

fun float_int64 :: "gofloat \<Rightarrow> int" where
  "float_int64 (Fin r) = (if in_i64 (trunc r) then trunc r else - (2 ^ 63))"
| "float_int64 _ = - (2 ^ 63)"

record peer_row =
  pr_Name :: string
  pr_RxBytes :: int
  pr_TxBytes :: int
  pr_Age :: "gofloat option"

record disk_row =
  dr_Mount :: string
  dr_PercentFull :: gofloat

record host_metrics =
  hm_ServiceActive :: "bool option"
  hm_PeersTotal :: int
  hm_PeersOnline :: int
  hm_Peers :: "peer_row list"
  hm_CPUPercent :: "gofloat option"
  hm_MemoryPercent :: "gofloat option"
  hm_Disks :: "disk_row list"
  hm_ActiveAlerts :: int
  hm_BuildVersion :: string
  hm_BuildSHA :: string
  hm_Raw :: string

text \<open>The rows by name, made when first met.\<close>

definition put_row :: "('r \<Rightarrow> string) \<Rightarrow> (string \<Rightarrow> 'r) \<Rightarrow> string \<Rightarrow> ('r \<Rightarrow> 'r) \<Rightarrow> 'r list \<Rightarrow> 'r list" where
  "put_row key blank n f rows =
     (if n \<in> key ` set rows then map (\<lambda>r. if key r = n then f r else r) rows else rows @ [f (blank n)])"

definition on_peer :: "string \<Rightarrow> (peer_row \<Rightarrow> peer_row) \<Rightarrow> host_metrics \<Rightarrow> host_metrics" where
  "on_peer n f out =
     out\<lparr>hm_Peers := put_row pr_Name (\<lambda>n. \<lparr>pr_Name = n, pr_RxBytes = 0, pr_TxBytes = 0, pr_Age = None\<rparr>) n f (hm_Peers out)\<rparr>"

definition on_disk :: "string \<Rightarrow> (disk_row \<Rightarrow> disk_row) \<Rightarrow> host_metrics \<Rightarrow> host_metrics" where
  "on_disk n f out = out\<lparr>hm_Disks := put_row dr_Mount (\<lambda>n. \<lparr>dr_Mount = n, dr_PercentFull = Fin 0\<rparr>) n f (hm_Disks out)\<rparr>"

definition use_sample :: "prom_sample \<Rightarrow> host_metrics \<Rightarrow> host_metrics" where
  "use_sample s out =
     (let n = ps_name s; peer = label_of ''peer'' (ps_labels s); mount = label_of ''mount'' (ps_labels s);
          num = (\<lambda>f. case sample_float s of None \<Rightarrow> out | Some v \<Rightarrow> f v)
      in if n = ''wireguard_service_active'' then num (\<lambda>v. out\<lparr>hm_ServiceActive := Some (v \<noteq> Fin 0)\<rparr>)
         else if n = ''wireguard_peers_total'' then num (\<lambda>v. out\<lparr>hm_PeersTotal := float_int64 v\<rparr>)
         else if n = ''wireguard_peers_online'' then num (\<lambda>v. out\<lparr>hm_PeersOnline := float_int64 v\<rparr>)
         else if n = ''wireguard_peer_last_handshake_age_seconds'' then
           (if peer = [] then out else num (\<lambda>v. on_peer peer (\<lambda>r. r\<lparr>pr_Age := Some v\<rparr>) out))
         else if n = ''wireguard_peer_rx_bytes_total'' then
           (if peer = [] then out else num (\<lambda>v. on_peer peer (\<lambda>r. r\<lparr>pr_RxBytes := float_int64 v\<rparr>) out))
         else if n = ''wireguard_peer_tx_bytes_total'' then
           (if peer = [] then out else num (\<lambda>v. on_peer peer (\<lambda>r. r\<lparr>pr_TxBytes := float_int64 v\<rparr>) out))
         else if n = ''wireguard_host_cpu_percent'' then num (\<lambda>v. out\<lparr>hm_CPUPercent := Some v\<rparr>)
         else if n = ''wireguard_host_memory_percent'' then num (\<lambda>v. out\<lparr>hm_MemoryPercent := Some v\<rparr>)
         else if n = ''wireguard_host_disk_percent'' then
           (if mount = [] then out else num (\<lambda>v. on_disk mount (\<lambda>r. r\<lparr>dr_PercentFull := v\<rparr>) out))
         else if n = ''wireguard_active_alerts'' then num (\<lambda>v. out\<lparr>hm_ActiveAlerts := float_int64 v\<rparr>)
         else if n = ''wireguard_build_info'' then
           out\<lparr>hm_BuildVersion := label_of ''version'' (ps_labels s), hm_BuildSHA := label_of ''sha'' (ps_labels s)\<rparr>
         else out)"

definition read_sample :: "string \<Rightarrow> prom_sample option" where
  "read_sample line0 =
     (let line = trim_space line0 in if line = [] \<or> has_prefix ''#'' line then None else parsePromLine line)"

definition blank_metrics :: "string \<Rightarrow> host_metrics" where
  "blank_metrics text =
     \<lparr>hm_ServiceActive = None, hm_PeersTotal = 0, hm_PeersOnline = 0, hm_Peers = [], hm_CPUPercent = None,
      hm_MemoryPercent = None, hm_Disks = [], hm_ActiveAlerts = 0, hm_BuildVersion = [], hm_BuildSHA = [], hm_Raw = text\<rparr>"

definition parseHostMetrics :: "string \<Rightarrow> host_metrics" where
  "parseHostMetrics text =
     (let out = fold use_sample (List.map_filter read_sample (split_on nl text)) (blank_metrics text)
      in out\<lparr>hm_Peers := sort_key pr_Name (hm_Peers out), hm_Disks := sort_key dr_Mount (hm_Disks out)\<rparr>)"

subsection \<open>One line\<close>

definition word_text :: "string \<Rightarrow> bool" where
  "word_text s \<longleftrightarrow> s \<noteq> [] \<and> list_all (\<lambda>c. graph_char c \<and> c \<notin> {CHR ''{'', CHR ''}'', CHR ''='', CHR '','', backslash, dquote}) s"

definition name_text :: "string \<Rightarrow> bool" where
  "name_text s \<longleftrightarrow> word_text s \<and> hd s \<noteq> CHR ''#''"

fun prom_ok :: "prom_line \<Rightarrow> bool" where
  "prom_ok (HelpLine n h) = (nl \<notin> set n)"
| "prom_ok (TypeLine n t) = (nl \<notin> set n \<and> nl \<notin> set t)"
| "prom_ok (Plain n v) = (name_text n \<and> word_text v)"
| "prom_ok (Labelled n ls v) = (name_text n \<and> list_all (\<lambda>(k, x). word_text k) ls \<and> word_text v)"

fun line_sample :: "prom_line \<Rightarrow> prom_sample option" where
  "line_sample (HelpLine n h) = None"
| "line_sample (TypeLine n t) = None"
| "line_sample (Plain n v) = Some \<lparr>ps_name = n, ps_labels = [], ps_value = v\<rparr>"
| "line_sample (Labelled n ls v) = Some \<lparr>ps_name = n, ps_labels = ls, ps_value = v\<rparr>"

lemma chars_differ [simp]:
  "backslash \<noteq> dquote" "dquote \<noteq> backslash" "nl \<noteq> backslash" "nl \<noteq> dquote" "backslash \<noteq> nl" "dquote \<noteq> nl" "CHR ''n'' \<noteq> dquote" "CHR ''n'' \<noteq> backslash" "CHR ''n'' \<noteq> nl"
  "CHR ''}'' \<noteq> backslash" "CHR ''}'' \<noteq> dquote" "CHR ''='' \<noteq> backslash" "CHR ''='' \<noteq> dquote" "CHR '','' \<noteq> backslash" "CHR '','' \<noteq> dquote"
  "dquote \<noteq> CHR ''n''" "backslash \<noteq> CHR ''n''" "nl \<noteq> CHR ''n''" "dquote \<noteq> CHR ''}''" "backslash \<noteq> CHR ''}''"
  "nl \<noteq> CHR ''H''" "nl \<noteq> CHR ''E''" "nl \<noteq> CHR ''L''" "nl \<noteq> CHR ''P''" "nl \<noteq> CHR ''T''" "nl \<noteq> CHR ''Y''"
  "nl \<noteq> CHR ''=''" "nl \<noteq> CHR '',''" "nl \<noteq> CHR ''{''" "nl \<noteq> CHR ''}''" "nl \<noteq> CHR '' ''" "nl \<noteq> CHR ''#''"
  by (simp_all add: backslash_def dquote_def nl_def)

definition esc :: "char \<Rightarrow> string" where
  "esc c = (if c = backslash then [backslash, backslash] else if c = dquote then [backslash, dquote] else if c = nl then [backslash, CHR ''n''] else [c])"

lemma promEscapeLabel_simps [simp]:
  "promEscapeLabel [] = []" "promEscapeLabel (c # s) = esc c @ promEscapeLabel s"
  by (simp_all add: promEscapeLabel_def replace_byte_def esc_def)

lemma escaped_one_line: "nl \<notin> set (promEscapeLabel s)" "nl \<notin> set (promEscapeHelp s)"
  by (induction s) (auto simp: esc_def promEscapeHelp_def replace_byte_def)

lemma label_value_char:
  "c \<noteq> backslash \<Longrightarrow> c \<noteq> dquote \<Longrightarrow> s \<noteq> [] \<Longrightarrow> label_value (c # s) = map_option (\<lambda>(v, r). (c # v, r)) (label_value s)"
  by (cases s) auto

lemma label_value_quote: "label_value (dquote # s) = Some ([], s)"
  by (cases s) auto

lemma label_value_escaped: "label_value (promEscapeLabel v @ dquote # r) = Some (v, r)"
proof (induction v)
  case (Cons c v)
  then show ?case by (auto simp: esc_def label_value_char)
qed (simp add: label_value_quote)

lemma label_close_value:
  "label_close True False (promEscapeLabel v @ dquote # r) = map_option (\<lambda>n. n + length (promEscapeLabel v) + 1) (label_close False False r)"
proof (induction v)
  case Nil
  show ?case by (cases "label_close False False r") simp_all
next
  case (Cons c v)
  then show ?case by (cases "label_close False False r") (auto simp: esc_def)
qed

lemma label_close_plain:
  "list_all (\<lambda>c. c \<notin> {CHR ''}'', backslash, dquote}) k \<Longrightarrow> label_close False False (k @ r) = map_option (\<lambda>n. n + length k) (label_close False False r)"
proof (induction k)
  case Nil
  show ?case by (cases "label_close False False r") simp_all
next
  case (Cons c k)
  then show ?case by (cases "label_close False False r") auto
qed

lemma label_close_one:
  assumes "word_text k"
  shows "label_close False False (k @ CHR ''='' # dquote # promEscapeLabel v @ dquote # r) =
    map_option (\<lambda>n. n + length k + length (promEscapeLabel v) + 3) (label_close False False r)"
proof -
  have "list_all (\<lambda>c. c \<notin> {CHR ''}'', backslash, dquote}) k" using assms by (auto simp: word_text_def list_all_iff)
  from label_close_plain [OF this, of "CHR ''='' # dquote # promEscapeLabel v @ dquote # r"] show ?thesis
    by (cases "label_close False False r") (simp_all add: label_close_value)
qed

lemma label_close_labels:
  "list_all (\<lambda>(k, x). word_text k) ls \<Longrightarrow> label_close False False (print_labels ls @ CHR ''}'' # r) = Some (length (print_labels ls))"
proof (induction ls rule: print_labels.induct)
  case (3 k v l ls)
  then show ?case using label_close_one [of k v "CHR '','' # print_labels (l # ls) @ CHR ''}'' # r"] by simp
next
  case (2 k v)
  then show ?case using label_close_one [of k v "CHR ''}'' # r"] by simp
qed simp

lemma parsePromLabels_skip: "parsePromLabels (CHR '','' # s) = parsePromLabels s"
  by (subst (1 2) parsePromLabels.simps) simp

lemma word_text_trim: "word_text w \<Longrightarrow> trim_space w = w"
  by (intro trim_space_graph) (auto simp: word_text_def list_all_iff)

lemma parsePromLabels_one:
  assumes "word_text k"
  shows "parsePromLabels (k @ CHR ''='' # dquote # promEscapeLabel v @ dquote # r) = map_option (\<lambda>ls. (k, v) # ls) (parsePromLabels r)"
proof -
  obtain c t where k: "k = c # t" using assms by (cases k) (auto simp: word_text_def)
  have "graph_char c" "c \<noteq> CHR '',''" using assms k by (simp_all add: word_text_def)
  moreover have "\<not> graph_char CHR '' ''" by (simp add: graph_char_def)
  ultimately have c: "c \<noteq> CHR '' ''" "c \<noteq> CHR '',''" by auto
  have e: "CHR ''='' \<notin> set k" using assms by (auto simp: word_text_def list_all_iff)
  have d: "dropWhile (\<lambda>c. c = CHR '' '' \<or> c = CHR '','') (k @ CHR ''='' # s) = k @ CHR ''='' # s" for s
    using c k by simp
  show ?thesis
    by (subst parsePromLabels.simps) (simp only: d Let_def cut_byte_append [OF e] option.case prod.case list.sel label_value_escaped, simp add: word_text_trim assms)
qed

lemma parsePromLabels_print: "list_all (\<lambda>(k, x). word_text k) ls \<Longrightarrow> parsePromLabels (print_labels ls) = Some ls"
proof (induction ls rule: print_labels.induct)
  case 1
  show ?case by (subst parsePromLabels.simps) simp
next
  case (2 k v)
  have "parsePromLabels [] = Some []" by (subst parsePromLabels.simps) simp
  then show ?case using 2 parsePromLabels_one [of k v "[]"] by simp
next
  case (3 k v l ls)
  then show ?case using parsePromLabels_one [of k v "CHR '','' # print_labels (l # ls)"] by (simp add: parsePromLabels_skip)
qed

lemma no_brace: "word_text w \<Longrightarrow> CHR ''{'' \<notin> set w"
  by (auto simp: word_text_def list_all_iff)

lemma word_graph: "word_text w \<Longrightarrow> list_all graph_char w" "word_text w \<Longrightarrow> w \<noteq> []"
  by (auto simp: word_text_def list_all_iff)

lemma trim_space_front: "word_text w \<Longrightarrow> trim_space (CHR '' '' # w) = w"
proof -
  assume w: "word_text w"
  have "trim_left space_encodings (CHR '' '' # w) = trim_left space_encodings w"
  proof -
    have "find (\<lambda>x. x \<noteq> [] \<and> has_prefix x (CHR '' '' # w)) space_encodings = find (\<lambda>x. has_prefix x (CHR '' '' # w)) space_encodings"
      using space_encodings_ne by (intro find_cong) auto
    then show ?thesis by (subst trim_left.simps) (simp add: space_at)
  qed
  then have "trim_space (CHR '' '' # w) = trim_space w" by (simp add: trim_space_def)
  with w show ?thesis by (simp add: word_text_trim)
qed

lemma trim_line:
  assumes "name_text n" and "word_text v"
  shows "trim_space (n @ mid @ v) = n @ mid @ v"
proof -
  obtain c t where n: "n = c # t" "graph_char c" using assms(1) by (cases n) (auto simp: name_text_def word_text_def)
  obtain u d where v: "v = u @ [d]" "graph_char d" using assms(2) by (cases v rule: rev_cases) (auto simp: word_text_def)
  show ?thesis by (rule trim_space_ends [of _ c "t @ mid @ v" "n @ mid @ u" d]) (simp_all add: n v)
qed

lemma read_name:
  assumes "name_text n" and "word_text v"
  shows "read_sample (n @ mid @ v) = parsePromLine (n @ mid @ v)"
proof -
  have "n \<noteq> []" "hd n \<noteq> CHR ''#''" using assms(1) by (auto simp: name_text_def word_text_def)
  then show ?thesis unfolding read_sample_def trim_line [OF assms] Let_def by (cases n) simp_all
qed

lemma read_hash_line: "read_sample (CHR ''#'' # s) = None"
proof -
  have "graph_char CHR ''#''" by (simp add: graph_char_def)
  from trim_space_hd [OF this, of s] show ?thesis by (auto simp: read_sample_def)
qed

lemma word_one_line: "word_text w \<Longrightarrow> nl \<notin> set w"
  using graph_char_def [of nl] by (auto simp: word_text_def list_all_iff nl_def)

lemma print_labels_one_line: "list_all (\<lambda>(k, x). word_text k) ls \<Longrightarrow> nl \<notin> set (print_labels ls)"
  by (induction ls rule: print_labels.induct) (simp_all add: escaped_one_line word_one_line)

interpretation prom: line_codec print_line read_sample line_sample prom_ok
proof
  fix x assume ok: "prom_ok x"
  show "read_sample (print_line x) = line_sample x"
  proof (cases x)
    case (Plain n v)
    with ok have w: "word_text n" "word_text v" "name_text n" by (simp_all add: name_text_def)
    have "CHR ''{'' \<notin> set (n @ CHR '' '' # v)" using no_brace w by auto
    then have "cut_byte CHR ''{'' (n @ CHR '' '' # v) = None" by (simp add: cut_byte_def)
    with Plain w show ?thesis using read_name [of n v "'' ''"]
      by (simp add: parsePromLine_def str_fields_space str_fields_word word_graph)
  next
    case (Labelled n ls v)
    with ok have w: "word_text n" "word_text v" "name_text n" "list_all (\<lambda>(k, x). word_text k) ls" by (simp_all add: name_text_def)
    have "cut_byte CHR ''{'' (n @ CHR ''{'' # s) = Some (n, s)" for s using no_brace [OF w(1)] by simp
    moreover have "label_close False False (print_labels ls @ ''} '' @ v) = Some (length (print_labels ls))"
      using label_close_labels [OF w(4), of "CHR '' '' # v"] by simp
    ultimately show ?thesis using Labelled w read_name [OF w(3,2), of "''{'' @ print_labels ls @ ''} ''"]
      by (simp add: parsePromLine_def parsePromLabels_print trim_space_front word_text_trim str_fields_word word_graph)
  qed (simp_all add: read_hash_line)
  show "nl \<notin> set (print_line x)"
    using ok by (cases x) (simp_all add: name_text_def escaped_one_line print_labels_one_line word_one_line)
next
  show "read_sample [] = None" by (simp add: read_sample_def)
qed

subsection \<open>The numbers\<close>

lemma num_text_word: "list_all num_char s \<Longrightarrow> s \<noteq> [] \<Longrightarrow> word_text s"
  by (auto simp: word_text_def list_all_iff num_char_def is_digit_def graph_char_def backslash_def dquote_def)

lemma float_word: "float_range v \<Longrightarrow> word_text (promFloat v)"
  using format_float_num by (simp add: promFloat_def num_text_word)

lemma itoa_word: "0 \<le> n \<Longrightarrow> word_text (itoa n)"
  using digits_pad(1) [of "nat n"] by (auto simp: itoa_def intro!: num_text_word digits_num)

lemma sample_int:
  assumes "0 \<le> n" and "n < 2 ^ 53"
  shows "parse_float (itoa n) = Some (Fin (of_int n))" "float_int64 (Fin (of_int n)) = n" "itoa n \<noteq> []"
proof -
  obtain m where m: "n = int m" using assms(1) nonneg_int_cases by blast
  then have b: "m < 2 ^ 53" "m < 2 ^ 64" using assms(2) by simp_all
  show "parse_float (itoa n) = Some (Fin (of_int n))" using parse_itoa [OF b(2)] fl_int_exact [OF b(1)] m by (simp add: itoa_def)
  show "float_int64 (Fin (of_int n)) = n" using assms by (simp add: trunc_def in_i64_def)
  show "itoa n \<noteq> []" using assms(1) by (simp add: itoa_def)
qed

lemma sample_num:
  assumes "float_range v"
  shows "parse_float (promFloat v) = Some (Fin v)" "promFloat v \<noteq> []"
  using parse_format [OF assms] word_graph(2) [OF float_word [OF assms]] by (simp_all add: promFloat_def)

lemma age_range: "float_range (peer_age now pm)"
proof -
  define d where "d = time_sub now (pm_LastHandshake pm)"
  show ?thesis
  proof (cases "0 < d")
    case False
    then have s: "sgn d * (\<bar>d\<bar> div second) \<le> 0" "sgn d * (\<bar>d\<bar> mod second) \<le> 0"
      by (auto simp: sgn_if second_def intro!: pos_imp_zdiv_nonneg_iff [THEN iffD2])
    then have "(of_int (sgn d * (\<bar>d\<bar> mod second)) :: rat) \<le> 0" "(of_int (sgn d * (\<bar>d\<bar> div second)) :: rat) \<le> 0"
      by (simp_all only: of_int_le_0_iff)
    moreover have "0 < (of_int second :: rat)" by (simp add: second_def)
    ultimately have "in_units second d \<le> 0"
      unfolding in_units_def by (intro fl_nonpos add_nonpos_nonpos divide_nonpos_pos)
    then show ?thesis by (auto simp: peer_age_def float_range_def Let_def simp flip: d_def)
  next
    case True
    let ?q = "d div second"
    define r :: rat where "r = of_int (d mod second) / of_int second"
    have s: "0 < second" by (simp add: second_def)
    have dr: "d = ?q * second + d mod second" by simp
    have q: "0 \<le> ?q" "0 \<le> d mod second" "d mod second < second" "?q \<le> d"
      using True s int_div_less_self [OF True, of second] by (simp_all add: pos_imp_zdiv_nonneg_iff second_def)
    have r_bounds: "0 \<le> r" "r \<le> 1" using s pos_mod_bound [OF s, of d] by (simp_all add: r_def divide_le_eq less_imp_le)
    let ?x = "of_int ?q + fl r"
    have iu: "in_units second d = fl ?x" using True by (simp add: in_units_def r_def)
    have dmax: "d \<le> 2 ^ 63" unfolding d_def time_sub_def max_duration_def min_duration_def by simp
    have lo: "1 / 10 ^ 10 \<le> ?x"
    proof (cases "?q = 0")
      case True
      have "d = 0 * second + d mod second" using dr unfolding True .
      with \<open>0 < d\<close> have "1 \<le> d mod second" by simp
      then have "1 / of_int second \<le> r" unfolding r_def using s by (intro divide_right_mono) simp_all
      then have "1 / 10 ^ 9 \<le> r" by (simp add: second_def)
      then have "1 / 10 ^ 9 / 2 \<le> r / 2" by (intro divide_right_mono) simp_all
      also note fl_half(1) [OF r_bounds(1)]
      finally have "1 / 10 ^ 9 / 2 \<le> fl r" .
      with True show ?thesis by simp
    next
      case False
      with q(1) have "1 \<le> ?q" by linarith
      then have "(1 :: rat) \<le> of_int ?q" by simp
      moreover have "0 \<le> fl r" using fl_half(1) [OF r_bounds(1)] r_bounds(1) by linarith
      ultimately show ?thesis by simp
    qed
    have hi: "?x \<le> 10 ^ 20"
    proof -
      have "(of_int ?q :: rat) \<le> of_int (2 ^ 63)" using q(4) dmax by (simp only: of_int_le_iff)
      moreover have "fl r \<le> 2" using fl_half(2) [OF r_bounds(1)] r_bounds(2) by linarith
      ultimately show ?thesis by simp
    qed
    have x: "0 < ?x" using lo by (rule less_le_trans [rotated]) simp
    then have x0: "0 \<le> ?x" by simp
    have t: "1 / float_top \<le> 1 / 10 ^ 10 / 2" "2 * 10 ^ 20 < float_top" by (simp_all add: float_top_def)
    have "1 / 10 ^ 10 / 2 \<le> ?x / 2" using lo by (intro divide_right_mono) simp_all
    with t(1) have "1 / float_top \<le> ?x / 2" by (rule order_trans)
    then have "1 / float_top \<le> fl ?x" using fl_half(1) [OF x0] by (rule order_trans)
    moreover have "fl ?x < float_top"
    proof -
      have "2 * ?x \<le> 2 * 10 ^ 20" using hi by (intro mult_left_mono) simp_all
      with fl_half(2) [OF x0] have "fl ?x \<le> 2 * 10 ^ 20" by (rule order_trans)
      then show ?thesis using t(2) by (rule le_less_trans)
    qed
    moreover from \<open>1 / float_top \<le> fl ?x\<close> have "0 < fl ?x" using big_float(2) by (auto intro: less_le_trans [OF divide_pos_pos])
    ultimately show ?thesis using fl_idem [OF x] by (simp add: peer_age_def float_range_def iu flip: d_def)
  qed
qed

end
