(* ===== verification/Mcp.thy ===== *)
theory Mcp
  imports GoUrl PromText
begin

text \<open>
  The MCP server (\<^verbatim>\<open>mcp/\<close>): the HTTP client of the dashboard
  (\<^verbatim>\<open>internal/dashboard/client.go\<close>), the delete-confirmation tokens
  (\<^verbatim>\<open>internal/tools/tokens.go\<close>) and the tools (\<^verbatim>\<open>tools.go\<close>, \<^verbatim>\<open>host_metrics.go\<close>,
  \<^verbatim>\<open>mutating.go\<close>). The
  HTTP transport and the random source are parameters; each call of a tool is one step, since the
  token store is behind a mutex. The theorems trace every request back to the call that allowed it.
\<close>

subsection \<open>Escaping\<close>

definition upper_hex :: "nat \<Rightarrow> char" where
  "upper_hex d = (if d < 10 then digit_char d else char_of (d + 55))"

definition percent :: "char \<Rightarrow> string" where
  "percent c = (let n = (of_char c :: nat) in [CHR ''%'', upper_hex (n div 16), upper_hex (n mod 16)])"

definition unreserved :: "char \<Rightarrow> bool" where
  "unreserved c \<longleftrightarrow> is_letter c \<or> is_digit c \<or> c \<in> {CHR ''-'', CHR ''_'', CHR ''.'', CHR ''~''}"

text \<open>\<^verbatim>\<open>url.PathEscape\<close> and \<^verbatim>\<open>url.QueryEscape\<close>.\<close>

definition PathEscape :: "string \<Rightarrow> string" where
  "PathEscape s =
     concat (map (\<lambda>c. if unreserved c \<or> c \<in> {CHR ''$'', CHR ''&'', CHR ''+'', CHR '':'', CHR ''='', CHR ''@''}
                      then [c] else percent c) s)"

definition QueryEscape :: "string \<Rightarrow> string" where
  "QueryEscape s =
     concat (map (\<lambda>c. if c = CHR '' '' then ''+'' else if unreserved c then [c] else percent c) s)"

subsection \<open>The dashboard client\<close>

datatype http_method = MGet | MPost | MPatch | MDelete

record mcp_request =
  mq_Method :: http_method
  mq_URL :: string
  mq_Body :: "json option"
  mq_ContentType :: "string option"

text \<open>
  A response: its status and its body, which is its bytes with the JSON value they hold, if any;
  reading the body can fail.
\<close>

record mcp_response =
  mr_Status :: int
  mr_Body :: "string + string \<times> json option"

record 'w mcp_env =
  base_addr :: string
  transport :: "mcp_request \<Rightarrow> 'w \<Rightarrow> (string + mcp_response) \<times> 'w"
  rand_read :: "'w \<Rightarrow> (string + nat list) \<times> 'w"

datatype mcp_error =
    ErrBuilding string
  | ErrUnreachable string string string
  | ErrReading string string
  | StatusError string int string
  | ErrDecoding
  | ErrRand string
  | ErrRequired string
  | ErrConfirm
  | ErrTokenRequired string
  | ErrToken string
  | ErrNoClient string

definition maxBodySnippet :: nat where "maxBodySnippet = 512"

text \<open>The bytes of the ellipsis in UTF-8.\<close>

definition ellipsis :: string where
  "ellipsis = [CHR 0xE2, CHR 0x80, CHR 0xA6]"

definition snippet :: "string \<Rightarrow> string" where
  "snippet body =
     trim_space (if length body > maxBodySnippet then take maxBodySnippet body @ ellipsis else body)"

definition client_do :: "'w mcp_env \<Rightarrow> http_method \<Rightarrow> string \<Rightarrow> (string \<times> string) list \<Rightarrow> json option \<Rightarrow> 'w \<Rightarrow>
    (mcp_error + string \<times> json option) \<times> 'w" where
  "client_do env meth path query body w =
     (let encoded = join_with ''&'' (map (\<lambda>(k, v). QueryEscape k @ ''='' @ QueryEscape v) query);
          rawURL = ''http://'' @ base_addr env @ path @ (if encoded \<noteq> [] then ''?'' @ encoded else [])
      in if parse_url rawURL = None then (Inl (ErrBuilding path), w)
         else (case transport env \<lparr>mq_Method = meth, mq_URL = rawURL, mq_Body = body,
                                   mq_ContentType = map_option (\<lambda>_. ''application/json'') body\<rparr> w of
                 (Inl e, w') \<Rightarrow> (Inl (ErrUnreachable (base_addr env) path e), w')
               | (Inr resp, w') \<Rightarrow>
                   (case mr_Body resp of
                      Inl e \<Rightarrow> (Inl (ErrReading path e), w')
                    | Inr (text, j) \<Rightarrow>
                        if mr_Status resp < 200 \<or> mr_Status resp \<ge> 300
                        then (Inl (StatusError path (mr_Status resp) (snippet text)), w')
                        else (Inr (text, j), w'))))"

definition client_Get :: "'w mcp_env \<Rightarrow> string \<Rightarrow> (string \<times> string) list \<Rightarrow> 'w \<Rightarrow> (mcp_error + string \<times> json option) \<times> 'w" where
  "client_Get env path query = client_do env MGet path query None"

definition client_GetMetrics :: "'w mcp_env \<Rightarrow> 'w \<Rightarrow> (mcp_error + string \<times> json option) \<times> 'w" where
  "client_GetMetrics env = client_do env MGet ''/metrics'' [] None"

definition client_Post :: "'w mcp_env \<Rightarrow> string \<Rightarrow> json \<Rightarrow> 'w \<Rightarrow> (mcp_error + string \<times> json option) \<times> 'w" where
  "client_Post env path body = client_do env MPost path [] (Some body)"

definition client_Patch :: "'w mcp_env \<Rightarrow> string \<Rightarrow> json \<Rightarrow> 'w \<Rightarrow> (mcp_error + string \<times> json option) \<times> 'w" where
  "client_Patch env path body = client_do env MPatch path [] (Some body)"

definition client_Delete :: "'w mcp_env \<Rightarrow> string \<Rightarrow> 'w \<Rightarrow> (mcp_error + string \<times> json option) \<times> 'w" where
  "client_Delete env path = client_do env MDelete path [] None"

subsection \<open>The token store\<close>

definition tokenTTL :: duration where "tokenTTL = 5 * minute"

record token_entry =
  te_token :: string
  te_expires :: time

type_synonym token_store = "string \<rightharpoonup> token_entry"

definition NewStore :: token_store where "NewStore = Map.empty"

definition lower_hex :: "nat \<Rightarrow> char" where
  "lower_hex d = (if d < 10 then digit_char d else char_of (d + 87))"

definition hex_encode :: "nat list \<Rightarrow> string" where
  "hex_encode bs = concat (map (\<lambda>b. [lower_hex (b div 16), lower_hex (b mod 16)]) bs)"

definition Issue :: "'w mcp_env \<Rightarrow> time \<Rightarrow> string \<Rightarrow> token_store \<times> 'w \<Rightarrow> (mcp_error + string) \<times> token_store \<times> 'w" where
  "Issue env now name st =
     (case rand_read env (snd st) of
        (Inl e, w) \<Rightarrow> (Inl (ErrRand e), fst st, w)
      | (Inr bytes, w) \<Rightarrow>
          (let token = hex_encode bytes
           in (Inr token, (fst st)(name \<mapsto> \<lparr>te_token = token, te_expires = now + tokenTTL\<rparr>), w)))"

definition Verify :: "time \<Rightarrow> string \<Rightarrow> string \<Rightarrow> token_store \<Rightarrow> bool \<times> token_store" where
  "Verify now name token ts =
     (case ts name of
        None \<Rightarrow> (False, ts)
      | Some entry \<Rightarrow>
          if now > te_expires entry then (False, ts(name := None))
          else if te_token entry = token then (True, ts(name := None))
          else (False, ts))"

subsection \<open>The tools\<close>

datatype mcp_result =
    Text string
  | Preview string string string bool string string
  | HostMetrics host_metrics

type_synonym 'w tool = "token_store \<times> 'w \<Rightarrow> (mcp_error + mcp_result) \<times> token_store \<times> 'w"

definition proxied :: "('w \<Rightarrow> (mcp_error + string \<times> json option) \<times> 'w) \<Rightarrow> 'w tool" where
  "proxied m st =
     (case m (snd st) of
        (Inl e, w) \<Rightarrow> (Inl e, fst st, w)
      | (Inr (text, j), w) \<Rightarrow> (Inr (Text text), fst st, w))"

text \<open>The tool that answers with the parsed metrics text.\<close>

definition host_metrics_tool :: "'w mcp_env \<Rightarrow> 'w tool" where
  "host_metrics_tool env st =
     (case client_GetMetrics env (snd st) of
        (Inl e, w) \<Rightarrow> (Inl e, fst st, w)
      | (Inr (text, j), w) \<Rightarrow> (Inr (HostMetrics (parseHostMetrics text)), fst st, w))"

definition tool_get :: "'w mcp_env \<Rightarrow> string \<Rightarrow> (string \<times> string) list \<Rightarrow> 'w tool" where
  "tool_get env path query = proxied (client_Get env path query)"

definition tool_post :: "'w mcp_env \<Rightarrow> string \<Rightarrow> json \<Rightarrow> 'w tool" where
  "tool_post env path body = proxied (client_Post env path body)"

definition tool_patch :: "'w mcp_env \<Rightarrow> string \<Rightarrow> json \<Rightarrow> 'w tool" where
  "tool_patch env path body = proxied (client_Patch env path body)"

definition tool_del :: "'w mcp_env \<Rightarrow> string \<Rightarrow> 'w tool" where
  "tool_del env path = proxied (client_Delete env path)"

definition tool_fail :: "mcp_error \<Rightarrow> 'w tool" where
  "tool_fail e st = (Inl e, st)"

definition range_query :: "string \<Rightarrow> (string \<times> string) list" where
  "range_query rng = (if rng \<noteq> [] then [(''range'', rng)] else [])"

definition requireConfirm :: "bool \<Rightarrow> mcp_error option" where
  "requireConfirm confirm = (if \<not> confirm then Some ErrConfirm else None)"

definition nonEmptyPtr :: "string \<Rightarrow> string option" where
  "nonEmptyPtr s = (if s = [] then None else Some s)"

definition opt_member :: "string \<Rightarrow> string option \<Rightarrow> (string \<times> json) list" where
  "opt_member k v = (case v of None \<Rightarrow> [] | Some s \<Rightarrow> [(k, JStr s)])"

definition client_path :: "string \<Rightarrow> string" where
  "client_path name = ''/api/clients/'' @ PathEscape name"

record add_args =
  aa_Name :: string
  aa_PublicKey :: string
  aa_Address :: string
  aa_Note :: string
  aa_Confirm :: bool

record edit_args =
  ea_Name :: string
  ea_NewName :: string
  ea_PublicKey :: string
  ea_Address :: string
  ea_Note :: string
  ea_Confirm :: bool

definition add_client :: "'w mcp_env \<Rightarrow> add_args \<Rightarrow> 'w tool" where
  "add_client env a =
     (if aa_Name a = [] then tool_fail (ErrRequired ''name'')
      else if aa_PublicKey a = [] then tool_fail (ErrRequired ''public_key'')
      else (case requireConfirm (aa_Confirm a) of
              Some e \<Rightarrow> tool_fail e
            | None \<Rightarrow>
                tool_post env ''/api/clients''
                  (JObj ([(''name'', JStr (aa_Name a)), (''public_key'', JStr (aa_PublicKey a))] @
                         opt_member ''address'' (nonEmptyPtr (aa_Address a)) @
                         opt_member ''note'' (nonEmptyPtr (aa_Note a))))))"

definition edit_client_tool :: "'w mcp_env \<Rightarrow> edit_args \<Rightarrow> 'w tool" where
  "edit_client_tool env a =
     (if ea_Name a = [] then tool_fail (ErrRequired ''name'')
      else (case requireConfirm (ea_Confirm a) of
              Some e \<Rightarrow> tool_fail e
            | None \<Rightarrow>
                tool_patch env (client_path (ea_Name a))
                  (JObj (opt_member ''name'' (nonEmptyPtr (ea_NewName a)) @
                         opt_member ''public_key'' (nonEmptyPtr (ea_PublicKey a)) @
                         opt_member ''address'' (nonEmptyPtr (ea_Address a)) @
                         opt_member ''note'' (nonEmptyPtr (ea_Note a))))))"

definition toggleClient :: "'w mcp_env \<Rightarrow> string \<Rightarrow> bool \<Rightarrow> bool \<Rightarrow> 'w tool" where
  "toggleClient env name confirm enabled =
     (if name = [] then tool_fail (ErrRequired ''name'')
      else (case requireConfirm confirm of
              Some e \<Rightarrow> tool_fail e
            | None \<Rightarrow> tool_patch env (client_path name) (JObj [(''enabled'', JBool enabled)])))"

text \<open>The fields of a client row the preview shows, and its decoding.\<close>

record clientRowPreview =
  cp_Name :: string
  cp_PublicKey :: string
  cp_Status :: string
  cp_LatestHandshake :: string
  cp_Enabled :: bool

definition flag_member :: "string \<Rightarrow> (string \<times> json) list \<Rightarrow> bool option" where
  "flag_member name ms =
     fold (\<lambda>(k, v) acc.
             if to_lower k \<noteq> name then acc
             else (case v of JBool b \<Rightarrow> map_option (\<lambda>_. b) acc | JNull \<Rightarrow> acc | _ \<Rightarrow> None))
       ms (Some False)"

fun row_of_json :: "json \<Rightarrow> clientRowPreview option" where
  "row_of_json (JObj ms) =
     (case (string_member ''name'' ms, string_member ''public_key'' ms, string_member ''status'' ms,
            string_member ''latest_handshake'' ms, flag_member ''enabled'' ms) of
        (Some n, Some k, Some s, Some h, Some e) \<Rightarrow>
          Some \<lparr>cp_Name = n, cp_PublicKey = k, cp_Status = s, cp_LatestHandshake = h, cp_Enabled = e\<rparr>
      | _ \<Rightarrow> None)"
| "row_of_json JNull = Some \<lparr>cp_Name = [], cp_PublicKey = [], cp_Status = [], cp_LatestHandshake = [], cp_Enabled = False\<rparr>"
| "row_of_json _ = None"

fun rows_of_json :: "json \<Rightarrow> clientRowPreview list option" where
  "rows_of_json (JArr js) = traverse row_of_json js"
| "rows_of_json JNull = Some []"
| "rows_of_json _ = None"

definition fetchClientRow :: "'w mcp_env \<Rightarrow> string \<Rightarrow> 'w \<Rightarrow> (mcp_error + clientRowPreview option) \<times> 'w" where
  "fetchClientRow env name w =
     (case client_Get env ''/api/clients'' [] w of
        (Inl e, w') \<Rightarrow> (Inl e, w')
      | (Inr (text, j), w') \<Rightarrow>
          (case Option.bind j rows_of_json of
             None \<Rightarrow> (Inl ErrDecoding, w')
           | Some rows \<Rightarrow> (Inr (find (\<lambda>r. cp_Name r = name) rows), w')))"

definition or_unknown :: "string \<Rightarrow> string" where
  "or_unknown s = (if s = [] then ''unknown'' else s)"

definition preview_delete_client :: "'w mcp_env \<Rightarrow> time \<Rightarrow> string \<Rightarrow> 'w tool" where
  "preview_delete_client env now name st =
     (if name = [] then (Inl (ErrRequired ''name''), st)
      else (case fetchClientRow env name (snd st) of
              (Inl e, w) \<Rightarrow> (Inl e, fst st, w)
            | (Inr None, w) \<Rightarrow> (Inl (ErrNoClient name), fst st, w)
            | (Inr (Some row), w) \<Rightarrow>
                (case Issue env now name (fst st, w) of
                   (Inl e, st') \<Rightarrow> (Inl e, st')
                 | (Inr token, st') \<Rightarrow>
                     (Inr (Preview name (or_unknown (cp_PublicKey row)) (or_unknown (cp_Status row)) (cp_Enabled row)
                             (or_unknown (cp_LatestHandshake row)) token), st'))))"

definition delete_client :: "'w mcp_env \<Rightarrow> time \<Rightarrow> string \<Rightarrow> string \<Rightarrow> 'w tool" where
  "delete_client env now name token st =
     (if name = [] then (Inl (ErrRequired ''name''), st)
      else if token = [] then (Inl (ErrTokenRequired name), st)
      else (case Verify now name token (fst st) of
              (False, ts) \<Rightarrow> (Inl (ErrToken name), ts, snd st)
            | (True, ts) \<Rightarrow> tool_del env (client_path name) (ts, snd st)))"

datatype mcp_call =
    GetMetrics string
  | GetSystemMetrics string
  | GetTrafficMetrics string
  | GetClientMetrics string string
  | ListClientsTool
  | GetClientConfig string
  | GetClientHistory string string
  | GetServiceStatus
  | GetServerInfo
  | GetAlerts
  | GetSnapshot
  | GetGeo
  | GetHealth
  | GetHostMetrics
  | AddClient add_args
  | EditClient edit_args
  | EnableClient string bool
  | DisableClient string bool
  | PreviewDeleteClient string
  | DeleteClientTool string string

fun mcp_step :: "'w mcp_env \<Rightarrow> time \<Rightarrow> mcp_call \<Rightarrow> 'w tool" where
  "mcp_step env now (GetMetrics r) = tool_get env ''/api/metrics'' (range_query r)"
| "mcp_step env now (GetSystemMetrics r) = tool_get env ''/api/metrics/system'' (range_query r)"
| "mcp_step env now (GetTrafficMetrics r) = tool_get env ''/api/metrics/traffic'' (range_query r)"
| "mcp_step env now (GetClientMetrics k r) =
     (if k = [] then tool_fail (ErrRequired ''pubkey'')
      else tool_get env (''/api/metrics/client/'' @ PathEscape k) (range_query r))"
| "mcp_step env now ListClientsTool = tool_get env ''/api/clients'' []"
| "mcp_step env now (GetClientConfig n) =
     (if n = [] then tool_fail (ErrRequired ''name'') else tool_get env (client_path n @ ''/config'') [])"
| "mcp_step env now (GetClientHistory n r) =
     (if n = [] then tool_fail (ErrRequired ''name'') else tool_get env (client_path n @ ''/history'') (range_query r))"
| "mcp_step env now GetServiceStatus = tool_get env ''/api/service'' []"
| "mcp_step env now GetServerInfo = tool_get env ''/api/server'' []"
| "mcp_step env now GetAlerts = tool_get env ''/api/alerts'' []"
| "mcp_step env now GetSnapshot = tool_get env ''/api/snapshot'' []"
| "mcp_step env now GetGeo = tool_get env ''/api/geo'' []"
| "mcp_step env now GetHealth = tool_get env ''/api/health'' []"
| "mcp_step env now GetHostMetrics = host_metrics_tool env"
| "mcp_step env now (AddClient a) = add_client env a"
| "mcp_step env now (EditClient a) = edit_client_tool env a"
| "mcp_step env now (EnableClient n c) = toggleClient env n c True"
| "mcp_step env now (DisableClient n c) = toggleClient env n c False"
| "mcp_step env now (PreviewDeleteClient n) = preview_delete_client env now n"
| "mcp_step env now (DeleteClientTool n t) = delete_client env now n t"

subsection \<open>Escaped segments\<close>

lemma of_char_upper_hex: "d < 16 \<Longrightarrow> (of_char (upper_hex d) :: nat) = (if d < 10 then d + 48 else d + 55)"
  by (simp add: upper_hex_def)

lemma upper_hex_ok:
  assumes "d < 16"
  shows "is_hex (upper_hex d)" "hex_val (upper_hex d) = d" "upper_hex d \<noteq> CHR ''/''"
proof -
  show "is_hex (upper_hex d)" "hex_val (upper_hex d) = d"
    using assms by (auto simp: is_hex_def hex_val_def is_digit_def Let_def of_char_upper_hex)
  have "(of_char CHR ''/'' :: nat) = 47" by simp
  with assms show "upper_hex d \<noteq> CHR ''/''" using of_char_upper_hex [OF assms] by (auto split: if_splits)
qed

lemma of_char_div_16: "(of_char c :: nat) div 16 < 16"
  using nat_of_char_less_256 [of c] by (simp add: less_mult_imp_div_less)

lemma unescape_percent: "unescape EncOther (percent c @ s) = map_option (\<lambda>r. c # r) (unescape EncOther s)"
  by (simp add: percent_def Let_def upper_hex_ok of_char_div_16)

lemma PathEscape_Cons: "PathEscape (c # s) =
    (if unreserved c \<or> c \<in> {CHR ''$'', CHR ''&'', CHR ''+'', CHR '':'', CHR ''='', CHR ''@''} then [c] else percent c) @ PathEscape s"
  by (simp add: PathEscape_def)

lemma not_unreserved [simp]: "\<not> unreserved CHR ''%''" "\<not> unreserved CHR ''/''" "\<not> unreserved CHR ''?''" "\<not> unreserved CHR ''#''"
  by code_simp+

lemma PathEscape_roundtrip: "unescape EncOther (PathEscape s) = Some s"
proof (induction s)
  case (Cons c s)
  then show ?case
    by (cases "unreserved c \<or> c \<in> {CHR ''$'', CHR ''&'', CHR ''+'', CHR '':'', CHR ''='', CHR ''@''}")
      (auto simp: PathEscape_Cons unescape_percent)
qed (simp add: PathEscape_def)

lemma PathEscape_segment: "CHR ''/'' \<notin> set (PathEscape s)"
proof (induction s)
  case (Cons c s)
  have "CHR ''/'' \<notin> set (percent c)" for c
    using upper_hex_ok(3) [OF of_char_div_16 [of c]] upper_hex_ok(3) [of "of_char c mod 16"]
    by (auto simp: percent_def Let_def)
  with Cons show ?case by (auto simp: PathEscape_Cons)
qed (simp add: PathEscape_def)

subsection \<open>The requests of a session\<close>

text \<open>The same environment with a log of the requests given to the transport.\<close>

definition logged :: "'w mcp_env \<Rightarrow> ('w \<times> mcp_request list) mcp_env" where
  "logged env =
     \<lparr>base_addr = base_addr env,
      transport = (\<lambda>q (w, l). let (r, w') = transport env q w in (r, (w', l @ [q]))),
      rand_read = (\<lambda>(w, l). let (r, w') = rand_read env w in (r, (w', l)))\<rparr>"

record mcp_event =
  ev_at :: time
  ev_call :: mcp_call
  ev_result :: "mcp_error + mcp_result"
  ev_sent :: "mcp_request list"

fun mcp_run :: "'w mcp_env \<Rightarrow> (time \<times> mcp_call) list \<Rightarrow> token_store \<times> 'w \<Rightarrow> mcp_event list" where
  "mcp_run env [] st = []"
| "mcp_run env ((now, c) # cs) (ts, w) =
     (case mcp_step (logged env) now c (ts, (w, [])) of
        (r, ts', (w', sent)) \<Rightarrow>
          \<lparr>ev_at = now, ev_call = c, ev_result = r, ev_sent = sent\<rparr> # mcp_run env cs (ts', w'))"

text \<open>The methods a call may use.\<close>

fun permits :: "mcp_call \<Rightarrow> http_method \<Rightarrow> bool" where
  "permits (AddClient a) m \<longleftrightarrow> m = MPost \<and> aa_Confirm a"
| "permits (EditClient a) m \<longleftrightarrow> m = MPatch \<and> ea_Confirm a"
| "permits (EnableClient n c) m \<longleftrightarrow> m = MPatch \<and> c"
| "permits (DisableClient n c) m \<longleftrightarrow> m = MPatch \<and> c"
| "permits (DeleteClientTool n t) m \<longleftrightarrow> m = MDelete"
| "permits c m \<longleftrightarrow> m = MGet"

lemma client_do_sent:
  "client_do (logged env) meth path query body (w, l) = (r, (w', l')) \<Longrightarrow>
   l' = l \<or> (\<exists>q. l' = l @ [q] \<and> mq_Method q = meth \<and> mq_Body q = body \<and>
     (query = [] \<longrightarrow> mq_URL q = ''http://'' @ base_addr env @ path))"
  by (auto simp: client_do_def logged_def Let_def split: if_splits prod.splits sum.splits)

definition at_most_one :: "http_method \<Rightarrow> mcp_request list \<Rightarrow> bool" where
  "at_most_one m l \<longleftrightarrow> l = [] \<or> (\<exists>q. l = [q] \<and> mq_Method q = m)"

lemma client_do_one: "client_do (logged env) meth path query body (w, []) = (r, (w', l')) \<Longrightarrow> at_most_one meth l'"
  using client_do_sent [of env meth path query body w "[]" r w' l'] by (auto simp: at_most_one_def)

lemma proxied_do:
  "proxied (client_do env m p q b) (ts, w) = (r, ts', w') \<Longrightarrow>
   ts' = ts \<and> (\<exists>r'. client_do env m p q b w = (r', w'))"
  by (auto simp: proxied_def split: prod.splits sum.splits)

lemma proxied_one:
  "proxied (client_do (logged env) m p q b) (ts, (w, [])) = (r, ts', (w', l)) \<Longrightarrow> ts' = ts \<and> at_most_one m l"
  using proxied_do client_do_one by fastforce

lemmas client_verbs = client_Get_def client_GetMetrics_def client_Post_def client_Patch_def client_Delete_def
lemmas tool_verbs = tool_get_def tool_post_def tool_patch_def tool_del_def

lemma fail_sent: "tool_fail e (ts, (w, [])) = (r, ts', (w', l)) \<Longrightarrow> ts' = ts \<and> at_most_one m l"
  by (simp add: tool_fail_def at_most_one_def)

lemma fetch_one: "fetchClientRow (logged env) name (w, []) = (r, (w', l)) \<Longrightarrow> at_most_one MGet l"
  unfolding fetchClientRow_def client_verbs
  by (auto dest: client_do_one split: prod.splits sum.splits option.splits)

lemma Issue_log: "Issue (logged env) now name (ts, (w, l)) = (r, ts', (w', l')) \<Longrightarrow> l' = l"
  by (auto simp: Issue_def logged_def Let_def split: prod.splits sum.splits)

lemma preview_one:
  assumes "preview_delete_client (logged env) now name (ts, (w, [])) = (r, ts', (w', l))"
  shows "at_most_one MGet l"
proof (cases "name = []")
  case True
  with assms show ?thesis by (simp add: preview_delete_client_def at_most_one_def)
next
  case False
  obtain r1 w1 l1 where f: "fetchClientRow (logged env) name (w, []) = (r1, (w1, l1))" by (metis prod.exhaust)
  from fetch_one [OF f] have "at_most_one MGet l1" .
  with assms False f show ?thesis
    by (auto simp: preview_delete_client_def split: sum.splits option.splits prod.splits dest: Issue_log)
qed

lemma delete_one:
  assumes "delete_client (logged env) now name tok (ts, (w, [])) = (r, ts', (w', l))"
  shows "at_most_one MDelete l"
  using assms
  by (auto simp: delete_client_def tool_verbs client_verbs at_most_one_def split: if_splits prod.splits bool.splits
      dest!: proxied_one)

lemma host_metrics_one:
  assumes "host_metrics_tool (logged env) (ts, (w, [])) = (r, ts', (w', l))"
  shows "ts' = ts \<and> at_most_one MGet l"
proof -
  obtain r1 w1 l1 where f: "client_do (logged env) MGet ''/metrics'' [] None (w, []) = (r1, (w1, l1))" by (metis prod.exhaust)
  from client_do_one [OF f] have "at_most_one MGet l1" .
  with assms f show ?thesis by (auto simp: host_metrics_tool_def client_verbs split: sum.splits)
qed

lemma tool_one:
  "tool_get (logged env) p q (ts, (w, [])) = (r, ts', (w', l)) \<Longrightarrow> ts' = ts \<and> at_most_one MGet l"
  "tool_post (logged env) p b (ts, (w, [])) = (r, ts', (w', l)) \<Longrightarrow> ts' = ts \<and> at_most_one MPost l"
  "tool_patch (logged env) p b (ts, (w, [])) = (r, ts', (w', l)) \<Longrightarrow> ts' = ts \<and> at_most_one MPatch l"
  "host_metrics_tool (logged env) (ts, (w, [])) = (r, ts', (w', l)) \<Longrightarrow> ts' = ts \<and> at_most_one MGet l"
  unfolding tool_verbs client_verbs by (rule proxied_one host_metrics_one; assumption)+

definition only :: "(http_method \<Rightarrow> bool) \<Rightarrow> mcp_request list \<Rightarrow> bool" where
  "only P l \<longleftrightarrow> l = [] \<or> (\<exists>q. l = [q] \<and> P (mq_Method q))"

lemma onlyI: "at_most_one m l \<Longrightarrow> P m \<Longrightarrow> only P l"
  by (auto simp: at_most_one_def only_def)

lemma only_fail: "tool_fail e (ts, (w, [])) = (r, ts', (w', l)) \<Longrightarrow> ts' = ts \<and> only P l"
  by (simp add: tool_fail_def only_def)

lemma add_one:
  "add_client (logged env) a (ts, (w, [])) = (r, ts', (w', l)) \<Longrightarrow> ts' = ts \<and> only (permits (AddClient a)) l"
  unfolding add_client_def requireConfirm_def
  by (auto split: if_splits dest: only_fail tool_one(2) intro: onlyI)

lemma edit_one:
  "edit_client_tool (logged env) a (ts, (w, [])) = (r, ts', (w', l)) \<Longrightarrow> ts' = ts \<and> only (permits (EditClient a)) l"
  unfolding edit_client_tool_def requireConfirm_def
  by (auto split: if_splits dest: only_fail tool_one(3) intro: onlyI)

lemma toggle_one:
  "toggleClient (logged env) n c b (ts, (w, [])) = (r, ts', (w', l)) \<Longrightarrow> ts' = ts \<and> only (\<lambda>m. m = MPatch \<and> c) l"
  unfolding toggleClient_def requireConfirm_def
  by (auto split: if_splits dest: only_fail tool_one(3) intro: onlyI)

fun reads_only :: "mcp_call \<Rightarrow> bool" where
  "reads_only (AddClient a) = False"
| "reads_only (EditClient a) = False"
| "reads_only (EnableClient n c) = False"
| "reads_only (DisableClient n c) = False"
| "reads_only (PreviewDeleteClient n) = False"
| "reads_only (DeleteClientTool n t) = False"
| "reads_only c = True"

lemma read_one:
  assumes "reads_only c" and "mcp_step (logged env) now c (ts, (w, [])) = (r, ts', (w', l))"
  shows "ts' = ts \<and> only (permits c) l"
  using assms
  by (cases c) (auto simp: tool_fail_def only_def at_most_one_def dest!: tool_one(1,4) split: if_splits)

lemma step_one:
  assumes "mcp_step (logged env) now c (ts, (w, [])) = (r, ts', (w', l))"
  shows "only (permits c) l"
proof (cases "reads_only c")
  case True
  from read_one [OF this assms] show ?thesis ..
next
  case False
  note * = assms
  show ?thesis
  proof (cases c)
    case (AddClient a)
    with * add_one show ?thesis by (metis mcp_step.simps(15))
  next
    case (EditClient a)
    with * edit_one show ?thesis by (metis mcp_step.simps(16))
  next
    case (EnableClient n b)
    with * have "only (\<lambda>m. m = MPatch \<and> b) l" using toggle_one by (metis mcp_step.simps(17))
    with EnableClient show ?thesis by (simp add: only_def)
  next
    case (DisableClient n b)
    with * have "only (\<lambda>m. m = MPatch \<and> b) l" using toggle_one by (metis mcp_step.simps(18))
    with DisableClient show ?thesis by (simp add: only_def)
  next
    case (PreviewDeleteClient n)
    with * have "at_most_one MGet l" using preview_one by (metis mcp_step.simps(19))
    with PreviewDeleteClient show ?thesis by (auto intro: onlyI)
  next
    case (DeleteClientTool n t)
    with * have "at_most_one MDelete l" using delete_one by (metis mcp_step.simps(20))
    with DeleteClientTool show ?thesis by (auto intro: onlyI)
  qed (use False in simp_all)
qed

subsection \<open>Tokens\<close>

definition issued :: "mcp_event \<Rightarrow> string \<Rightarrow> string \<Rightarrow> bool" where
  "issued ev name tok =
     (ev_call ev = PreviewDeleteClient name \<and>
      (case ev_result ev of Inr (Preview n k s e h t) \<Rightarrow> n = name \<and> t = tok | _ \<Rightarrow> False))"

definition redeemed :: "mcp_event \<Rightarrow> string \<Rightarrow> bool" where
  "redeemed ev name =
     (case ev_call ev of DeleteClientTool n t \<Rightarrow> n = name \<and> ev_sent ev \<noteq> [] | _ \<Rightarrow> False)"

definition touches :: "mcp_event \<Rightarrow> string \<Rightarrow> bool" where
  "touches ev name \<longleftrightarrow> (\<exists>tok. issued ev name tok) \<or> redeemed ev name"

lemma preview_tokens:
  assumes "preview_delete_client env now name (ts, w) = (r, ts', w')"
  shows "ts' = ts \<and> (\<forall>n k s e h t. r \<noteq> Inr (Preview n k s e h t)) \<or>
    (\<exists>k s e h t. r = Inr (Preview name k s e h t) \<and> ts' = ts(name \<mapsto> \<lparr>te_token = t, te_expires = now + tokenTTL\<rparr>))"
  using assms
  by (auto simp: preview_delete_client_def Issue_def Let_def split: if_splits prod.splits sum.splits option.splits)

lemma del_sent:
  assumes "tool_del (logged env) p (ts, (w, [])) = (r, ts', (w', l))"
  shows "ts' = ts \<and> (l \<noteq> [] \<longrightarrow> (\<exists>q. l = [q] \<and> mq_Method q = MDelete \<and> mq_URL q = ''http://'' @ base_addr env @ p))"
proof -
  obtain x where "client_do (logged env) MDelete p [] None (w, []) = (x, (w', l))" "ts' = ts"
    using assms proxied_do unfolding tool_verbs client_verbs by metis
  then show ?thesis using client_do_sent [of env MDelete p "[]" None w "[]" x w' l] by auto
qed

lemma delete_tokens:
  assumes "delete_client (logged env) now name tok (ts, (w, [])) = (r, ts', (w', l))"
  shows "(ts' = ts \<or> ts' = ts(name := None)) \<and>
    (l \<noteq> [] \<longrightarrow> ts' = ts(name := None) \<and> (\<exists>e. ts name = Some e \<and> te_token e = tok \<and> now \<le> te_expires e) \<and>
      (\<exists>q. l = [q] \<and> mq_Method q = MDelete \<and> mq_URL q = ''http://'' @ base_addr env @ client_path name))"
proof (cases "name \<noteq> [] \<and> tok \<noteq> [] \<and> fst (Verify now name tok ts)")
  case True
  then have v: "Verify now name tok ts = (True, ts(name := None))" "\<exists>e. ts name = Some e \<and> te_token e = tok \<and> now \<le> te_expires e"
    by (auto simp: Verify_def split: option.splits if_splits)
  with assms True have "tool_del (logged env) (client_path name) (ts(name := None), (w, [])) = (r, ts', (w', l))"
    by (simp add: delete_client_def)
  from del_sent [OF this] v show ?thesis by blast
next
  case False
  then show ?thesis using assms
    by (auto simp: delete_client_def Verify_def split: option.splits if_splits)
qed

text \<open>
  What a token of the store stands for: an earlier preview that issued it, and no preview or
  deletion of that name since.
\<close>

definition backed :: "mcp_event list \<Rightarrow> string \<Rightarrow> string \<Rightarrow> time \<Rightarrow> bool" where
  "backed evs name tok limit \<longleftrightarrow>
     (\<exists>j < length evs. issued (evs ! j) name tok \<and> limit = ev_at (evs ! j) + tokenTTL \<and>
        (\<forall>i. j < i \<and> i < length evs \<longrightarrow> \<not> touches (evs ! i) name))"

definition store_backed :: "mcp_event list \<Rightarrow> token_store \<Rightarrow> bool" where
  "store_backed evs ts \<longleftrightarrow> (\<forall>name e. ts name = Some e \<longrightarrow> backed evs name (te_token e) (te_expires e))"

lemma backed_snoc_issued:
  "issued ev name tok \<Longrightarrow> backed (evs @ [ev]) name tok (ev_at ev + tokenTTL)"
  by (auto simp: backed_def intro!: exI [of _ "length evs"])

lemma backed_snoc: "backed evs name tok t \<Longrightarrow> \<not> touches ev name \<Longrightarrow> backed (evs @ [ev]) name tok t"
  unfolding backed_def
  by (elim exE, rule_tac x = j in exI) (auto simp: nth_append less_Suc_eq)

lemma step_tokens:
  assumes "mcp_step (logged env) now c (ts, (w, [])) = (r, ts', (w', l))"
  shows "(\<forall>name. \<not> touches \<lparr>ev_at = now, ev_call = c, ev_result = r, ev_sent = l\<rparr> name) \<and> ts' = ts \<or>
    (\<exists>name tok. issued \<lparr>ev_at = now, ev_call = c, ev_result = r, ev_sent = l\<rparr> name tok \<and>
       (\<forall>n. n \<noteq> name \<longrightarrow> \<not> touches \<lparr>ev_at = now, ev_call = c, ev_result = r, ev_sent = l\<rparr> n) \<and>
       ts' = ts(name \<mapsto> \<lparr>te_token = tok, te_expires = now + tokenTTL\<rparr>)) \<or>
    (\<exists>name. (\<forall>n. n \<noteq> name \<longrightarrow> \<not> touches \<lparr>ev_at = now, ev_call = c, ev_result = r, ev_sent = l\<rparr> n) \<and>
       ts' = ts(name := None))"
    (is "?A \<or> ?B \<or> ?C")
proof -
  let ?ev = "\<lparr>ev_at = now, ev_call = c, ev_result = r, ev_sent = l\<rparr>"
  show ?thesis
  proof (cases c)
    case (PreviewDeleteClient name)
    with assms have "preview_delete_client (logged env) now name (ts, (w, [])) = (r, ts', (w', l))" by simp
    from preview_tokens [OF this] show ?thesis
    proof (elim disjE conjE exE)
      assume "ts' = ts" "\<forall>n k s e h t. r \<noteq> Inr (Preview n k s e h t)"
      with PreviewDeleteClient have ?A by (auto simp: touches_def issued_def redeemed_def split: sum.splits mcp_result.splits)
      then show ?thesis ..
    next
      fix k s e h t
      assume "r = Inr (Preview name k s e h t)" "ts' = ts(name \<mapsto> \<lparr>te_token = t, te_expires = now + tokenTTL\<rparr>)"
      with PreviewDeleteClient have ?B by (intro exI [of _ name] exI [of _ t]) (auto simp: touches_def issued_def redeemed_def)
      then show ?thesis by blast
    qed
  next
    case (DeleteClientTool name tok)
    with assms have "delete_client (logged env) now name tok (ts, (w, [])) = (r, ts', (w', l))" by simp
    from delete_tokens [OF this] have d: "ts' = ts \<or> ts' = ts(name := None)" "l \<noteq> [] \<Longrightarrow> ts' = ts(name := None)" by auto
    have t: "\<forall>n. n \<noteq> name \<or> l = [] \<longrightarrow> \<not> touches ?ev n"
      using DeleteClientTool by (auto simp: touches_def issued_def redeemed_def)
    show ?thesis
    proof (cases "ts' = ts \<and> l = []")
      case True
      with t show ?thesis by blast
    next
      case False
      with d have "ts' = ts(name := None)" by blast
      with t show ?thesis by blast
    qed
  next
    case (AddClient a)
    with assms add_one have "ts' = ts" by (metis mcp_step.simps(15))
    with AddClient show ?thesis by (simp add: touches_def issued_def redeemed_def)
  next
    case (EditClient a)
    with assms edit_one have "ts' = ts" by (metis mcp_step.simps(16))
    with EditClient show ?thesis by (simp add: touches_def issued_def redeemed_def)
  next
    case (EnableClient n b)
    with assms toggle_one have "ts' = ts" by (metis mcp_step.simps(17))
    with EnableClient show ?thesis by (simp add: touches_def issued_def redeemed_def)
  next
    case (DisableClient n b)
    with assms toggle_one have "ts' = ts" by (metis mcp_step.simps(18))
    with DisableClient show ?thesis by (simp add: touches_def issued_def redeemed_def)
  qed (use read_one [OF _ assms] in \<open>simp_all add: touches_def issued_def redeemed_def\<close>)
qed

lemma step_backed:
  assumes "mcp_step (logged env) now c (ts, (w, [])) = (r, ts', (w', l))" and "store_backed evs ts"
  shows "store_backed (evs @ [\<lparr>ev_at = now, ev_call = c, ev_result = r, ev_sent = l\<rparr>]) ts'"
  using step_tokens [OF assms(1)]
proof (elim disjE conjE exE)
  assume "\<forall>name. \<not> touches \<lparr>ev_at = now, ev_call = c, ev_result = r, ev_sent = l\<rparr> name" "ts' = ts"
  with assms(2) show ?thesis by (simp add: store_backed_def backed_snoc)
next
  fix name tok
  assume "issued \<lparr>ev_at = now, ev_call = c, ev_result = r, ev_sent = l\<rparr> name tok"
    "\<forall>n. n \<noteq> name \<longrightarrow> \<not> touches \<lparr>ev_at = now, ev_call = c, ev_result = r, ev_sent = l\<rparr> n"
    "ts' = ts(name \<mapsto> \<lparr>te_token = tok, te_expires = now + tokenTTL\<rparr>)"
  with assms(2) backed_snoc_issued show ?thesis
    by (fastforce simp: store_backed_def backed_snoc split: if_splits)
next
  fix name
  assume "\<forall>n. n \<noteq> name \<longrightarrow> \<not> touches \<lparr>ev_at = now, ev_call = c, ev_result = r, ev_sent = l\<rparr> n" "ts' = ts(name := None)"
  with assms(2) show ?thesis by (simp add: store_backed_def backed_snoc)
qed

lemma only_member: "only P l \<Longrightarrow> q \<in> set l \<Longrightarrow> P (mq_Method q)"
  by (auto simp: only_def)

lemma delete_call:
  assumes "mcp_step (logged env) now c (ts, (w, [])) = (r, ts', (w', l))" and "q \<in> set l" and "mq_Method q = MDelete"
  shows "\<exists>name tok e. c = DeleteClientTool name tok \<and> mq_URL q = ''http://'' @ base_addr env @ client_path name \<and>
    ts name = Some e \<and> te_token e = tok \<and> now \<le> te_expires e"
proof -
  have "permits c MDelete" using only_member [OF step_one [OF assms(1)] assms(2)] assms(3) by simp
  then obtain name tok where c: "c = DeleteClientTool name tok" by (cases c) auto
  with assms(1) have "delete_client (logged env) now name tok (ts, (w, [])) = (r, ts', (w', l))" by simp
  from delete_tokens [OF this] assms(2) c show ?thesis by auto
qed

lemma run_deletes:
  assumes "store_backed pre ts" and "k < length (mcp_run env cs (ts, w))"
    and "q \<in> set (ev_sent (mcp_run env cs (ts, w) ! k))" and "mq_Method q = MDelete"
  shows "\<exists>name tok limit. ev_call (mcp_run env cs (ts, w) ! k) = DeleteClientTool name tok \<and>
    mq_URL q = ''http://'' @ base_addr env @ client_path name \<and> ev_at (mcp_run env cs (ts, w) ! k) \<le> limit \<and>
    backed (pre @ take k (mcp_run env cs (ts, w))) name tok limit"
  using assms
proof (induction cs arbitrary: pre ts w k)
  case (Cons tc cs)
  obtain now c where tc: "tc = (now, c)" by fastforce
  obtain r ts' w' l where st: "mcp_step (logged env) now c (ts, (w, [])) = (r, ts', (w', l))" by (metis prod_cases4)
  let ?ev = "\<lparr>ev_at = now, ev_call = c, ev_result = r, ev_sent = l\<rparr>"
  have run: "mcp_run env (tc # cs) (ts, w) = ?ev # mcp_run env cs (ts', w')" by (simp add: tc st)
  show ?case
  proof (cases k)
    case 0
    with Cons.prems(3) run have "q \<in> set l" by simp
    from delete_call [OF st this Cons.prems(4)] Cons.prems(1) 0 run show ?thesis by (fastforce simp: store_backed_def)
  next
    case (Suc k')
    have "k' < length (mcp_run env cs (ts', w'))" "q \<in> set (ev_sent (mcp_run env cs (ts', w') ! k'))"
      using Cons.prems(2,3) Suc run by simp_all
    from Cons.IH [OF step_backed [OF st Cons.prems(1)] this Cons.prems(4)] Suc run show ?thesis by simp
  qed
qed simp

text \<open>
  C24. Whatever the environment and the order of the calls, a call sends at most one request, a
  request that changes anything is a POST or PATCH of a call made with its confirmation, or a
  DELETE of the delete tool; every other call only reads.
\<close>

theorem mutations_are_confirmed:
  "list_all (\<lambda>ev. length (ev_sent ev) \<le> 1 \<and> list_all (\<lambda>q. permits (ev_call ev) (mq_Method q)) (ev_sent ev))
     (mcp_run env cs st)"
proof (induction cs arbitrary: st)
  case (Cons tc cs)
  obtain now c where tc: "tc = (now, c)" by fastforce
  obtain ts w where st: "st = (ts, w)" by fastforce
  obtain r ts' w' l where s: "mcp_step (logged env) now c (ts, (w, [])) = (r, ts', (w', l))" by (metis prod_cases4)
  from step_one [OF s] Cons show ?case by (auto simp: tc st s only_def)
qed simp

text \<open>
  C23. A DELETE reaches the dashboard only from a call with a token that an earlier preview of the
  same name issued at most five minutes before, with neither a newer preview nor a deletion of that
  name in between; so a token deletes once, and the address it deletes at is that of the name.
\<close>

theorem delete_needs_fresh_preview:
  assumes "k < length (mcp_run env cs (NewStore, w))" and "q \<in> set (ev_sent (mcp_run env cs (NewStore, w) ! k))"
    and "mq_Method q = MDelete"
  shows "\<exists>name tok j. ev_call (mcp_run env cs (NewStore, w) ! k) = DeleteClientTool name tok \<and>
    mq_URL q = ''http://'' @ base_addr env @ ''/api/clients/'' @ PathEscape name \<and>
    unescape EncOther (PathEscape name) = Some name \<and> CHR ''/'' \<notin> set (PathEscape name) \<and>
    j < k \<and> issued (mcp_run env cs (NewStore, w) ! j) name tok \<and>
    ev_at (mcp_run env cs (NewStore, w) ! k) \<le> ev_at (mcp_run env cs (NewStore, w) ! j) + 5 * minute \<and>
    (\<forall>i. j < i \<and> i < k \<longrightarrow> \<not> touches (mcp_run env cs (NewStore, w) ! i) name)"
proof -
  have "store_backed [] NewStore" by (simp add: store_backed_def NewStore_def)
  from run_deletes [OF this assms] obtain name tok limit where
    r: "ev_call (mcp_run env cs (NewStore, w) ! k) = DeleteClientTool name tok"
      "mq_URL q = ''http://'' @ base_addr env @ client_path name" "ev_at (mcp_run env cs (NewStore, w) ! k) \<le> limit"
      "backed (take k (mcp_run env cs (NewStore, w))) name tok limit" by auto
  from r(4) obtain j where j: "j < k" "issued (mcp_run env cs (NewStore, w) ! j) name tok"
    "limit = ev_at (mcp_run env cs (NewStore, w) ! j) + tokenTTL"
    "\<forall>i. j < i \<and> i < k \<longrightarrow> \<not> touches (mcp_run env cs (NewStore, w) ! i) name"
    using assms(1) by (auto simp: backed_def)
  with r show ?thesis
    by (intro exI [of _ name] exI [of _ tok] exI [of _ j])
      (simp add: tokenTTL_def client_path_def PathEscape_roundtrip PathEscape_segment)
qed

text \<open>A dashboard with one client, and a session that previews and deletes it.\<close>

definition one_client :: "unit mcp_env" where
  "one_client =
     \<lparr>base_addr = ''172.16.15.1:8080'',
      transport = (\<lambda>q w. (Inr \<lparr>mr_Status = 200,
                             mr_Body = Inr ([], Some (JArr [JObj [(''name'', JStr ''bob'')]]))\<rparr>, w)),
      rand_read = (\<lambda>w. (Inr [1, 2, 3], w))\<rparr>"

definition bob_session :: "(time \<times> mcp_call) list" where
  "bob_session = [(0, PreviewDeleteClient ''bob''), (minute, DeleteClientTool ''bob'' ''010203'')]"

lemma bob_deleted:
  "map (\<lambda>ev. (ev_call ev, map (\<lambda>q. (mq_Method q, mq_URL q)) (ev_sent ev))) (mcp_run one_client bob_session (NewStore, ())) =
    [(PreviewDeleteClient ''bob'', [(MGet, ''http://172.16.15.1:8080/api/clients'')]),
     (DeleteClientTool ''bob'' ''010203'', [(MDelete, ''http://172.16.15.1:8080/api/clients/bob'')])]"
  by code_simp

theorem delete_needs_fresh_preview_witness:
  "\<exists>j < 1. issued (mcp_run one_client bob_session (NewStore, ()) ! j) ''bob'' ''010203''"
proof -
  let ?r = "mcp_run one_client bob_session (NewStore, ())"
  have len: "1 < length ?r" using arg_cong [OF bob_deleted, of length] by simp
  have "ev_call (?r ! 1) = DeleteClientTool ''bob'' ''010203''"
    "map (\<lambda>q. (mq_Method q, mq_URL q)) (ev_sent (?r ! 1)) = [(MDelete, ''http://172.16.15.1:8080/api/clients/bob'')]"
    using arg_cong [OF bob_deleted, of "\<lambda>l. l ! 1"] len by simp_all
  then obtain q where "q \<in> set (ev_sent (?r ! 1))" "mq_Method q = MDelete" by auto
  from delete_needs_fresh_preview [OF len this] \<open>ev_call (?r ! 1) = _\<close> show ?thesis by auto
qed

end
