(* ===== verification/ServerFmt.thy ===== *)
theory ServerFmt
  imports History
begin

text \<open>
  The formatters the templates use (\<^verbatim>\<open>internal/server/server.go\<close>). The clock is an
  argument; sizes and durations go through floating point as in the code.
\<close>

definition whole :: "duration \<Rightarrow> duration \<Rightarrow> int" where
  "whole unit d = \<lfloor>in_units unit d\<rfloor>"

text \<open>The two leading units of a duration that is not negative.\<close>

definition two_units :: "duration \<Rightarrow> string" where
  "two_units d =
     (let days = whole hour d div 24; hours = whole hour d mod 24; minutes = whole minute d mod 60;
          seconds = whole second d mod 60
      in if days > 0 then itoa days @ ''d '' @ itoa hours @ ''h''
         else if hours > 0 then itoa hours @ ''h '' @ itoa minutes @ ''m''
         else if minutes > 0 then itoa minutes @ ''m '' @ itoa seconds @ ''s''
         else itoa seconds @ ''s'')"

definition humanUptime :: "time \<Rightarrow> time \<Rightarrow> string" where
  "humanUptime now t =
     (if is_zero t then ''-''
      else (let d = time_sub now t in two_units (if d < 0 then 0 else d)))"

definition humanDuration :: "duration \<Rightarrow> string" where
  "humanDuration d = (if d \<le> 0 then ''-'' else two_units d)"

definition humanAgo :: "time \<Rightarrow> time \<Rightarrow> string" where
  "humanAgo now t =
     (if is_zero t then ''never''
      else (let d = time_sub now t
            in if d < 0 then ''just now''
               else (let seconds = whole second d; minutes = seconds div 60; hours = minutes div 60; days = hours div 24
                     in if days > 0 then itoa days @ ''d ago''
                        else if hours > 0 then itoa hours @ ''h ago''
                        else if minutes > 0 then itoa minutes @ ''m ago''
                        else itoa seconds @ ''s ago'')))"

fun scale_unit :: "rat \<Rightarrow> string list \<Rightarrow> string \<Rightarrow> string" where
  "scale_unit f [] beyond = fmt_fixed 1 f @ '' '' @ beyond"
| "scale_unit f (u # us) beyond =
     (if f < 1024 then fmt_fixed 1 f @ '' '' @ u else scale_unit (fl (f / 1024)) us beyond)"

definition humanBytes :: "int \<Rightarrow> string" where
  "humanBytes n =
     (if n < 1024 then itoa n @ '' B''
      else scale_unit (fl (fl (of_int n) / 1024)) [''KB'', ''MB'', ''GB'', ''TB''] ''PB'')"

definition humanBytesPerSec :: "int \<Rightarrow> string" where
  "humanBytesPerSec n =
     (if n < 1024 then itoa n @ '' B/s''
      else scale_unit (fl (fl (of_int n) / 1024)) [''KB/s'', ''MB/s'', ''GB/s''] ''TB/s'')"

definition humanBytesKB :: "int \<Rightarrow> string" where
  "humanBytesKB n = humanBytes (i64 (n * 1024))"

lemma humanBytes_negative: "humanBytes (- 5) = ''-5 B''"
  by code_simp

end
