(* ===== verification/ClientRows.thy ===== *)
theory ClientRows
  imports ServerFmt WgShow
begin

text \<open>
  The joined client list (\<^verbatim>\<open>internal/server/clientrows.go\<close>) and the points of the map
  (\<^verbatim>\<open>internal/server/handlers_geo.go\<close>). The location database is a parameter; the join is
  specified as the outer join of the clients and the live peers.
\<close>

definition onlineThreshold :: duration where "onlineThreshold = 3 * minute"

record geo =
  g_Country :: string
  g_City :: string

record geo_point =
  gp_Lat :: rat
  gp_Lon :: rat
  gp_City :: string
  gp_Country :: string
  gp_OK :: bool

record geo_resolver =
  Lookup :: "ip \<Rightarrow> string \<times> string"
  LookupGeo :: "ip \<Rightarrow> geo_point"

record row_view =
  rv_Name :: string
  rv_Address :: string
  rv_PublicKey :: string
  rv_Status :: string
  rv_LatestHandshake :: time
  rv_TransferRx :: int
  rv_TransferTx :: int
  rv_Endpoint :: string
  rv_Geo :: geo
  rv_Note :: string
  rv_Enabled :: bool

definition no_geo :: geo where "no_geo = \<lparr>g_Country = [], g_City = []\<rparr>"

text \<open>The host of \<^verbatim>\<open>net.SplitHostPort\<close>.\<close>

definition index_of :: "char \<Rightarrow> string \<Rightarrow> nat option" where
  "index_of c s = (if c \<in> set s then Some (length (takeWhile (\<lambda>x. x \<noteq> c) s)) else None)"

definition last_index_of :: "char \<Rightarrow> string \<Rightarrow> nat option" where
  "last_index_of c s = (if c \<in> set s then Some (length s - 1 - length (takeWhile (\<lambda>x. x \<noteq> c) (rev s))) else None)"

definition split_host :: "string \<Rightarrow> string option" where
  "split_host hp =
     (case last_index_of CHR '':'' hp of
        None \<Rightarrow> None
      | Some i \<Rightarrow>
          if has_prefix ''['' hp then
            (case index_of CHR '']'' hp of
               None \<Rightarrow> None
             | Some e \<Rightarrow>
                 if e + 1 = i \<and> e + 1 \<noteq> length hp \<and> CHR ''['' \<notin> set (drop 1 hp) \<and> CHR '']'' \<notin> set (drop (e + 1) hp)
                 then Some (drop 1 (take e hp)) else None)
          else (let host = take i hp
                in if CHR '':'' \<in> set host \<or> CHR ''['' \<in> set hp \<or> CHR '']'' \<in> set hp then None else Some host))"

definition endpoint_ip :: "string \<Rightarrow> ip option" where
  "endpoint_ip endpoint =
     (if endpoint = [] then None
      else (case split_host endpoint of
              None \<Rightarrow> None
            | Some host \<Rightarrow> (let a = parse_ip host in if a = [] then None else Some a)))"

definition resolveGeo :: "geo_resolver option \<Rightarrow> string \<Rightarrow> geo" where
  "resolveGeo geo endpoint =
     (case (geo, endpoint_ip endpoint) of
        (Some r, Some a) \<Rightarrow> (case Lookup r a of (country, city) \<Rightarrow> \<lparr>g_Country = country, g_City = city\<rparr>)
      | _ \<Rightarrow> no_geo)"

definition is_live :: "time \<Rightarrow> wg_peer \<Rightarrow> bool" where
  "is_live now p \<longleftrightarrow> \<not> is_zero (wp_LatestHandshake p) \<and> time_sub now (wp_LatestHandshake p) \<le> onlineThreshold"

definition client_row_view :: "time \<Rightarrow> geo_resolver option \<Rightarrow> (string \<rightharpoonup> wg_peer) \<Rightarrow> client \<Rightarrow> row_view" where
  "client_row_view now geo peerByKey c =
     (let row = \<lparr>rv_Name = Name c, rv_Address = Address c, rv_PublicKey = PublicKey c, rv_Status = ''pending'',
                 rv_LatestHandshake = zero_time, rv_TransferRx = 0, rv_TransferTx = 0, rv_Endpoint = [], rv_Geo = no_geo,
                 rv_Note = (case Note c of None \<Rightarrow> [] | Some n \<Rightarrow> n), rv_Enabled = Enabled c\<rparr>
      in case peerByKey (PublicKey c) of
           None \<Rightarrow> row
         | Some p \<Rightarrow>
             row\<lparr>rv_LatestHandshake := wp_LatestHandshake p, rv_TransferRx := wp_TransferRx p,
                 rv_TransferTx := wp_TransferTx p, rv_Endpoint := wp_Endpoint p, rv_Geo := resolveGeo geo (wp_Endpoint p),
                 rv_Status := (if is_live now p then ''online'' else ''offline'')\<rparr>)"

definition unknown_row :: "geo_resolver option \<Rightarrow> wg_peer \<Rightarrow> row_view" where
  "unknown_row geo p =
     \<lparr>rv_Name = [], rv_Address = [], rv_PublicKey = wp_PublicKey p, rv_Status = ''unknown'',
      rv_LatestHandshake = wp_LatestHandshake p, rv_TransferRx = wp_TransferRx p, rv_TransferTx = wp_TransferTx p,
      rv_Endpoint = wp_Endpoint p, rv_Geo = resolveGeo geo (wp_Endpoint p), rv_Note = [], rv_Enabled = False\<rparr>"

definition buildClientRows :: "client list \<Rightarrow> wg_peer list \<Rightarrow> time \<Rightarrow> geo_resolver option \<Rightarrow> row_view list" where
  "buildClientRows dbClients peers now geo =
     (let peerByKey = index_by wp_PublicKey peers; seen = PublicKey ` set dbClients
      in map (client_row_view now geo peerByKey) dbClients @
         map (unknown_row geo) (filter (\<lambda>p. wp_PublicKey p \<notin> seen) peers))"

subsection \<open>The map\<close>

record geo_peer =
  gr_Name :: string
  gr_Point :: geo_point
  gr_Online :: bool
  gr_LastSeen :: string

definition not_ok_point :: geo_point where
  "not_ok_point = \<lparr>gp_Lat = 0, gp_Lon = 0, gp_City = [], gp_Country = [], gp_OK = False\<rparr>"

definition resolveGeoPoint :: "geo_resolver option \<Rightarrow> string \<Rightarrow> geo_point" where
  "resolveGeoPoint geo endpoint =
     (case (geo, endpoint_ip endpoint) of
        (Some r, Some a) \<Rightarrow> LookupGeo r a
      | _ \<Rightarrow> not_ok_point)"

fun geo_loop :: "time \<Rightarrow> geo_resolver option \<Rightarrow> (string \<rightharpoonup> wg_peer) \<Rightarrow> (string \<times> string) list \<Rightarrow> geo_peer list \<times> int" where
  "geo_loop now geo peerByKey [] = ([], 0)"
| "geo_loop now geo peerByKey ((name, key) # cs) =
     (case geo_loop now geo peerByKey cs of
        (rows, n) \<Rightarrow>
          (case peerByKey key of
             None \<Rightarrow> (rows, n + 1)
           | Some p \<Rightarrow>
               (let gp = resolveGeoPoint geo (wp_Endpoint p)
                in if \<not> gp_OK gp then (rows, n + 1)
                   else (\<lparr>gr_Name = name, gr_Point = gp, gr_Online = is_live now p,
                          gr_LastSeen = humanAgo now (wp_LatestHandshake p)\<rparr> # rows, n))))"

subsection \<open>The outer join\<close>

lemma rv_client [simp]:
  "rv_PublicKey (client_row_view now geo m c) = PublicKey c" "rv_Name (client_row_view now geo m c) = Name c"
  by (simp_all add: client_row_view_def Let_def split: option.splits)

lemma rv_unknown [simp]: "rv_PublicKey (unknown_row geo p) = wp_PublicKey p"
  by (simp add: unknown_row_def)

lemma index_by_find: "distinct (map k xs) \<Longrightarrow> index_by k xs x = find (\<lambda>c. k c = x) xs"
proof (cases "index_by k xs x")
  case None
  then have "find (\<lambda>c. k c = x) xs = None" by (auto simp: index_by_None_iff find_None_iff)
  with None show ?thesis by simp
next
  case (Some c)
  moreover assume "distinct (map k xs)"
  ultimately show ?thesis using index_by_Some [OF Some] find_distinct [of k xs c] by auto
qed


definition bob :: client where
  "bob = \<lparr>ID = 1, Name = ''bob'', PublicKey = ''K'', Address = ''172.16.15.2/32'', Enabled = True, Note = None,
          CreatedAt = 0, UpdatedAt = 0\<rparr>"

definition live_bob :: wg_peer where
  "live_bob = \<lparr>wp_PublicKey = ''K'', wp_Endpoint = [], wp_AllowedIPs = [], wp_LatestHandshake = minute,
               wp_TransferRx = 0, wp_TransferTx = 0, wp_PersistentKeepalive = 0\<rparr>"


end
