(* ===== verification/ClientsApi.thy ===== *)
theory ClientsApi
  imports ClientRows Service History
begin

text \<open>
  The client endpoints (\<^verbatim>\<open>internal/server/handlers_clients.go\<close>,
  \<^verbatim>\<open>handlers_clients_admin.go\<close> and the clients tab of \<^verbatim>\<open>handlers_partial_tabs.go\<close>). A
  handler takes the request and the service and gives the response and the service after it. The
  body of a response is the value that is serialised or given to the template; the templates
  themselves and their failures are not modelled. One reading of the clock serves a request.
\<close>

subsection \<open>Requests and responses\<close>

text \<open>
  A request body is the JSON value it starts with, if any, and the form it decodes to, if it is
  one; a header that is absent is empty.
\<close>

record web_req =
  q_HX :: string
  q_ContentType :: string
  q_Json :: "json option"
  q_Form :: "(string \<times> string) list option"
  q_Name :: string
  q_Range :: string

definition isHTMX :: "web_req \<Rightarrow> bool" where
  "isHTMX q \<longleftrightarrow> q_HX q = ''true''"

definition isJSONRequest :: "web_req \<Rightarrow> bool" where
  "isJSONRequest q \<longleftrightarrow> trim_space (before_byte CHR '';'' (q_ContentType q)) = ''application/json''"

datatype client_msg =
    CouldNotReadBody
  | ClientNotFound
  | SvcMsg svc_error
  | NoClientNamed string
  | AddedClient string
  | UpdatedClient string
  | RemovedClient string

datatype msg_kind = NoMsg | SuccessMsg client_msg | ErrorMsg client_msg

record tab_data =
  td_Rows :: "row_view list"
  td_Error :: "(svc_error option \<times> string option) option"
  td_Message :: msg_kind

record history_json =
  hj_Name :: string
  hj_PublicKey :: string
  hj_Range :: string
  hj_From :: time
  hj_To :: time
  hj_Summary :: summary
  hj_ConnectedSeconds :: int

record detail_data =
  dd_PublicKey :: string
  dd_Range :: string
  dd_P95Bps :: int
  dd_Summary :: "summary option"
  dd_From :: time
  dd_To :: time

datatype web_body =
    FixedText string
  | BadRange string
  | SvcText svc_error
  | DbText db_error
  | ShowText string
  | TabText "svc_error option \<times> string option"
  | ErrorJson client_msg
  | RowsJson "row_view list"
  | ClientsCard tab_data
  | HistoryJson history_json
  | DetailHtml detail_data

type_synonym web_resp = "int \<times> web_body"

record 'w api_env =
  ae_run :: "string list \<Rightarrow> 'w \<Rightarrow> (cmd_error + string) \<times> 'w"
  ae_iface :: string
  ae_geo :: "geo_resolver option"

definition wg_show :: "'w api_env \<Rightarrow> 'w service \<Rightarrow> (string + wg_peer list) \<times> 'w service" where
  "wg_show env s = (case Show (ae_run env) (ae_iface env) (world s) of (r, w) \<Rightarrow> (r, s\<lparr>world := w\<rparr>))"

subsection \<open>The list\<close>

definition handleGetClients :: "'w api_env \<Rightarrow> time \<Rightarrow> 'w service \<Rightarrow> web_resp \<times> 'w service" where
  "handleGetClients env now s =
     (case svc_List s of
        (Inl e, s1) \<Rightarrow> ((500, SvcText e), s1)
      | (Inr cs, s1) \<Rightarrow>
          (case wg_show env s1 of
             (Inl e, s2) \<Rightarrow> ((500, ShowText e), s2)
           | (Inr ps, s2) \<Rightarrow> ((200, RowsJson (buildClientRows cs ps now (ae_geo env))), s2)))"

definition err_of :: "'e + 'a \<Rightarrow> 'e option" where
  "err_of r = (case r of Inl e \<Rightarrow> Some e | Inr x \<Rightarrow> None)"

definition buildClientsTabData :: "'w api_env \<Rightarrow> time \<Rightarrow> 'w service \<Rightarrow> tab_data \<times> 'w service" where
  "buildClientsTabData env now s =
     (case svc_List s of
        (r1, s1) \<Rightarrow>
          (case wg_show env s1 of
             (r2, s2) \<Rightarrow>
               (case (r1, r2) of
                  (Inr cs, Inr ps) \<Rightarrow>
                    (\<lparr>td_Rows = buildClientRows cs ps now (ae_geo env), td_Error = None, td_Message = NoMsg\<rparr>, s2)
                | _ \<Rightarrow> (\<lparr>td_Rows = [], td_Error = Some (err_of r1, err_of r2), td_Message = NoMsg\<rparr>, s2))))"

definition handleGetPartialClients :: "'w api_env \<Rightarrow> time \<Rightarrow> 'w service \<Rightarrow> web_resp \<times> 'w service" where
  "handleGetPartialClients env now s =
     (case buildClientsTabData env now s of (data, s') \<Rightarrow> ((200, ClientsCard data), s'))"

definition writeClientsJSON :: "'w api_env \<Rightarrow> time \<Rightarrow> 'w service \<Rightarrow> web_resp \<times> 'w service" where
  "writeClientsJSON env now s =
     (case buildClientsTabData env now s of
        (data, s') \<Rightarrow>
          (case td_Error data of
             Some e \<Rightarrow> ((500, TabText e), s')
           | None \<Rightarrow> ((200, RowsJson (td_Rows data)), s')))"

definition respondClientSuccess :: "'w api_env \<Rightarrow> time \<Rightarrow> bool \<Rightarrow> client_msg \<Rightarrow> 'w service \<Rightarrow> web_resp \<times> 'w service" where
  "respondClientSuccess env now htmx msg s =
     (if htmx then
        (case buildClientsTabData env now s of
           (data, s') \<Rightarrow> ((200, ClientsCard (data\<lparr>td_Message := SuccessMsg msg\<rparr>)), s'))
      else writeClientsJSON env now s)"

definition respondClientError :: "'w api_env \<Rightarrow> time \<Rightarrow> bool \<Rightarrow> int \<Rightarrow> client_msg \<Rightarrow> 'w service \<Rightarrow> web_resp \<times> 'w service" where
  "respondClientError env now htmx status msg s =
     (if htmx then
        (case buildClientsTabData env now s of
           (data, s') \<Rightarrow> ((200, ClientsCard (data\<lparr>td_Message := ErrorMsg msg\<rparr>)), s'))
      else ((status, ErrorJson msg), s))"

subsection \<open>Reading the parameters\<close>

text \<open>\<^verbatim>\<open>PostForm.Has\<close> and \<^verbatim>\<open>PostForm.Get\<close>, and \<^verbatim>\<open>PostFormValue\<close>: the first value of a key.\<close>

definition form_get :: "string \<Rightarrow> (string \<times> string) list \<Rightarrow> string option" where
  "form_get k form = map_of form k"

definition form_value :: "string \<Rightarrow> (string \<times> string) list \<Rightarrow> string" where
  "form_value k form = (case form_get k form of None \<Rightarrow> [] | Some v \<Rightarrow> v)"

text \<open>A pointer field of a struct: absent and null leave it nil.\<close>

definition ptr_member :: "string \<Rightarrow> (string \<times> json) list \<Rightarrow> string option option" where
  "ptr_member name ms =
     fold (\<lambda>(k, v) acc.
             if to_lower k \<noteq> name then acc
             else (case v of JStr s \<Rightarrow> map_option (\<lambda>_. Some s) acc | JNull \<Rightarrow> map_option (\<lambda>_. None) acc | _ \<Rightarrow> None))
       ms (Some None)"

definition ptr_flag :: "string \<Rightarrow> (string \<times> json) list \<Rightarrow> bool option option" where
  "ptr_flag name ms =
     fold (\<lambda>(k, v) acc.
             if to_lower k \<noteq> name then acc
             else (case v of JBool b \<Rightarrow> map_option (\<lambda>_. Some b) acc | JNull \<Rightarrow> map_option (\<lambda>_. None) acc | _ \<Rightarrow> None))
       ms (Some None)"

fun add_of_json :: "json \<Rightarrow> add_params option" where
  "add_of_json (JObj ms) =
     (case (string_member ''name'' ms, string_member ''public_key'' ms, string_member ''address'' ms, string_member ''note'' ms) of
        (Some n, Some k, Some a, Some t) \<Rightarrow>
          Some \<lparr>ap_Name = trim_space n, ap_PublicKey = trim_space k, ap_Address = trim_space a, ap_Note = trim_space t\<rparr>
      | _ \<Rightarrow> None)"
| "add_of_json JNull = Some \<lparr>ap_Name = [], ap_PublicKey = [], ap_Address = [], ap_Note = []\<rparr>"
| "add_of_json _ = None"

definition parseClientAdd :: "web_req \<Rightarrow> add_params option" where
  "parseClientAdd q =
     (if isJSONRequest q then Option.bind (q_Json q) add_of_json
      else (case q_Form q of
              None \<Rightarrow> None
            | Some form \<Rightarrow>
                Some \<lparr>ap_Name = trim_space (form_value ''name'' form), ap_PublicKey = trim_space (form_value ''public_key'' form),
                      ap_Address = trim_space (form_value ''address'' form), ap_Note = trim_space (form_value ''note'' form)\<rparr>))"

definition trimPtr :: "string option \<Rightarrow> string option" where
  "trimPtr = map_option trim_space"

definition no_update :: update_params where
  "no_update = \<lparr>up_Name = None, up_PublicKey = None, up_Address = None, up_Note = None, up_Enabled = None\<rparr>"

fun update_of_json :: "json \<Rightarrow> update_params option" where
  "update_of_json (JObj ms) =
     (case (ptr_member ''name'' ms, ptr_member ''public_key'' ms, ptr_member ''address'' ms, ptr_member ''note'' ms,
            ptr_flag ''enabled'' ms) of
        (Some n, Some k, Some a, Some t, Some e) \<Rightarrow>
          Some \<lparr>up_Name = trimPtr n, up_PublicKey = trimPtr k, up_Address = trimPtr a, up_Note = trimPtr t, up_Enabled = e\<rparr>
      | _ \<Rightarrow> None)"
| "update_of_json JNull = Some no_update"
| "update_of_json _ = None"

definition parseFormBool :: "string \<Rightarrow> bool" where
  "parseFormBool s \<longleftrightarrow>
     to_lower (trim_space s) \<in> {''true'', ''1'', ''on'', ''yes''} \<or> s \<in> {''1'', ''t'', ''T'', ''TRUE'', ''true'', ''True''}"

definition parseClientUpdate :: "web_req \<Rightarrow> update_params option" where
  "parseClientUpdate q =
     (if isJSONRequest q then Option.bind (q_Json q) update_of_json
      else (case q_Form q of
              None \<Rightarrow> None
            | Some form \<Rightarrow>
                Some \<lparr>up_Name = trimPtr (form_get ''name'' form), up_PublicKey = trimPtr (form_get ''public_key'' form),
                      up_Address = trimPtr (form_get ''address'' form), up_Note = trimPtr (form_get ''note'' form),
                      up_Enabled = map_option parseFormBool (form_get ''enabled'' form)\<rparr>))"

subsection \<open>The writes\<close>

definition clientErrorStatus :: "svc_error \<Rightarrow> int" where
  "clientErrorStatus e = (case e of SvcNotFound n \<Rightarrow> 404 | _ \<Rightarrow> 400)"

definition containsClientName :: "client list \<Rightarrow> string \<Rightarrow> bool" where
  "containsClientName cs name = list_ex (\<lambda>c. Name c = name) cs"

definition unavailable :: web_resp where
  "unavailable = (503, FixedText ''client management unavailable'')"

definition handleAddClient :: "'w api_env \<Rightarrow> time \<Rightarrow> web_req \<Rightarrow> 'w service \<Rightarrow> web_resp \<times> 'w service" where
  "handleAddClient env now q s =
     (case parseClientAdd q of
        None \<Rightarrow> respondClientError env now (isHTMX q) 400 CouldNotReadBody s
      | Some p \<Rightarrow>
          (case Add now p s of
             (Inl e, s') \<Rightarrow> respondClientError env now (isHTMX q) (clientErrorStatus e) (SvcMsg e) s'
           | (Inr c, s') \<Rightarrow> respondClientSuccess env now (isHTMX q) (AddedClient (ap_Name p)) s'))"

definition handleUpdateClient :: "'w api_env \<Rightarrow> time \<Rightarrow> web_req \<Rightarrow> 'w service \<Rightarrow> web_resp \<times> 'w service" where
  "handleUpdateClient env now q s =
     (if q_Name q = [] then respondClientError env now (isHTMX q) 404 ClientNotFound s
      else (case parseClientUpdate q of
              None \<Rightarrow> respondClientError env now (isHTMX q) 400 CouldNotReadBody s
            | Some p \<Rightarrow>
                (case Update now (q_Name q) p s of
                   (Inl e, s') \<Rightarrow> respondClientError env now (isHTMX q) (clientErrorStatus e) (SvcMsg e) s'
                 | (Inr c, s') \<Rightarrow> respondClientSuccess env now (isHTMX q) (UpdatedClient (q_Name q)) s')))"

definition handleDeleteClient :: "'w api_env \<Rightarrow> time \<Rightarrow> web_req \<Rightarrow> 'w service \<Rightarrow> web_resp \<times> 'w service" where
  "handleDeleteClient env now q s =
     (if q_Name q = [] then respondClientError env now (isHTMX q) 404 ClientNotFound s
      else (case svc_List s of
              (Inl e, s1) \<Rightarrow> respondClientError env now (isHTMX q) 500 (SvcMsg e) s1
            | (Inr existing, s1) \<Rightarrow>
                if \<not> containsClientName existing (q_Name q)
                then respondClientError env now (isHTMX q) 404 (NoClientNamed (q_Name q)) s1
                else (case Delete (q_Name q) s1 of
                        (Inl e, s2) \<Rightarrow> respondClientError env now (isHTMX q) 500 (SvcMsg e) s2
                      | (Inr u, s2) \<Rightarrow> respondClientSuccess env now (isHTMX q) (RemovedClient (q_Name q)) s2)))"

text \<open>Without a client service every write is refused.\<close>

definition with_service :: "('w service \<Rightarrow> web_resp \<times> 'w service) \<Rightarrow> 'w service option \<Rightarrow> web_resp \<times> 'w service option" where
  "with_service h so =
     (case so of None \<Rightarrow> (unavailable, None) | Some s \<Rightarrow> (case h s of (r, s') \<Rightarrow> (r, Some s')))"

subsection \<open>History and detail\<close>

definition rangeEnumMap :: "string \<Rightarrow> duration option" where
  "rangeEnumMap r =
     (if r = ''1h'' then Some hour else if r = ''6h'' then Some (6 * hour) else if r = ''24h'' then Some (24 * hour)
      else if r = ''7d'' then Some (7 * 24 * hour) else None)"

definition range_or_default :: "string \<Rightarrow> string" where
  "range_or_default r = (if r = [] then ''24h'' else r)"

definition handleGetClientHistory :: "time \<Rightarrow> web_req \<Rightarrow> 'w service \<Rightarrow> web_resp \<times> 'w service" where
  "handleGetClientHistory now q s =
     (if q_Name q = [] then ((404, FixedText ''404 page not found''), s)
      else (case rangeEnumMap (range_or_default (q_Range q)) of
              None \<Rightarrow> ((400, BadRange (range_or_default (q_Range q))), s)
            | Some d \<Rightarrow>
                (case svc_List s of
                   (Inl e, s1) \<Rightarrow> ((500, SvcText e), s1)
                 | (Inr cs, s1) \<Rightarrow>
                     (case find (\<lambda>c. Name c = q_Name q) cs of
                        None \<Rightarrow> ((404, FixedText ''404 page not found''), s1)
                      | Some c \<Rightarrow>
                          (case QueryHandshakeEventsByKey (PublicKey c) (now - d) now (svc_db s1) of
                             (Inl e, d1) \<Rightarrow> ((500, DbText e), s1\<lparr>svc_db := d1\<rparr>)
                           | (Inr events, d1) \<Rightarrow>
                               (let sum = Derive (handshakeTimes events) now SessionGapThreshold onlineThreshold
                                in ((200, HistoryJson
                                      \<lparr>hj_Name = q_Name q, hj_PublicKey = PublicKey c, hj_Range = range_or_default (q_Range q),
                                       hj_From = now - d, hj_To = now, hj_Summary = sum,
                                       hj_ConnectedSeconds = \<lfloor>in_units second (ConnectedTime sum)\<rfloor>\<rparr>),
                                    s1\<lparr>svc_db := d1\<rparr>)))))))"

definition handleGetPartialClientDetail :: "time \<Rightarrow> web_req \<Rightarrow> 'w service \<Rightarrow> web_resp \<times> 'w service" where
  "handleGetPartialClientDetail now q s =
     (if q_Name q = [] then ((404, FixedText ''404 page not found''), s)
      else (case svc_List s of
              (Inl e, s1) \<Rightarrow> ((500, SvcText e), s1)
            | (Inr cs, s1) \<Rightarrow>
                if \<not> list_ex (\<lambda>c. PublicKey c = q_Name q) cs then ((404, FixedText ''404 page not found''), s1)
                else (case QueryClientTraffic (q_Name q) (now - 24 * hour) now (svc_db s1) of
                        (rows, d1) \<Rightarrow>
                          (case QueryHandshakeEventsByKey (q_Name q) (now - 24 * hour) now d1 of
                             (events, d2) \<Rightarrow>
                               ((200, DetailHtml
                                   \<lparr>dd_PublicKey = q_Name q, dd_Range = ''24h'',
                                    dd_P95Bps = (case rows of Inl e \<Rightarrow> 0 | Inr rs \<Rightarrow> p95ThroughputBps rs),
                                    dd_Summary = (case events of
                                                    Inl e \<Rightarrow> None
                                                  | Inr es \<Rightarrow> Some (Derive (handshakeTimes es) now SessionGapThreshold onlineThreshold)),
                                    dd_From = now - 24 * hour, dd_To = now\<rparr>),
                                s1\<lparr>svc_db := d2\<rparr>)))))"

subsection \<open>What the handlers leave of the database\<close>

lemma wg_show_db [simp]: "wg_show env s = (r, s') \<Longrightarrow> svc_db s' = svc_db s"
  by (auto simp: wg_show_def split: prod.splits)

lemma List_no_fault:
  assumes "faults (svc_db s) = []"
  shows "svc_List s = (Inr (listed (tabs (svc_db s))), s)"
  unfolding svc_List_def using list_no_fault [OF assms] .

lemma List_tabs: "svc_List s = (r, s') \<Longrightarrow> tabs (svc_db s') = tabs (svc_db s)"
  using svc_readsD [OF svc_reads_List] by blast

lemma tab_data_tabs: "buildClientsTabData env now s = (d, s') \<Longrightarrow> tabs (svc_db s') = tabs (svc_db s)"
  by (auto simp: buildClientsTabData_def split: prod.splits sum.splits dest!: List_tabs wg_show_db)

lemma respond_tabs:
  "respondClientSuccess env now h m s = (r, s') \<Longrightarrow> tabs (svc_db s') = tabs (svc_db s)"
  "respondClientError env now h st m s = (r, s') \<Longrightarrow> tabs (svc_db s') = tabs (svc_db s)"
  by (auto simp: respondClientSuccess_def respondClientError_def writeClientsJSON_def
      split: if_splits prod.splits option.splits dest!: tab_data_tabs)

lemma success_status: "respondClientError env now False st m s = ((st', b), s') \<Longrightarrow> st' = st"
  by (simp add: respondClientError_def)

subsection \<open>Delete\<close>

lemma svc_bind_tail:
  assumes "svc_bind m f s = (r, s')" and "m s = (Inr x, s1)" and "svc_reads (f x)"
  shows "tabs (svc_db s') = tabs (svc_db s1)"
  using assms svc_readsD by (fastforce simp: svc_bind_def)

lemma Delete_no_fault:
  assumes "faults (svc_db s) = []" and "Delete n s = (r, s')"
  shows "clients (tabs (svc_db s')) = filter (\<lambda>x. r_name x \<noteq> n) (clients (tabs (svc_db s)))"
proof -
  let ?t = "(tabs (svc_db s))\<lparr>clients := filter (\<lambda>x. r_name x \<noteq> n) (clients (tabs (svc_db s)))\<rparr>"
  have "with_db ''clients: delete'' (DeleteClient n) s = (Inr (), s\<lparr>svc_db := (svc_db s)\<lparr>tabs := ?t\<rparr>\<rparr>)"
    using assms(1) by (simp add: with_db_def DeleteClient_def db_call_no_fault sql_delete_client_def)
  from svc_bind_tail [OF assms(2) [unfolded Delete_def] this] show ?thesis
    by (simp add: svc_reads_bind)
qed

text \<open>
  Without driver faults, a DELETE request for a listed name removes exactly the rows of that name,
  whatever the live apply and the store do; for any other name it answers 404 and changes nothing.
\<close>

theorem handleDeleteClient_exact:
  assumes "faults (svc_db s) = []" and "q_Name q \<noteq> []" and "\<not> isHTMX q"
    and "handleDeleteClient env now q s = (resp, s')"
  shows "if q_Name q \<in> r_name ` set (clients (tabs (svc_db s)))
    then clients (tabs (svc_db s')) = filter (\<lambda>r. r_name r \<noteq> q_Name q) (clients (tabs (svc_db s)))
    else resp = (404, ErrorJson (NoClientNamed (q_Name q))) \<and> s' = s"
proof -
  have c: "containsClientName (listed (tabs (svc_db s))) (q_Name q) \<longleftrightarrow> q_Name q \<in> r_name ` set (clients (tabs (svc_db s)))"
    by (auto simp: containsClientName_def list_ex_iff set_listed client_of_row_def) (metis image_eqI)
  show ?thesis
  proof (cases "q_Name q \<in> r_name ` set (clients (tabs (svc_db s)))")
    case False
    with assms c show ?thesis
      by (simp add: handleDeleteClient_def List_no_fault respondClientError_def)
  next
    case True
    obtain r s2 where d: "Delete (q_Name q) s = (r, s2)" by fastforce
    have "tabs (svc_db s') = tabs (svc_db s2)"
      using assms c True d
      by (cases r) (auto simp: handleDeleteClient_def List_no_fault dest!: respond_tabs)
    with Delete_no_fault [OF assms(1) d] True show ?thesis by simp
  qed
qed

definition no_form :: web_req where
  "no_form = \<lparr>q_HX = [], q_ContentType = [], q_Json = None, q_Form = None, q_Name = ''bob'', q_Range = []\<rparr>"

definition no_wg :: "unit api_env" where
  "no_wg = \<lparr>ae_run = (\<lambda>c w. (Inr [], w)), ae_iface = ''wg0'', ae_geo = None\<rparr>"

theorem handleDeleteClient_exact_witness:
  "\<exists>s'. handleDeleteClient no_wg 0 no_form (NewService (open_db []) [] ()) = ((404, ErrorJson (NoClientNamed ''bob'')), s')"
proof -
  let ?s = "NewService (open_db []) [] ()"
  obtain r s' where h: "handleDeleteClient no_wg 0 no_form ?s = (r, s')" by fastforce
  have "faults (svc_db ?s) = []" "clients (tabs (svc_db ?s)) = []"
    by (simp_all add: NewService_def open_db_def empty_tables_def)
  with handleDeleteClient_exact [OF _ _ _ h] h show ?thesis by (simp add: no_form_def isHTMX_def)
qed

subsection \<open>Update\<close>

lemma edit_client_fields:
  assumes "edit_client sn ex now p c = Inr u"
  shows "ID u = ID c" "Name u = (case up_Name p of None \<Rightarrow> Name c | Some n \<Rightarrow> n)"
    "PublicKey u = (case up_PublicKey p of None \<Rightarrow> PublicKey c | Some k \<Rightarrow> k)"
    "up_Address p = None \<Longrightarrow> Address u = Address c"
    "Enabled u = (case up_Enabled p of None \<Rightarrow> Enabled c | Some b \<Rightarrow> b)"
    "Note u = (case up_Note p of None \<Rightarrow> Note c | Some n \<Rightarrow> noteToNull n)"
proof -
  from assms obtain c1 c2 c3 where e: "edit_name ex (up_Name p) c = Inr c1"
    "edit_key ex (up_PublicKey p) c1 = Inr c2" "edit_address sn ex (up_Address p) c2 = Inr c3"
    "u = edit_rest now p c3"
    by (auto simp: edit_client_def sum_bind_def split: sum.splits)
  have 1: "c1 = c\<lparr>Name := (case up_Name p of None \<Rightarrow> Name c | Some n \<Rightarrow> n)\<rparr>"
    using e(1) by (auto simp: edit_name_def split: option.splits if_splits)
  have 2: "c2 = c1\<lparr>PublicKey := (case up_PublicKey p of None \<Rightarrow> PublicKey c1 | Some k \<Rightarrow> k)\<rparr>"
    using e(2) by (auto simp: edit_key_def split: option.splits if_splits)
  obtain a where 3: "c3 = c2\<lparr>Address := a\<rparr>" "up_Address p = None \<Longrightarrow> a = Address c2"
    using e(3) by (cases "up_Address p") (auto simp: edit_address_def split: sum.splits)
  have 4: "ID u = ID c3" "Name u = Name c3" "PublicKey u = PublicKey c3" "Address u = Address c3"
    "Enabled u = (case up_Enabled p of None \<Rightarrow> Enabled c3 | Some b \<Rightarrow> b)"
    "Note u = (case up_Note p of None \<Rightarrow> Note c3 | Some n \<Rightarrow> noteToNull n)"
    by (auto simp: e(4) edit_rest_def Let_def split: option.splits)
  show "ID u = ID c" "Name u = (case up_Name p of None \<Rightarrow> Name c | Some n \<Rightarrow> n)"
    "PublicKey u = (case up_PublicKey p of None \<Rightarrow> PublicKey c | Some k \<Rightarrow> k)"
    "up_Address p = None \<Longrightarrow> Address u = Address c"
    "Enabled u = (case up_Enabled p of None \<Rightarrow> Enabled c | Some b \<Rightarrow> b)"
    "Note u = (case up_Note p of None \<Rightarrow> Note c | Some n \<Rightarrow> noteToNull n)"
    using 4 3(2) unfolding 1 2 3(1) by (simp_all split: option.splits)
qed

lemma Update_Inr:
  assumes "Update now name p s = (Inr u, s')"
  obtains c where "c \<in> set (listed (tabs (svc_db s)))" "Name c = name"
    "edit_client (serverNet s) (listed (tabs (svc_db s))) now p c = Inr u"
    "sql_update_client (\<lambda>r. r\<lparr>r_name := Name u, r_public_key := PublicKey u, r_address := Address u,
        r_enabled := b2i (Enabled u), r_note := Note u, r_updated_at := unix_secs (UpdatedAt u)\<rparr>) (ID u)
      (tabs (svc_db s)) = Inr ((), tabs (svc_db s'))"
proof -
  from assms obtain ex s1 where l: "with_db ''clients: update list'' ListClients s = (Inr ex, s1)"
    and rest: "(case find (\<lambda>c. Name c = name) ex of None \<Rightarrow> (Inl (SvcNotFound name), s1)
       | Some c \<Rightarrow> (case edit_client (serverNet s1) ex now p c of Inl e \<Rightarrow> (Inl e, s1)
                   | Inr updated \<Rightarrow> update_write p updated s1)) = (Inr u, s')"
    by (auto simp: Update_def svc_bind_Inr)
  from list_Inr [OF l] have ex: "ex = listed (tabs (svc_db s))" "tabs (svc_db s1) = tabs (svc_db s)"
    "serverNet s1 = serverNet s" by (auto, metis service.ext_inject service.surjective service.update_convs(1))
  from rest obtain c u0 where c: "find (\<lambda>c. Name c = name) ex = Some c" "edit_client (serverNet s1) ex now p c = Inr u0"
    "update_write p u0 s1 = (Inr u, s')" by (auto split: option.splits sum.splits)
  from c(3) obtain s2 s3 where w: "with_db ''clients: update write'' (UpdateClient u0) s1 = (Inr (), s2)"
    "applyLocked s2 = (Inr (), s3)" "u = u0"
    "(if up_Name p \<noteq> None \<or> up_PublicKey p \<noteq> None \<or> up_Address p \<noteq> None then saveStoreLocked else svc_return ()) s3 = (Inr (), s')"
    by (auto simp: update_write_def svc_bind_Inr)
  have "tabs (svc_db s') = tabs (svc_db s2)"
  proof (cases "up_Name p \<noteq> None \<or> up_PublicKey p \<noteq> None \<or> up_Address p \<noteq> None")
    case True
    with w(4) have "saveStoreLocked s3 = (Inr (), s')" by simp
    with svc_readsD [OF svc_reads_apply w(2)] svc_readsD [OF svc_reads_save this] show ?thesis by simp
  next
    case False
    with w(4) svc_readsD [OF svc_reads_apply w(2)] show ?thesis by simp
  qed
  moreover have "UpdateClient u (svc_db s1) = (Inr (), svc_db s2)" using with_db_Inr [OF w(1)] w(3) by simp
  ultimately have "sql_update_client (\<lambda>r. r\<lparr>r_name := Name u, r_public_key := PublicKey u, r_address := Address u,
        r_enabled := b2i (Enabled u), r_note := Note u, r_updated_at := unix_secs (UpdatedAt u)\<rparr>) (ID u)
      (tabs (svc_db s)) = Inr ((), tabs (svc_db s'))"
    using ex(2) by (auto simp: UpdateClient_def dest: db_call_Inr)
  note upd = this
  have "edit_client (serverNet s) (listed (tabs (svc_db s))) now p c = Inr u" using c(2) ex w(3) by simp
  moreover have "c \<in> set (listed (tabs (svc_db s)))" "Name c = name" using find_SomeD [OF c(1)] ex(1) by simp_all
  ultimately show ?thesis using that [OF _ _ _ upd] by blast
qed

text \<open>A failed reply never has the status of success.\<close>

lemma error_status: "clientErrorStatus e \<noteq> 200"
  by (simp add: clientErrorStatus_def split: svc_error.split)

lemma update_success:
  assumes "handleUpdateClient env now q s = ((200, b), s')" and "\<not> isHTMX q" and "parseClientUpdate q = Some p"
  shows "\<exists>u s1. Update now (q_Name q) p s = (Inr u, s1) \<and> tabs (svc_db s') = tabs (svc_db s1)"
proof -
  obtain r s1 where u: "Update now (q_Name q) p s = (r, s1)" by fastforce
  have n: "q_Name q \<noteq> []" using assms(1,2) by (auto simp: handleUpdateClient_def respondClientError_def)
  show ?thesis
  proof (cases r)
    case (Inl e)
    with assms u n have "(clientErrorStatus e, ErrorJson (SvcMsg e)) = (200, b)"
      by (simp add: handleUpdateClient_def respondClientError_def)
    with error_status [of e] show ?thesis by simp
  next
    case (Inr c)
    with assms u n have "respondClientSuccess env now False (UpdatedClient (q_Name q)) s1 = ((200, b), s')"
      by (simp add: handleUpdateClient_def)
    from respond_tabs(1) [OF this] u Inr show ?thesis by simp
  qed
qed

text \<open>
  A PATCH request that is answered with success changed exactly one row, the one of the name in
  the path: the fields the request gives have the given values, trimmed, every field it does not
  give is as before, and every other row is untouched.
\<close>

theorem handleUpdateClient_patches:
  assumes "valid_tables sn (tabs (svc_db s))" and "\<not> isHTMX q" and "parseClientUpdate q = Some p"
    and "handleUpdateClient env now q s = ((200, body), s')"
  shows "\<exists>r r'. r \<in> set (clients (tabs (svc_db s))) \<and> r_name r = q_Name q \<and>
    clients (tabs (svc_db s')) = map (\<lambda>x. if x = r then r' else x) (clients (tabs (svc_db s))) \<and>
    r_id r' = r_id r \<and> r_created_at r' = r_created_at r \<and>
    r_name r' = (case up_Name p of None \<Rightarrow> r_name r | Some n \<Rightarrow> n) \<and>
    r_public_key r' = (case up_PublicKey p of None \<Rightarrow> r_public_key r | Some k \<Rightarrow> k) \<and>
    (if up_Address p = None then r_address r' = r_address r else True) \<and>
    (r_enabled r' \<noteq> 0) = (case up_Enabled p of None \<Rightarrow> r_enabled r \<noteq> 0 | Some b \<Rightarrow> b) \<and>
    r_note r' = (case up_Note p of None \<Rightarrow> r_note r | Some n \<Rightarrow> noteToNull n)"
proof -
  let ?T = "tabs (svc_db s)"
  from update_success [OF assms(4,2,3)] obtain u s1 where u: "Update now (q_Name q) p s = (Inr u, s1)"
    and t: "tabs (svc_db s') = tabs (svc_db s1)" by blast
  from Update_Inr [OF u] obtain c where c: "c \<in> set (listed ?T)" "Name c = q_Name q"
    "edit_client (serverNet s) (listed ?T) now p c = Inr u"
    "sql_update_client (\<lambda>r. r\<lparr>r_name := Name u, r_public_key := PublicKey u, r_address := Address u,
        r_enabled := b2i (Enabled u), r_note := Note u, r_updated_at := unix_secs (UpdatedAt u)\<rparr>) (ID u) ?T =
      Inr ((), tabs (svc_db s1))" by blast
  from c(1) obtain r where r: "r \<in> set (clients ?T)" "c = client_of_row r" by (auto simp: set_listed)
  let ?r' = "r\<lparr>r_name := Name u, r_public_key := PublicKey u, r_address := Address u,
        r_enabled := b2i (Enabled u), r_note := Note u, r_updated_at := unix_secs (UpdatedAt u)\<rparr>"
  note f = edit_client_fields [OF c(3)]
  have id: "ID u = r_id r" using f(1) r by (simp add: client_of_row_def)
  have ok: "tables_ok ?T" using assms(1) by (simp add: valid_tables_def)
  have "clients (tabs (svc_db s')) = map (\<lambda>x. if r_id x = ID u then x\<lparr>r_name := Name u, r_public_key := PublicKey u,
      r_address := Address u, r_enabled := b2i (Enabled u), r_note := Note u, r_updated_at := unix_secs (UpdatedAt u)\<rparr> else x) (clients ?T)"
  proof -
    have "tabs (svc_db s1) = ?T\<lparr>clients := map (\<lambda>x. if r_id x = ID u then x\<lparr>r_name := Name u, r_public_key := PublicKey u,
      r_address := Address u, r_enabled := b2i (Enabled u), r_note := Note u, r_updated_at := unix_secs (UpdatedAt u)\<rparr> else x) (clients ?T)\<rparr>"
      using c(4) by (auto simp: sql_update_client_def split: if_splits)
    then show ?thesis by (simp add: t)
  qed
  also have "\<dots> = map (\<lambda>x. if x = r then ?r' else x) (clients ?T)"
    using same_row [OF ok r(1)] id by (intro map_cong) auto
  finally have rows: "clients (tabs (svc_db s')) = map (\<lambda>x. if x = r then ?r' else x) (clients ?T)" .
  show ?thesis
  proof (rule exI [of _ r], rule exI [of _ ?r'], intro conjI)
    show "r_name r = q_Name q" using c(2) r(2) by (simp add: client_of_row_def)
    show "r_name ?r' = (case up_Name p of None \<Rightarrow> r_name r | Some n \<Rightarrow> n)"
      using f(2) r(2) by (simp add: client_of_row_def split: option.split)
    show "r_public_key ?r' = (case up_PublicKey p of None \<Rightarrow> r_public_key r | Some k \<Rightarrow> k)"
      using f(3) r(2) by (simp add: client_of_row_def split: option.split)
    show "if up_Address p = None then r_address ?r' = r_address r else True"
      using f(4) r(2) by (simp add: client_of_row_def)
    show "(r_enabled ?r' \<noteq> 0) = (case up_Enabled p of None \<Rightarrow> r_enabled r \<noteq> 0 | Some b \<Rightarrow> b)"
      using f(5) r(2) by (simp add: client_of_row_def b2i_def split: option.split)
    show "r_note ?r' = (case up_Note p of None \<Rightarrow> r_note r | Some n \<Rightarrow> noteToNull n)"
      using f(6) r(2) by (simp add: client_of_row_def split: option.split)
  qed (use r(1) rows in simp_all)
qed


subsection \<open>A change can be answered with an error\<close>

text \<open>
  When the live apply fails, the request to add a client is answered with status 400, the one of
  a request the client should correct, although the new client stays in the database.
\<close>

theorem handleAddClient_400_after_commit:
  assumes "usable_net (serverNet s)" and "faults (svc_db s) = []"
    and "applier s = Applier (\<lambda>cs w. (Some e, w))"
    and "parseClientAdd q = Some p" and "\<not> isHTMX q" and "nameRe (ap_Name p)" and "pubKeyRe (ap_PublicKey p)"
    and "add_conflict p (listed (tabs (svc_db s))) = None"
    and "choose_address (serverNet s) (ap_Address p) (addressesOf (listed (tabs (svc_db s)))) = Inr a"
  shows "\<exists>s'. handleAddClient env now q s = ((400, ErrorJson (SvcMsg (SvcApply e))), s') \<and>
    clients (tabs (svc_db s')) =
      clients (tabs (svc_db s)) @ [row_of_client (client_seq (tabs (svc_db s)) + 1) (add_record now p a)]"
proof -
  from Add_apply_failure_keeps_row [OF assms(1-3,6-9), of now 0] obtain s' where
    "Add now p s = (Inl (SvcApply e), s')"
    "clients (tabs (svc_db s')) = clients (tabs (svc_db s)) @ [row_of_client (client_seq (tabs (svc_db s)) + 1) (add_record now p a)]"
    by blast
  with assms(4,5) show ?thesis
    by (simp add: handleAddClient_def respondClientError_def clientErrorStatus_def)
qed

definition add_laptop :: web_req where
  "add_laptop = \<lparr>q_HX = [], q_ContentType = [], q_Json = None,
     q_Form = Some [(''name'', ap_Name laptop), (''public_key'', ap_PublicKey laptop), (''address'', ap_Address laptop)],
     q_Name = [], q_Range = []\<rparr>"

lemma parse_add_laptop: "parseClientAdd add_laptop = Some laptop" "\<not> isHTMX add_laptop"
proof -
  have "list_all graph_char (ap_Name laptop)" "list_all graph_char (ap_PublicKey laptop)" "list_all graph_char (ap_Address laptop)"
    by code_simp+
  then have "trim_space (ap_Name laptop) = ap_Name laptop" "trim_space (ap_PublicKey laptop) = ap_PublicKey laptop"
    "trim_space (ap_Address laptop) = ap_Address laptop" by (auto simp: list_all_iff intro: trim_space_graph)
  then show "parseClientAdd add_laptop = Some laptop"
    by (simp add: parseClientAdd_def add_laptop_def isJSONRequest_def form_value_def form_get_def before_byte_def)
      (simp add: laptop_def)
  show "\<not> isHTMX add_laptop" by (simp add: isHTMX_def add_laptop_def)
qed

theorem handleAddClient_400_after_commit_witness:
  "\<exists>s'. handleAddClient no_wg 0 add_laptop (SetApplier (Some (Applier (\<lambda>cs w. (Some ''no sudo'', w)))) (NewService (open_db []) [] ())) =
      ((400, ErrorJson (SvcMsg (SvcApply ''no sudo''))), s') \<and> length (clients (tabs (svc_db s'))) = 1"
proof -
  let ?s = "SetApplier (Some (Applier (\<lambda>cs w. (Some ''no sudo'', w)))) (NewService (open_db []) [] ()) :: unit service"
  have c: "serverNet ?s = default_net_value" "tabs (svc_db ?s) = empty_tables" "faults (svc_db ?s) = []"
    "applier ?s = Applier (\<lambda>cs w. (Some ''no sudo'', w))"
    using fresh_service by (simp_all add: SetApplier_def)
  have l: "listed empty_tables = []" by (simp add: listed_def empty_tables_def)
  have "choose_address (serverNet ?s) (ap_Address laptop) (addressesOf (listed (tabs (svc_db ?s)))) = Inr ''172.16.15.9/32''"
    unfolding c l by (simp add: addressesOf_def laptop_chosen)
  moreover have "add_conflict laptop (listed (tabs (svc_db ?s))) = None" unfolding c l by simp
  moreover have "usable_net (serverNet ?s)" unfolding c by (rule usable_default)
  ultimately obtain s' where "handleAddClient no_wg 0 add_laptop ?s = ((400, ErrorJson (SvcMsg (SvcApply ''no sudo''))), s')"
    "clients (tabs (svc_db s')) = clients (tabs (svc_db ?s)) @
      [row_of_client (client_seq (tabs (svc_db ?s)) + 1) (add_record 0 laptop ''172.16.15.9/32'')]"
    using handleAddClient_400_after_commit [OF _ c(3,4) parse_add_laptop laptop_fields, of _ no_wg 0] by blast
  then show ?thesis unfolding c by (simp add: empty_tables_def)
qed

text \<open>A PATCH of the note on a service with one client.\<close>

definition note_patch :: web_req where
  "note_patch = \<lparr>q_HX = [], q_ContentType = [], q_Json = None, q_Form = Some [(''enabled'', ''0'')],
     q_Name = ''laptop'', q_Range = []\<rparr>"

definition laptop_row :: client_row where
  "laptop_row = row_of_client 1 (add_record 0 laptop ''172.16.15.9/32'')"

definition one_laptop :: "unit service" where
  "one_laptop = (NewService (open_db []) [] ())\<lparr>svc_db := \<lparr>tabs = empty_tables\<lparr>clients := [laptop_row], client_seq := 1\<rparr>, faults = []\<rparr>\<rparr>"

lemma one_laptop_simps:
  "faults (svc_db one_laptop) = []" "clients (tabs (svc_db one_laptop)) = [laptop_row]"
  "listed (tabs (svc_db one_laptop)) = [client_of_row laptop_row]" "applier one_laptop = NoopApplier" "world one_laptop = ()"
  by (simp_all add: one_laptop_def listed_def NewService_def)

lemma one_laptop_valid: "valid_tables default_net_value (tabs (svc_db one_laptop))"
proof -
  have "ValidateOverride default_net_value ''172.16.15.9/32'' [] = Inr ''172.16.15.9/32''"
    using laptop_chosen by (simp add: choose_address_def laptop_def)
  then have "ValidateAddress default_net_value ''172.16.15.9/32'' = None"
    by (auto simp: ValidateOverride_def split: option.splits)
  then show ?thesis using laptop_fields
    by (simp add: valid_tables_def tables_ok_def clients_ok_def one_laptop_def empty_tables_def laptop_row_def row_of_client_def
        add_record_def row_valid_def b2i_def)
qed

lemma parse_note_patch: "parseClientUpdate note_patch = Some (no_update\<lparr>up_Enabled := Some False\<rparr>)" "\<not> isHTMX note_patch"
proof -
  have "trim_space ''0'' = ''0''" by (rule trim_space_graph) (simp add: graph_char_def)
  then have "parseFormBool ''0'' = False" by (simp add: parseFormBool_def to_lower_def lower_char_def)
  then show "parseClientUpdate note_patch = Some (no_update\<lparr>up_Enabled := Some False\<rparr>)"
    by (simp add: parseClientUpdate_def note_patch_def isJSONRequest_def before_byte_def form_get_def trimPtr_def no_update_def)
  show "\<not> isHTMX note_patch" by (simp add: isHTMX_def note_patch_def)
qed

lemma patch_runs: "\<exists>b s'. handleUpdateClient no_wg 5 note_patch one_laptop = ((200, b), s')"
proof -
  have nm: "Name (client_of_row laptop_row) = ''laptop''"
    by (simp add: laptop_row_def row_of_client_def client_of_row_def add_record_def laptop_def)
  have sh: "Show (ae_run no_wg) (ae_iface no_wg) w = (Inr [], w)" for w
  proof -
    have "dump_lines [] = []" by (simp add: dump_lines_def)
    then show ?thesis by (simp add: Show_def no_wg_def)
  qed
  obtain u s1 where u: "Update 5 ''laptop'' (no_update\<lparr>up_Enabled := Some False\<rparr>) one_laptop = (Inr u, s1)" "faults (svc_db s1) = []"
    by (simp add: Update_def svc_bind_def list_no_fault one_laptop_simps nm edit_client_def sum_bind_def edit_name_def edit_key_def
        edit_address_def no_update_def update_write_def with_db_def UpdateClient_def db_call_no_fault sql_update_client_def
        laptop_row_def row_of_client_def edit_rest_def client_of_row_def add_record_def laptop_def b2i_def applyLocked_def ListClients_def db_query_no_fault svc_return_def)
  have "respondClientSuccess no_wg 5 False (UpdatedClient ''laptop'') s1 = ((200, RowsJson (buildClientRows (listed (tabs (svc_db s1))) [] 5 None)), s1)"
    using u(2) sh by (simp add: respondClientSuccess_def writeClientsJSON_def buildClientsTabData_def List_no_fault wg_show_def)
      (simp add: no_wg_def)
  with u(1) parse_note_patch show ?thesis
    by (simp add: handleUpdateClient_def) (simp add: note_patch_def)
qed

theorem handleUpdateClient_patches_witness:
  "\<exists>b s' r r'. handleUpdateClient no_wg 5 note_patch one_laptop = ((200, b), s') \<and>
    clients (tabs (svc_db s')) = map (\<lambda>x. if x = r then r' else x) [laptop_row] \<and> r_enabled r' = 0 \<and> r_note r' = r_note r"
proof -
  obtain b s' where h: "handleUpdateClient no_wg 5 note_patch one_laptop = ((200, b), s')" using patch_runs by blast
  from handleUpdateClient_patches [OF one_laptop_valid parse_note_patch(2,1) h] h show ?thesis
    by (simp add: one_laptop_simps no_update_def) metis
qed

end
