(* ===== verification/PromRead.thy ===== *)
theory PromRead
  imports PromText
begin

text \<open>
  What the tool \<^verbatim>\<open>get_host_metrics\<close> computes from the metrics text of the dashboard: the rows it
  builds from each family of samples, and the proof that reading an exposition gives back the
  sample of the poller it was written from.
\<close>

subsection \<open>The whole text\<close>

text \<open>The rows of a reading keyed by name.\<close>

lemma find_put_row:
  assumes "\<And>r. key (f r) = key r" and "\<And>n. key (blank n) = n"
  shows "find (\<lambda>r. key r = m) (put_row key blank n f rows) =
    (if m = n then Some (f (case find (\<lambda>r. key r = n) rows of Some r \<Rightarrow> r | None \<Rightarrow> blank n)) else find (\<lambda>r. key r = m) rows)"
proof -
  have map_key: "find (\<lambda>r. key r = m) (map (\<lambda>r. if key r = n then f r else r) rows) =
      map_option (\<lambda>r. if key r = n then f r else r) (find (\<lambda>r. key r = m) rows)"
    by (induction rows) (auto simp: assms)
  have snoc: "find P (xs @ [x]) = (case find P xs of Some y \<Rightarrow> Some y | None \<Rightarrow> if P x then Some x else None)" for P xs and x :: 'a
    by (induction xs) auto
  show ?thesis
  proof (cases "n \<in> key ` set rows")
    case True
    then have "find (\<lambda>r. key r = n) rows \<noteq> None" by (auto simp: find_None_iff)
    then show ?thesis using True
      by (cases "find (\<lambda>r. key r = m) rows") (auto simp: put_row_def map_key dest: find_SomeD)
  next
    case False
    then have "find (\<lambda>r. key r = n) rows = None" by (auto simp: find_None_iff)
    then show ?thesis using False by (auto simp: put_row_def snoc assms split: option.splits)
  qed
qed

lemma distinct_put_row:
  assumes "\<And>r. key (f r) = key r" and "\<And>n. key (blank n) = n" and "distinct (map key rows)"
  shows "distinct (map key (put_row key blank n f rows))"
proof -
  have "map key (map (\<lambda>r. if key r = n then f r else r) rows) = map key rows" by (simp add: assms)
  then show ?thesis using assms(3) by (simp add: put_row_def assms(1,2) del: map_map)
qed

text \<open>A run of samples of one family, one for each of a list of names.\<close>

definition put_all :: "('r \<Rightarrow> string) \<Rightarrow> (string \<Rightarrow> 'r) \<Rightarrow> ('p \<Rightarrow> string) \<Rightarrow> ('p \<Rightarrow> 'r \<Rightarrow> 'r) \<Rightarrow> 'p list \<Rightarrow> 'r list \<Rightarrow> 'r list" where
  "put_all key blank name f ps rows = fold (\<lambda>p. put_row key blank (name p) (f p)) ps rows"

lemma distinct_put_all:
  assumes "\<And>p r. key (f p r) = key r" and "\<And>n. key (blank n) = n"
  shows "distinct (map key rows) \<Longrightarrow> distinct (map key (put_all key blank name f ps rows))"
  unfolding put_all_def by (induction ps arbitrary: rows) (simp_all add: distinct_put_row assms)

lemma find_put_all:
  assumes "\<And>p r. key (f p r) = key r" and "\<And>n. key (blank n) = n"
  shows "distinct (map name ps) \<Longrightarrow> find (\<lambda>r. key r = m) (put_all key blank name f ps rows) =
    (case find (\<lambda>p. name p = m) ps of
       None \<Rightarrow> find (\<lambda>r. key r = m) rows
     | Some p \<Rightarrow> Some (f p (case find (\<lambda>r. key r = m) rows of Some r \<Rightarrow> r | None \<Rightarrow> blank m)))"
proof (induction ps arbitrary: rows)
  case Nil
  show ?case by (simp add: put_all_def)
next
  case (Cons p ps)
  have step: "put_all key blank name f (p # ps) rows = put_all key blank name f ps (put_row key blank (name p) (f p) rows)"
    by (simp add: put_all_def)
  show ?case
  proof (cases "name p = m")
    case True
    then have "find (\<lambda>p. name p = m) ps = None" using Cons.prems by (auto simp: find_None_iff image_iff)
    with Cons True show ?thesis by (simp add: step find_put_row assms)
  next
    case False
    then have "find (\<lambda>r. key r = m) (put_row key blank (name p) (f p) rows) = find (\<lambda>r. key r = m) rows"
      using find_put_row [of key "f p" blank m "name p" rows, OF assms] by simp
    with Cons False show ?thesis by (cases "find (\<lambda>p. name p = m) ps") (simp_all add: step)
  qed
qed

text \<open>Two lists with distinct keys that agree on every key are the same once sorted.\<close>

lemma sort_by_lookup:
  assumes "distinct (map k xs)" and "distinct (map k ys)"
    and "\<And>m. find (\<lambda>r. k r = m) xs = find (\<lambda>r. k r = m) ys"
  shows "sort_key k xs = sort_key (k :: 'a \<Rightarrow> 'b :: linorder) ys"
proof -
  have mem: "r \<in> set zs \<longleftrightarrow> find (\<lambda>x. k x = k r) zs = Some r" if "distinct (map k zs)" for zs r
    using that find_distinct [of k zs r] by (auto dest: find_SomeD)
  have "set xs = set ys" using mem [OF assms(1)] mem [OF assms(2)] assms(3) by auto
  then have "mset xs = mset ys"
    using assms(1,2) by (intro set_eq_iff_mset_eq_distinct [THEN iffD1]) (auto simp: distinct_map)
  then show ?thesis using assms(1) by (rule sk.srt_order_free)
qed

definition blank_peer :: "string \<Rightarrow> peer_row" where
  "blank_peer n = \<lparr>pr_Name = n, pr_RxBytes = 0, pr_TxBytes = 0, pr_Age = None\<rparr>"

definition blank_disk :: "string \<Rightarrow> disk_row" where
  "blank_disk n = \<lparr>dr_Mount = n, dr_PercentFull = Fin 0\<rparr>"

definition labelled_samples :: "string \<Rightarrow> string \<Rightarrow> ('p \<Rightarrow> string) \<Rightarrow> ('p \<Rightarrow> string) \<Rightarrow> 'p list \<Rightarrow> prom_sample list" where
  "labelled_samples metric label name val ps = map (\<lambda>p. \<lparr>ps_name = metric, ps_labels = [(label, name p)], ps_value = val p\<rparr>) ps"

lemma label_of_one [simp]: "label_of k [(k, v)] = v"
  by (simp add: label_of_def)

lemma sample_float_make: "parse_float t = Some v \<Longrightarrow> t \<noteq> [] \<Longrightarrow> sample_float \<lparr>ps_name = n, ps_labels = ls, ps_value = t\<rparr> = Some v"
  by (simp add: sample_float_def)

lemma use_ages:
  "list_all (\<lambda>p. pm_Name p \<noteq> []) ps \<Longrightarrow>
   fold use_sample (labelled_samples ''wireguard_peer_last_handshake_age_seconds'' ''peer'' pm_Name (\<lambda>p. promFloat (peer_age now p)) ps) out =
     out\<lparr>hm_Peers := put_all pr_Name blank_peer pm_Name (\<lambda>p r. r\<lparr>pr_Age := Some (Fin (peer_age now p))\<rparr>) ps (hm_Peers out)\<rparr>"
proof (induction ps arbitrary: out)
  case (Cons p ps)
  have s: "sample_float \<lparr>ps_name = n, ps_labels = ls, ps_value = promFloat (peer_age now p)\<rparr> = Some (Fin (peer_age now p))" for n ls
    using sample_num [OF age_range] by (rule sample_float_make)
  from Cons show ?case
    by (simp add: labelled_samples_def put_all_def use_sample_def s on_peer_def blank_peer_def [abs_def] Let_def)
qed (simp add: labelled_samples_def put_all_def)

definition counter :: "int \<Rightarrow> bool" where
  "counter n \<longleftrightarrow> 0 \<le> n \<and> n < 2 ^ 53"

lemma sample_counter:
  assumes "counter n"
  shows "sample_float \<lparr>ps_name = m, ps_labels = ls, ps_value = itoa n\<rparr> = Some (Fin (of_int n))"
  using assms sample_int [of n] by (intro sample_float_make) (simp_all add: counter_def)

lemma counter_int64: "counter n \<Longrightarrow> float_int64 (Fin (of_int n)) = n"
  using sample_int(2) [of n] by (simp add: counter_def)

lemma use_rx:
  "list_all (\<lambda>p. pm_Name p \<noteq> [] \<and> counter (pm_RxBytes p)) ps \<Longrightarrow>
   fold use_sample (labelled_samples ''wireguard_peer_rx_bytes_total'' ''peer'' pm_Name (\<lambda>p. itoa (pm_RxBytes p)) ps) out =
     out\<lparr>hm_Peers := put_all pr_Name blank_peer pm_Name (\<lambda>p r. r\<lparr>pr_RxBytes := pm_RxBytes p\<rparr>) ps (hm_Peers out)\<rparr>"
  by (induction ps arbitrary: out)
    (simp_all add: labelled_samples_def put_all_def use_sample_def sample_counter counter_int64 on_peer_def blank_peer_def [abs_def] Let_def
      del: float_int64.simps)

lemma use_tx:
  "list_all (\<lambda>p. pm_Name p \<noteq> [] \<and> counter (pm_TxBytes p)) ps \<Longrightarrow>
   fold use_sample (labelled_samples ''wireguard_peer_tx_bytes_total'' ''peer'' pm_Name (\<lambda>p. itoa (pm_TxBytes p)) ps) out =
     out\<lparr>hm_Peers := put_all pr_Name blank_peer pm_Name (\<lambda>p r. r\<lparr>pr_TxBytes := pm_TxBytes p\<rparr>) ps (hm_Peers out)\<rparr>"
  by (induction ps arbitrary: out)
    (simp_all add: labelled_samples_def put_all_def use_sample_def sample_counter counter_int64 on_peer_def blank_peer_def [abs_def] Let_def
      del: float_int64.simps)

lemma use_disks:
  "list_all (\<lambda>d. dm_Mount d \<noteq> [] \<and> float_range (dm_PctFull d)) ds \<Longrightarrow>
   fold use_sample (labelled_samples ''wireguard_host_disk_percent'' ''mount'' dm_Mount (\<lambda>d. promFloat (dm_PctFull d)) ds) out =
     out\<lparr>hm_Disks := put_all dr_Mount blank_disk dm_Mount (\<lambda>d r. r\<lparr>dr_PercentFull := Fin (dm_PctFull d)\<rparr>) ds (hm_Disks out)\<rparr>"
proof (induction ds arbitrary: out)
  case (Cons d ds)
  then have s: "sample_float \<lparr>ps_name = n, ps_labels = ls, ps_value = promFloat (dm_PctFull d)\<rparr> = Some (Fin (dm_PctFull d))" for n ls
    using sample_num [of "dm_PctFull d"] by (intro sample_float_make) simp_all
  from Cons show ?case
    by (simp add: labelled_samples_def put_all_def use_sample_def s on_disk_def blank_disk_def [abs_def] Let_def)
qed (simp add: labelled_samples_def put_all_def)

definition peer_view :: "time \<Rightarrow> peer_metric \<Rightarrow> peer_row" where
  "peer_view now pm =
     \<lparr>pr_Name = pm_Name pm, pr_RxBytes = pm_RxBytes pm, pr_TxBytes = pm_TxBytes pm,
      pr_Age = (if is_zero (pm_LastHandshake pm) then None else Some (Fin (peer_age now pm)))\<rparr>"

definition disk_view :: "disk_metric \<Rightarrow> disk_row" where
  "disk_view d = \<lparr>dr_Mount = dm_Mount d, dr_PercentFull = Fin (dm_PctFull d)\<rparr>"

text \<open>
  The samples whose reading is exact: names and mounts present and distinct, counters below
  \<open>2 ^ 53\<close>, percentages that are numbers of the format.
\<close>

definition snapshot_ok :: "metrics_snapshot \<Rightarrow> bool" where
  "snapshot_ok snap \<longleftrightarrow>
     distinct (map pm_Name (ms_Peers snap)) \<and> distinct (map dm_Mount (ms_Disks snap)) \<and>
     list_all (\<lambda>p. pm_Name p \<noteq> [] \<and> counter (pm_RxBytes p) \<and> counter (pm_TxBytes p)) (ms_Peers snap) \<and>
     list_all (\<lambda>d. dm_Mount d \<noteq> [] \<and> float_range (dm_PctFull d)) (ms_Disks snap) \<and>
     counter (int (ms_PeersTotal snap)) \<and> counter (int (ms_PeersOnline snap)) \<and>
     (ms_CPUKnown snap \<longrightarrow> float_range (ms_CPUPercent snap)) \<and> (ms_MemKnown snap \<longrightarrow> float_range (ms_MemPercent snap))"

lemma map_filter_append: "List.map_filter f (xs @ ys) = List.map_filter f xs @ List.map_filter f ys"
  by (induction xs) (auto split: option.splits)

lemma header_samples: "List.map_filter line_sample (promHeader n t h) = []"
  by (simp add: promHeader_def)

lemma labelled_lines: "List.map_filter line_sample (map (\<lambda>p. Labelled metric [(label, name p)] (val p)) ps) =
    labelled_samples metric label name val ps"
  by (induction ps) (simp_all add: labelled_samples_def)

lemma header_ok: "name_text n \<Longrightarrow> word_text t \<Longrightarrow> list_all prom_ok (promHeader n t h)"
  by (simp add: promHeader_def name_text_def word_one_line)

lemma metric_lines_ok:
  assumes "snapshot_ok snap"
  shows "list_all prom_ok (metric_lines snap now active version sha)"
proof -
  have names: "name_text ''wireguard_service_active''" "name_text ''wireguard_peers_total''" "name_text ''wireguard_peers_online''"
    "name_text ''wireguard_peer_last_handshake_age_seconds''" "name_text ''wireguard_peer_rx_bytes_total''"
    "name_text ''wireguard_peer_tx_bytes_total''" "name_text ''wireguard_host_cpu_percent''"
    "name_text ''wireguard_host_memory_percent''" "name_text ''wireguard_host_disk_percent''" "name_text ''wireguard_active_alerts''"
    "name_text ''wireguard_build_info''"
    by code_simp+
  have words: "word_text ''peer''" "word_text ''mount''" "word_text ''version''" "word_text ''sha''" "word_text ''gauge''"
    "word_text ''counter''" "word_text ''1''"
    by code_simp+
  have c: "counter n \<Longrightarrow> word_text (itoa n)" for n by (intro itoa_word) (simp add: counter_def)
  have z: "word_text (itoa (int n))" "word_text (itoa 0)" "word_text (itoa 1)" for n by (rule itoa_word; simp)+
  have ages: "list_all prom_ok (age_lines now ps)" for ps
    by (auto simp: age_lines_def list_all_iff names words intro!: float_word age_range)
  have rx: "list_all prom_ok (map (\<lambda>pm. Labelled ''wireguard_peer_rx_bytes_total'' [(''peer'', pm_Name pm)] (itoa (pm_RxBytes pm))) (ms_Peers snap))"
    and tx: "list_all prom_ok (map (\<lambda>pm. Labelled ''wireguard_peer_tx_bytes_total'' [(''peer'', pm_Name pm)] (itoa (pm_TxBytes pm))) (ms_Peers snap))"
    and ds: "list_all prom_ok (map (\<lambda>d. Labelled ''wireguard_host_disk_percent'' [(''mount'', dm_Mount d)] (promFloat (dm_PctFull d))) (ms_Disks snap))"
    using assms by (auto simp: snapshot_ok_def list_all_iff names words intro!: float_word c)
  have cpu: "ms_CPUKnown snap \<Longrightarrow> word_text (promFloat (ms_CPUPercent snap))"
    and mem: "ms_MemKnown snap \<Longrightarrow> word_text (promFloat (ms_MemPercent snap))"
    using assms by (auto simp: snapshot_ok_def intro: float_word)
  show ?thesis
    unfolding metric_lines_def
    by (simp add: header_ok names words ages rx tx ds z cpu mem)
qed

lemma metric_samples:
  "List.map_filter line_sample (metric_lines snap now active version sha) =
     (if ms_ServiceKnown snap then
        [\<lparr>ps_name = ''wireguard_service_active'', ps_labels = [], ps_value = itoa (if ms_ServiceActive snap then 1 else 0)\<rparr>] else []) @
     [\<lparr>ps_name = ''wireguard_peers_total'', ps_labels = [], ps_value = itoa (int (ms_PeersTotal snap))\<rparr>,
      \<lparr>ps_name = ''wireguard_peers_online'', ps_labels = [], ps_value = itoa (int (ms_PeersOnline snap))\<rparr>] @
     labelled_samples ''wireguard_peer_last_handshake_age_seconds'' ''peer'' pm_Name (\<lambda>p. promFloat (peer_age now p))
       (filter (\<lambda>pm. \<not> is_zero (pm_LastHandshake pm)) (ms_Peers snap)) @
     labelled_samples ''wireguard_peer_rx_bytes_total'' ''peer'' pm_Name (\<lambda>p. itoa (pm_RxBytes p)) (ms_Peers snap) @
     labelled_samples ''wireguard_peer_tx_bytes_total'' ''peer'' pm_Name (\<lambda>p. itoa (pm_TxBytes p)) (ms_Peers snap) @
     (if ms_CPUKnown snap then
        [\<lparr>ps_name = ''wireguard_host_cpu_percent'', ps_labels = [], ps_value = promFloat (ms_CPUPercent snap)\<rparr>] else []) @
     (if ms_MemKnown snap then
        [\<lparr>ps_name = ''wireguard_host_memory_percent'', ps_labels = [], ps_value = promFloat (ms_MemPercent snap)\<rparr>] else []) @
     labelled_samples ''wireguard_host_disk_percent'' ''mount'' dm_Mount (\<lambda>d. promFloat (dm_PctFull d)) (ms_Disks snap) @
     [\<lparr>ps_name = ''wireguard_active_alerts'', ps_labels = [], ps_value = itoa (int active)\<rparr>,
      \<lparr>ps_name = ''wireguard_build_info'', ps_labels = [(''version'', version), (''sha'', sha)], ps_value = ''1''\<rparr>]"
  unfolding metric_lines_def age_lines_def map_filter_append header_samples labelled_lines
  by (simp add: map_filter_append header_samples del: itoa_def)

text \<open>The rows of the peers after the three families, and those of the disks.\<close>

lemma find_filter_unique:
  assumes "distinct (map f xs)"
  shows "find (\<lambda>x. f x = m) (filter P xs) =
    (case find (\<lambda>x. f x = m) xs of None \<Rightarrow> None | Some x \<Rightarrow> if P x then Some x else None)"
  using assms
proof (induction xs)
  case (Cons x xs)
  have "find (\<lambda>x. f x = m) (filter P xs) = None" if "f x = m"
    using Cons.prems that by (auto simp: find_None_iff) (metis image_eqI)
  with Cons show ?case by auto
qed simp

lemma peers_read:
  assumes "distinct (map pm_Name ps)"
  shows "sort_key pr_Name (put_all pr_Name blank_peer pm_Name (\<lambda>p r. r\<lparr>pr_TxBytes := pm_TxBytes p\<rparr>) ps
      (put_all pr_Name blank_peer pm_Name (\<lambda>p r. r\<lparr>pr_RxBytes := pm_RxBytes p\<rparr>) ps
        (put_all pr_Name blank_peer pm_Name (\<lambda>p r. r\<lparr>pr_Age := Some (Fin (peer_age now p))\<rparr>)
          (filter (\<lambda>pm. \<not> is_zero (pm_LastHandshake pm)) ps) []))) =
    sort_key pr_Name (map (peer_view now) ps)" (is "sort_key pr_Name ?rows = _")
proof (rule sort_by_lookup)
  have k: "pr_Name (blank_peer n) = n" for n by (simp add: blank_peer_def)
  show "distinct (map pr_Name ?rows)" by (intro distinct_put_all) (simp_all add: k)
  have v: "pr_Name (peer_view now p) = pm_Name p" for p by (simp add: peer_view_def)
  then show "distinct (map pr_Name (map (peer_view now) ps))" using assms by (simp add: comp_def)
  fix m
  have fm: "find (\<lambda>r. pr_Name r = m) (map (peer_view now) ps) = map_option (peer_view now) (find (\<lambda>p. pm_Name p = m) ps)"
    by (induction ps) (simp_all add: v)
  have d: "distinct (map pm_Name (filter (\<lambda>pm. \<not> is_zero (pm_LastHandshake pm)) ps))" using assms by (rule distinct_map_filter)
  note ff = find_filter_unique [OF assms]
  show "find (\<lambda>r. pr_Name r = m) ?rows = find (\<lambda>r. pr_Name r = m) (map (peer_view now) ps)"
    unfolding fm
    by (cases "find (\<lambda>p. pm_Name p = m) ps")
      (auto simp: find_put_all assms d ff k blank_peer_def peer_view_def dest: find_SomeD)
qed

lemma disks_read:
  assumes "distinct (map dm_Mount ds)"
  shows "sort_key dr_Mount (put_all dr_Mount blank_disk dm_Mount (\<lambda>d r. r\<lparr>dr_PercentFull := Fin (dm_PctFull d)\<rparr>) ds []) =
    sort_key dr_Mount (map disk_view ds)" (is "sort_key dr_Mount ?rows = _")
proof (rule sort_by_lookup)
  have k: "dr_Mount (blank_disk n) = n" for n by (simp add: blank_disk_def)
  show "distinct (map dr_Mount ?rows)" by (intro distinct_put_all) (simp_all add: k)
  have v: "dr_Mount (disk_view p) = dm_Mount p" for p by (simp add: disk_view_def)
  then show "distinct (map dr_Mount (map disk_view ds))" using assms by (simp add: comp_def)
  fix m
  have fm: "find (\<lambda>r. dr_Mount r = m) (map disk_view ds) = map_option disk_view (find (\<lambda>p. dm_Mount p = m) ds)"
    by (induction ds) (simp_all add: v)
  show "find (\<lambda>r. dr_Mount r = m) ?rows = find (\<lambda>r. dr_Mount r = m) (map disk_view ds)"
    unfolding fm
    by (cases "find (\<lambda>p. dm_Mount p = m) ds") (auto simp: find_put_all assms k blank_disk_def disk_view_def dest: find_SomeD)
qed

lemma use_number:
  assumes "sample_float s = Some v"
  shows "ps_name s = ''wireguard_service_active'' \<Longrightarrow> use_sample s out = out\<lparr>hm_ServiceActive := Some (v \<noteq> Fin 0)\<rparr>"
    "ps_name s = ''wireguard_peers_total'' \<Longrightarrow> use_sample s out = out\<lparr>hm_PeersTotal := float_int64 v\<rparr>"
    "ps_name s = ''wireguard_peers_online'' \<Longrightarrow> use_sample s out = out\<lparr>hm_PeersOnline := float_int64 v\<rparr>"
    "ps_name s = ''wireguard_host_cpu_percent'' \<Longrightarrow> use_sample s out = out\<lparr>hm_CPUPercent := Some v\<rparr>"
    "ps_name s = ''wireguard_host_memory_percent'' \<Longrightarrow> use_sample s out = out\<lparr>hm_MemoryPercent := Some v\<rparr>"
    "ps_name s = ''wireguard_active_alerts'' \<Longrightarrow> use_sample s out = out\<lparr>hm_ActiveAlerts := float_int64 v\<rparr>"
  using assms by (simp_all add: use_sample_def Let_def)

lemma use_build:
  "use_sample \<lparr>ps_name = ''wireguard_build_info'', ps_labels = [(''version'', version), (''sha'', sha)], ps_value = w\<rparr> out =
     out\<lparr>hm_BuildVersion := version, hm_BuildSHA := sha\<rparr>"
  by (simp add: use_sample_def Let_def label_of_def)

lemma sample_percent:
  assumes "float_range v"
  shows "sample_float \<lparr>ps_name = n, ps_labels = ls, ps_value = promFloat v\<rparr> = Some (Fin v)"
  using sample_num [OF assms] by (rule sample_float_make)

lemma counter_nat: "float_int64 (Fin (of_nat m)) = int m" if "counter (int m)"
  using counter_int64 [OF that] by simp

lemma counter_small: "counter 0" "counter 1"
  by (simp_all add: counter_def)

lemma use_metrics:
  assumes ok: "snapshot_ok snap" and act: "counter (int active)"
  shows "fold use_sample (List.map_filter line_sample (metric_lines snap now active version sha)) (blank_metrics text) =
    \<lparr>hm_ServiceActive = (if ms_ServiceKnown snap then Some (ms_ServiceActive snap) else None),
     hm_PeersTotal = int (ms_PeersTotal snap), hm_PeersOnline = int (ms_PeersOnline snap),
     hm_Peers = put_all pr_Name blank_peer pm_Name (\<lambda>p r. r\<lparr>pr_TxBytes := pm_TxBytes p\<rparr>) (ms_Peers snap)
        (put_all pr_Name blank_peer pm_Name (\<lambda>p r. r\<lparr>pr_RxBytes := pm_RxBytes p\<rparr>) (ms_Peers snap)
          (put_all pr_Name blank_peer pm_Name (\<lambda>p r. r\<lparr>pr_Age := Some (Fin (peer_age now p))\<rparr>)
            (filter (\<lambda>pm. \<not> is_zero (pm_LastHandshake pm)) (ms_Peers snap)) [])),
     hm_CPUPercent = (if ms_CPUKnown snap then Some (Fin (ms_CPUPercent snap)) else None),
     hm_MemoryPercent = (if ms_MemKnown snap then Some (Fin (ms_MemPercent snap)) else None),
     hm_Disks = put_all dr_Mount blank_disk dm_Mount (\<lambda>d r. r\<lparr>dr_PercentFull := Fin (dm_PctFull d)\<rparr>) (ms_Disks snap) [],
     hm_ActiveAlerts = int active, hm_BuildVersion = version, hm_BuildSHA = sha, hm_Raw = text\<rparr>"
proof -
  have a: "list_all (\<lambda>p. pm_Name p \<noteq> []) (filter (\<lambda>pm. \<not> is_zero (pm_LastHandshake pm)) (ms_Peers snap))"
    and r: "list_all (\<lambda>p. pm_Name p \<noteq> [] \<and> counter (pm_RxBytes p)) (ms_Peers snap)"
    and t: "list_all (\<lambda>p. pm_Name p \<noteq> [] \<and> counter (pm_TxBytes p)) (ms_Peers snap)"
    and d: "list_all (\<lambda>d. dm_Mount d \<noteq> [] \<and> float_range (dm_PctFull d)) (ms_Disks snap)"
    and n: "counter (int (ms_PeersTotal snap))" "counter (int (ms_PeersOnline snap))"
    using ok by (auto simp: snapshot_ok_def list_all_iff)
  have cpu: "ms_CPUKnown snap \<Longrightarrow> float_range (ms_CPUPercent snap)" and mem: "ms_MemKnown snap \<Longrightarrow> float_range (ms_MemPercent snap)"
    using ok by (simp_all add: snapshot_ok_def)
  show ?thesis
    unfolding metric_samples fold_append comp_apply use_ages [OF a] use_rx [OF r] use_tx [OF t] use_disks [OF d]
    by (simp add: blank_metrics_def use_number(1) [OF sample_counter [OF counter_small(1)]] use_number(1) [OF sample_counter [OF counter_small(2)]]
        use_number(2) [OF sample_counter [OF n(1)]] use_number(3) [OF sample_counter [OF n(2)]]
        use_number(4) [OF sample_percent [OF cpu]] use_number(5) [OF sample_percent [OF mem]]
        use_number(6) [OF sample_counter [OF act]] use_build counter_nat n act del: float_int64.simps)
qed

text \<open>
  C26. The metrics text of the dashboard reads back, in the tool of the other program, as exactly the
  sample it was written from: every known family with its value, every peer and every mount once,
  by name, whatever bytes their labels hold, and no family that was left out.
\<close>

theorem exposition_reads_back:
  assumes "snapshot_ok snap" and "counter (int active)"
  shows "parseHostMetrics (handleGetMetricsProm (Some snap) now active (Some (version, sha))) =
    \<lparr>hm_ServiceActive = (if ms_ServiceKnown snap then Some (ms_ServiceActive snap) else None),
     hm_PeersTotal = int (ms_PeersTotal snap), hm_PeersOnline = int (ms_PeersOnline snap),
     hm_Peers = sort_key pr_Name (map (peer_view now) (ms_Peers snap)),
     hm_CPUPercent = (if ms_CPUKnown snap then Some (Fin (ms_CPUPercent snap)) else None),
     hm_MemoryPercent = (if ms_MemKnown snap then Some (Fin (ms_MemPercent snap)) else None),
     hm_Disks = sort_key dr_Mount (map disk_view (ms_Disks snap)),
     hm_ActiveAlerts = int active, hm_BuildVersion = version, hm_BuildSHA = sha,
     hm_Raw = handleGetMetricsProm (Some snap) now active (Some (version, sha))\<rparr>"
proof -
  have t: "handleGetMetricsProm (Some snap) now active (Some (version, sha)) =
      concat (map (\<lambda>l. print_line l @ [nl]) (metric_lines snap now active version sha))"
    by (simp add: handleGetMetricsProm_def)
  have "distinct (map pm_Name (ms_Peers snap))" "distinct (map dm_Mount (ms_Disks snap))"
    using assms(1) by (simp_all add: snapshot_ok_def)
  note p = peers_read [OF this(1)] and d = disks_read [OF this(2)]
  show ?thesis
    unfolding parseHostMetrics_def t prom.read_text [OF metric_lines_ok [OF assms(1)]] use_metrics [OF assms] Let_def
    by (simp add: p d)
qed

definition quoted_peer :: metrics_snapshot where
  "quoted_peer = empty_metrics\<lparr>ms_PeersTotal := 1, ms_PeersOnline := 1, ms_CPUKnown := True, ms_CPUPercent := 25 / 2,
     ms_Peers := [\<lparr>pm_Name = [dquote, backslash, nl], pm_LastHandshake = 0, pm_RxBytes = 5, pm_TxBytes = 7\<rparr>]\<rparr>"

theorem exposition_reads_back_witness:
  "let m = parseHostMetrics (handleGetMetricsProm (Some quoted_peer) second 0 (Some (''v1'', ''abc'')))
   in map pr_Name (hm_Peers m) = [[dquote, backslash, nl]] \<and> hm_CPUPercent m = Some (Fin (25 / 2)) \<and> hm_BuildSHA m = ''abc''"
proof -
  have "fl (25 / 2) = 25 / 2" by code_simp
  then have "snapshot_ok quoted_peer"
    by (simp add: snapshot_ok_def quoted_peer_def empty_metrics_def counter_def float_range_def float_top_def)
  from exposition_reads_back [OF this, of 0 second "''v1''" "''abc''"] show ?thesis
    by (simp add: counter_def Let_def) (simp add: quoted_peer_def empty_metrics_def peer_view_def)
qed

end
