(* ===== verification/Proc.thy ===== *)
theory Proc
  imports PromText
begin

text \<open>
  The readers of the host (\<^verbatim>\<open>internal/proc/proc.go\<close>, \<^verbatim>\<open>internal/netdev/netdev.go\<close> and
  \<^verbatim>\<open>internal/disk/disk.go\<close>): the files of \<^verbatim>\<open>/proc\<close> and \<^verbatim>\<open>/sys\<close> are a function from
  paths to contents or an error, since one sample reads each of them once; the clock and
  \<^verbatim>\<open>statfs\<close> are parameters. The jiffies are 64-bit words, whose sums and differences wrap.
\<close>

subsection \<open>bufio.Scanner\<close>

text \<open>
  The lines a scanner gives and whether it stopped at a line that does not fit its buffer of 64 KiB.
  A carriage return at the end of a line is dropped, and the text after the last newline is a line
  only if there is any.
\<close>

definition max_token :: nat where "max_token = 65536"

definition drop_cr :: "string \<Rightarrow> string" where
  "drop_cr l = (if l \<noteq> [] \<and> last l = CHR 0x0D then butlast l else l)"

definition scan_lines :: "string \<Rightarrow> string list \<times> bool" where
  "scan_lines data =
     (let ls = split_on nl data;
          ls' = (if last ls = [] then butlast ls else ls);
          ok = takeWhile (\<lambda>l. length l < max_token) ls'
      in (map drop_cr ok, length ok < length ls'))"

subsection \<open>The sampler of /proc\<close>

type_synonym file_reader = "string \<Rightarrow> string + string"

datatype host_error =
    ReadFailed string string
  | ScanFailed string
  | CpuShort string nat
  | CpuField string nat string
  | NoCpuLine string
  | MemParse string string
  | MemMissing string string
  | MemTotalZero
  | UptimeMissing string
  | UptimeParse string string
  | CounterParse string string

definition DefaultIface :: string where "DefaultIface = ''wg0''"

record stats = proc_stats +
  st_MemTotalKB :: int
  st_MemUsedKB :: int
  st_HostUptime :: duration
  st_WgRxRateBps :: int
  st_WgTxRateBps :: int

record prior_sample =
  pr_when :: time
  pr_cpuTotal :: "64 word"
  pr_cpuIdle :: "64 word"
  pr_rxBytes :: int
  pr_txBytes :: int

record proc_service =
  ProcPath :: string
  SysPath :: string
  ProcIface :: string
  prior :: prior_sample

definition proc_New :: proc_service where
  "proc_New = \<lparr>ProcPath = ''/proc'', SysPath = ''/sys'', ProcIface = DefaultIface,
     prior = \<lparr>pr_when = zero_time, pr_cpuTotal = 0, pr_cpuIdle = 0, pr_rxBytes = 0, pr_txBytes = 0\<rparr>\<rparr>"

definition parse_u64 :: "string \<Rightarrow> 64 word option" where
  "parse_u64 s = (case parse_uint s of None \<Rightarrow> None | Some n \<Rightarrow> if n < 2 ^ 64 then Some (word_of_nat n) else None)"

text \<open>The columns of the aggregate line from index \<open>i\<close> on, added to what came before.\<close>

fun cpu_columns :: "string \<Rightarrow> nat \<Rightarrow> string list \<Rightarrow> 64 word \<times> 64 word \<times> 64 word \<Rightarrow> host_error + 64 word \<times> 64 word" where
  "cpu_columns path i [] (tot, idle, iowait) = Inr (tot, idle + iowait)"
| "cpu_columns path i (raw # rest) (tot, idle, iowait) =
     (case parse_u64 raw of
        None \<Rightarrow> Inl (CpuField path i raw)
      | Some v \<Rightarrow>
          cpu_columns path (Suc i) rest
            (tot + v, if i = 3 then v else idle, if i = 4 then v else iowait))"

fun cpu_lines :: "string \<Rightarrow> string list \<Rightarrow> bool \<Rightarrow> host_error + 64 word \<times> 64 word" where
  "cpu_lines path [] failed = Inl (if failed then ScanFailed path else NoCpuLine path)"
| "cpu_lines path (line # rest) failed =
     (if \<not> has_prefix ''cpu '' line then cpu_lines path rest failed
      else (let cols = str_fields line
            in if length cols < 5 then Inl (CpuShort path (length cols))
               else cpu_columns path 0 (tl cols) (0, 0, 0)))"

definition readCPU :: "file_reader \<Rightarrow> proc_service \<Rightarrow> host_error + 64 word \<times> 64 word" where
  "readCPU rd s =
     (let path = ProcPath s @ ''/stat''
      in case rd path of
           Inl e \<Rightarrow> Inl (ReadFailed path e)
         | Inr data \<Rightarrow> (case scan_lines data of (lines, failed) \<Rightarrow> cpu_lines path lines failed))"

definition parseMeminfoKB :: "string \<Rightarrow> int option" where
  "parseMeminfoKB value = (case str_fields value of [] \<Rightarrow> None | f # fs \<Rightarrow> parse_int64 f)"

fun mem_lines :: "string \<Rightarrow> string list \<Rightarrow> bool \<Rightarrow> int option \<Rightarrow> int option \<Rightarrow> host_error + int \<times> int" where
  "mem_lines path [] failed tot avail =
     (if failed then Inl (ScanFailed path)
      else (case tot of None \<Rightarrow> Inl (MemMissing path ''MemTotal'')
            | Some t \<Rightarrow> (case avail of None \<Rightarrow> Inl (MemMissing path ''MemAvailable'') | Some a \<Rightarrow> Inr (t, a))))"
| "mem_lines path (line # rest) failed tot avail =
     (case cut_byte CHR '':'' line of
        None \<Rightarrow> mem_lines path rest failed tot avail
      | Some (key, v) \<Rightarrow>
          (let next = (\<lambda>t a. case (t, a) of (Some t', Some a') \<Rightarrow> Inr (t', a') | _ \<Rightarrow> mem_lines path rest failed t a)
           in if key = ''MemTotal'' then
                (case parseMeminfoKB v of None \<Rightarrow> Inl (MemParse path key) | Some n \<Rightarrow> next (Some n) avail)
              else if key = ''MemAvailable'' then
                (case parseMeminfoKB v of None \<Rightarrow> Inl (MemParse path key) | Some n \<Rightarrow> next tot (Some n))
              else next tot avail))"

definition readMem :: "file_reader \<Rightarrow> proc_service \<Rightarrow> host_error + int \<times> int" where
  "readMem rd s =
     (let path = ProcPath s @ ''/meminfo''
      in case rd path of
           Inl e \<Rightarrow> Inl (ReadFailed path e)
         | Inr data \<Rightarrow> (case scan_lines data of (lines, failed) \<Rightarrow> mem_lines path lines failed None None))"

text \<open>A float times a finite positive constant, as a number of nanoseconds.\<close>

fun float_seconds :: "gofloat \<Rightarrow> duration" where
  "float_seconds (Fin r) = float_int64 (Fin (fl (r * of_int second)))"
| "float_seconds x = float_int64 x"

definition readUptime :: "file_reader \<Rightarrow> proc_service \<Rightarrow> host_error + duration" where
  "readUptime rd s =
     (let path = ProcPath s @ ''/uptime''
      in case rd path of
           Inl e \<Rightarrow> Inl (ReadFailed path e)
         | Inr data \<Rightarrow>
             (case str_fields data of
                [] \<Rightarrow> Inl (UptimeMissing path)
              | f # fs \<Rightarrow>
                  (case parse_float f of None \<Rightarrow> Inl (UptimeParse path f) | Some secs \<Rightarrow> Inr (float_seconds secs))))"

definition readIfaceCounter :: "file_reader \<Rightarrow> proc_service \<Rightarrow> string \<Rightarrow> host_error + int" where
  "readIfaceCounter rd s name =
     (let path = SysPath s @ ''/class/net/'' @ ProcIface s @ ''/statistics/'' @ name
      in case rd path of
           Inl e \<Rightarrow> Inl (ReadFailed path e)
         | Inr data \<Rightarrow>
             (let raw = trim_space data
              in case parse_int64 raw of None \<Rightarrow> Inl (CounterParse path raw) | Some v \<Rightarrow> Inr v))"

text \<open>The quotient of two 64-bit integers as a percentage.\<close>

definition percent_of :: "int \<Rightarrow> int \<Rightarrow> rat" where
  "percent_of a b = fl (fl (fl (of_int a) / fl (of_int b)) * 100)"

definition cpu_percent :: "64 word \<Rightarrow> 64 word \<Rightarrow> rat" where
  "cpu_percent tot idle =
     (if 0 < tot
      then (let p = fl (100 * fl (1 - fl (fl (of_nat (unat idle)) / fl (of_nat (unat tot)))))
            in if p < 0 then 0 else if p > 100 then 100 else p)
      else 0)"

definition byte_rate :: "int \<Rightarrow> rat \<Rightarrow> int" where
  "byte_rate d dt = (if d > 0 then float_int64 (Fin (fl (fl (of_int d) / dt))) else 0)"

definition derive_stats :: "prior_sample \<Rightarrow> time \<Rightarrow> 64 word \<Rightarrow> 64 word \<Rightarrow> int \<Rightarrow> int \<Rightarrow> duration \<Rightarrow> int \<Rightarrow> int \<Rightarrow> stats" where
  "derive_stats p now tot idle memTotal memAvail uptime rx tx =
     (let first = is_zero (pr_when p);
          used = i64 (memTotal - memAvail);
          dt = in_units second (time_sub now (pr_when p))
      in \<lparr>st_CPUPercent = if first then 0 else cpu_percent (tot - pr_cpuTotal p) (idle - pr_cpuIdle p),
          st_MemUsedPercent = percent_of used memTotal,
          st_WgRxBytesCum = rx, st_WgTxBytesCum = tx,
          st_MemTotalKB = memTotal, st_MemUsedKB = used, st_HostUptime = uptime,
          st_WgRxRateBps = if first \<or> \<not> dt > 0 then 0 else byte_rate (i64 (rx - pr_rxBytes p)) dt,
          st_WgTxRateBps = if first \<or> \<not> dt > 0 then 0 else byte_rate (i64 (tx - pr_txBytes p)) dt\<rparr>)"

definition proc_Sample :: "file_reader \<Rightarrow> time \<Rightarrow> proc_service \<Rightarrow> (host_error + stats) \<times> proc_service" where
  "proc_Sample rd now s =
     (case readCPU rd s of Inl e \<Rightarrow> (Inl e, s) | Inr (tot, idle) \<Rightarrow>
      (case readMem rd s of Inl e \<Rightarrow> (Inl e, s) | Inr (memTotal, memAvail) \<Rightarrow>
       (if memTotal = 0 then (Inl MemTotalZero, s)
        else (case readUptime rd s of Inl e \<Rightarrow> (Inl e, s) | Inr uptime \<Rightarrow>
         (case readIfaceCounter rd s ''rx_bytes'' of Inl e \<Rightarrow> (Inl e, s) | Inr rx \<Rightarrow>
          (case readIfaceCounter rd s ''tx_bytes'' of Inl e \<Rightarrow> (Inl e, s) | Inr tx \<Rightarrow>
            (Inr (derive_stats (prior s) now tot idle memTotal memAvail uptime rx tx),
             s\<lparr>prior := \<lparr>pr_when = now, pr_cpuTotal = tot, pr_cpuIdle = idle, pr_rxBytes = rx, pr_txBytes = tx\<rparr>\<rparr>)))))))"

subsection \<open>The counters of the interface\<close>

datatype netdev_error = NetRead string string | NetScan string | NetShort nat | NetField nat | NetMissing string

record netdev_stats =
  nd_Peers :: int
  nd_RxBytes :: int
  nd_TxBytes :: int
  nd_RxPackets :: int
  nd_TxPackets :: int
  nd_RxErrs :: int
  nd_TxErrs :: int
  nd_RxDropped :: int
  nd_TxDropped :: int

definition DefaultNetDevPath :: string where "DefaultNetDevPath = ''/proc/net/dev''"

fun parse_columns :: "string list \<Rightarrow> nat list \<Rightarrow> netdev_error + int list" where
  "parse_columns cols [] = Inr []"
| "parse_columns cols (i # idx) =
     (case parse_int64 (cols ! i) of
        None \<Rightarrow> Inl (NetField i)
      | Some v \<Rightarrow> (case parse_columns cols idx of Inl e \<Rightarrow> Inl e | Inr vs \<Rightarrow> Inr (v # vs)))"

definition netdev_row :: "string list \<Rightarrow> netdev_error + netdev_stats" where
  "netdev_row cols =
     (if length cols < 16 then Inl (NetShort (length cols))
      else (case parse_columns cols [0, 1, 2, 3, 8, 9, 10, 11] of
              Inl e \<Rightarrow> Inl e
            | Inr vals \<Rightarrow>
                Inr \<lparr>nd_Peers = 0, nd_RxBytes = vals ! 0, nd_TxBytes = vals ! 4, nd_RxPackets = vals ! 1, nd_TxPackets = vals ! 5,
                     nd_RxErrs = vals ! 2, nd_TxErrs = vals ! 6, nd_RxDropped = vals ! 3, nd_TxDropped = vals ! 7\<rparr>))"

fun netdev_lines :: "string \<Rightarrow> string \<Rightarrow> string list \<Rightarrow> bool \<Rightarrow> netdev_error + netdev_stats" where
  "netdev_lines path iface [] failed = Inl (if failed then NetScan path else NetMissing iface)"
| "netdev_lines path iface (line # rest) failed =
     (case cut_byte CHR '':'' line of
        None \<Rightarrow> netdev_lines path iface rest failed
      | Some (before, after) \<Rightarrow>
          if trim_space before \<noteq> iface then netdev_lines path iface rest failed
          else netdev_row (str_fields after))"

text \<open>The peer counter is optional, and its failure is only logged.\<close>

definition netdev_Sample :: "file_reader \<Rightarrow> (string + int) option \<Rightarrow> string \<Rightarrow> string \<Rightarrow> netdev_error + netdev_stats" where
  "netdev_Sample rd peers path iface =
     (case rd path of
        Inl e \<Rightarrow> Inl (NetRead path e)
      | Inr data \<Rightarrow>
          (case scan_lines data of
             (lines, failed) \<Rightarrow>
               (case netdev_lines path iface (drop 2 lines) failed of
                  Inl e \<Rightarrow> Inl e
                | Inr st \<Rightarrow> (case peers of Some (Inr n) \<Rightarrow> Inr (st\<lparr>nd_Peers := n\<rparr>) | _ \<Rightarrow> Inr st))))"

subsection \<open>The disk usage\<close>

record statfs =
  f_Bsize :: int
  f_Blocks :: int
  f_Bavail :: int

record mount =
  mt_Path :: string
  mt_FsType :: string
  mt_Used :: int
  mt_Total :: int
  mt_PctFull :: rat

definition DefaultMountsPath :: string where "DefaultMountsPath = ''/proc/mounts''"

definition isPseudo :: "string \<Rightarrow> bool" where
  "isPseudo fstype \<longleftrightarrow>
     fstype \<in> set [''tmpfs'', ''devtmpfs'', ''overlay'', ''squashfs'', ''proc'', ''sysfs'', ''debugfs'', ''tracefs'',
       ''securityfs'', ''devpts'', ''pstore'', ''efivarfs'', ''bpf'', ''autofs'', ''hugetlbfs'',
       ''mqueue'', ''configfs'', ''binfmt_misc'', ''fusectl'', ''selinuxfs'', ''nsfs'', ''rpc_pipefs'', ''ramfs''] \<or>
     has_prefix ''cgroup'' fstype"

text \<open>\<^verbatim>\<open>math.Round\<close>: to the nearest integer, halves away from zero.\<close>

definition math_round :: "rat \<Rightarrow> int" where
  "math_round r = (if r < 0 then - \<lfloor>- r + 1 / 2\<rfloor> else \<lfloor>r + 1 / 2\<rfloor>)"

definition one_decimal :: "rat \<Rightarrow> rat" where
  "one_decimal pct = fl (of_int (math_round (fl (pct * 10))) / 10)"

definition mount_row :: "string \<Rightarrow> string \<Rightarrow> statfs \<Rightarrow> mount option" where
  "mount_row path fstype st =
     (let tot = i64 (i64 (f_Blocks st) * f_Bsize st);
          avail = i64 (i64 (f_Bavail st) * f_Bsize st);
          used = i64 (tot - avail)
      in if tot = 0 then None
         else Some \<lparr>mt_Path = path, mt_FsType = fstype, mt_Used = used, mt_Total = tot,
                    mt_PctFull = one_decimal (percent_of used tot)\<rparr>)"

definition mount_of :: "(string \<Rightarrow> string + statfs) \<Rightarrow> string \<Rightarrow> mount option" where
  "mount_of statfs line =
     (let cols = str_fields line
      in if line = [] \<or> length cols < 3 \<or> isPseudo (cols ! 2) then None
         else (case statfs (cols ! 1) of Inl e \<Rightarrow> None | Inr st \<Rightarrow> mount_row (cols ! 1) (cols ! 2) st))"

definition disk_Sample :: "file_reader \<Rightarrow> (string \<Rightarrow> string + statfs) \<Rightarrow> string \<Rightarrow> host_error + mount list" where
  "disk_Sample rd statfs path =
     (case rd path of
        Inl e \<Rightarrow> Inl (ReadFailed path e)
      | Inr data \<Rightarrow>
          (case scan_lines data of
             (lines, failed) \<Rightarrow> if failed then Inl (ScanFailed path) else Inr (List.map_filter (mount_of statfs) lines)))"

definition Threshold :: "rat \<Rightarrow> string" where
  "Threshold pct = (if pct \<ge> 95 then ''red'' else if pct \<ge> 80 then ''amber'' else ''ok'')"

subsection \<open>Reading the text of the kernel\<close>

lemma fields_skip: "str_fields (CHR '' '' # s) = str_fields s"
  by (simp add: str_fields_def fields_from.simps [of _ "CHR '' '' # s"] space_at)

lemma fields_skip_many: "str_fields (replicate n CHR '' '' @ s) = str_fields s"
  by (induction n) (simp_all add: fields_skip)

lemma digits_graph: "list_all graph_char (itoa_nat n)"
  unfolding list_all_iff
proof
  fix c assume "c \<in> set (itoa_nat n)"
  then have "is_digit c" using itoa_nat_digits by blast
  then show "graph_char c" by (simp add: graph_char_def is_digit_def)
qed

lemma fields_numbers:
  "str_fields (join_with '' '' (map itoa_nat ns)) = map itoa_nat ns"
proof (induction ns)
  case Nil
  then show ?case by (simp add: str_fields_def fields_from.simps)
next
  case (Cons n ns)
  then show ?case
    by (cases ns) (simp_all add: str_fields_word str_fields_space digits_graph)
qed

lemma parse_u64_itoa: "n < 2 ^ 64 \<Longrightarrow> parse_u64 (itoa_nat n) = Some (word_of_nat n)"
  by (simp add: parse_u64_def)

lemma parse_int64_nat: "n < 2 ^ 63 \<Longrightarrow> parse_int64 (itoa_nat n) = Some (int n)"
  using parse_int64_itoa [of "int n"] by (simp add: itoa_def in_i64_def)

lemma graph_no_cr: "list_all graph_char w \<Longrightarrow> w \<noteq> [] \<Longrightarrow> last w \<noteq> CHR 0x0D"
  by (induction w) (auto simp: graph_char_def)

lemma scan_first:
  assumes "nl \<notin> set l" and "length l < max_token" and "last l \<noteq> CHR 0x0D"
  shows "\<exists>ls b. scan_lines (l @ nl # tail) = (l # ls, b)"
  using assms by (auto simp: scan_lines_def Let_def drop_cr_def)

lemma cpu_columns_sum:
  "list_all (\<lambda>n. n < 2 ^ 64) ns \<Longrightarrow> 5 \<le> i \<Longrightarrow>
   cpu_columns path i (map itoa_nat ns) (t, a, b) = Inr (t + sum_list (map word_of_nat ns), a + b)"
proof (induction ns arbitrary: i t)
  case (Cons n ns)
  then show ?case by (simp add: parse_u64_itoa add.assoc)
qed simp

lemma cpu_columns_read:
  assumes "list_all (\<lambda>n. n < 2 ^ 64) ns" and "5 \<le> length ns"
  shows "cpu_columns path 0 (map itoa_nat ns) (0, 0, 0) =
     Inr (sum_list (map word_of_nat ns), word_of_nat (ns ! 3) + word_of_nat (ns ! 4))"
proof -
  obtain a b c d e r where ns: "ns = a # b # c # d # e # r"
    using assms(2) by (auto simp: Suc_le_length_iff eval_nat_numeral)
  show ?thesis using assms(1) unfolding ns
    by (simp add: parse_u64_itoa cpu_columns_sum add.assoc)
qed

lemma trim_number: "trim_space (itoa_nat n @ [nl]) = itoa_nat n"
proof -
  obtain c t where ct: "itoa_nat n = c # t" by (cases "itoa_nat n") auto
  have g: "list_all graph_char (itoa_nat n)" by (rule digits_graph)
  obtain d u where du: "rev (itoa_nat n) = d # u" by (cases "rev (itoa_nat n)") auto
  then have "d \<in> set (itoa_nat n)" by (metis list.set_intros(1) set_rev)
  with g ct have gc: "graph_char c" "graph_char d" by (auto simp: list_all_iff)
  have one: "\<forall>w \<in> set (map rev space_encodings). nl \<in> set w \<longrightarrow> w = [nl]" and mem: "[nl] \<in> set (map rev space_encodings)"
    by code_simp+
  have "find (\<lambda>w. w \<noteq> [] \<and> has_prefix w (nl # s)) (map rev space_encodings) \<noteq> None" for s
    using mem by (auto simp: find_None_iff intro!: bexI [OF _ mem])
  then obtain w where w: "find (\<lambda>w. w \<noteq> [] \<and> has_prefix w (nl # rev (itoa_nat n))) (map rev space_encodings) = Some w" by blast
  then have "w \<in> set (map rev space_encodings)" "w \<noteq> []" "has_prefix w (nl # rev (itoa_nat n))" by (auto dest: find_SomeD)
  moreover have "nl \<in> set w" using \<open>w \<noteq> []\<close> \<open>has_prefix w _\<close> by (cases w) simp_all
  ultimately have "w = [nl]" using one by blast
  with w have "trim_left (map rev space_encodings) (nl # rev (itoa_nat n)) = trim_left (map rev space_encodings) (rev (itoa_nat n))"
    by (subst trim_left.simps) simp
  also have "\<dots> = rev (itoa_nat n)" using du gc by (simp add: trim_left_rev_graph)
  finally show ?thesis unfolding trim_space_def using ct gc by (simp add: trim_left_graph)
qed

subsection \<open>The percentages\<close>

definition float_eps :: rat where "float_eps = 1 / 2 ^ 53"

lemma fl_eps: "\<bar>x\<bar> \<le> c \<Longrightarrow> \<bar>fl x - x\<bar> \<le> c * float_eps"
  using fl_near [of x] by (simp add: float_eps_def)

lemma float_eps_small: "0 < float_eps" "1000 * float_eps \<le> 1" "4000 * float_eps \<le> 1 / 10 ^ 9"
  by (simp_all add: float_eps_def)

text \<open>The rounded quotient of two counters is the quotient to about fifty bits.\<close>

lemma fl_quotient:
  assumes "0 \<le> a" and "a \<le> b" and "0 < b"
  shows "\<bar>fl (fl a / fl b) - a / b\<bar> \<le> 6 * float_eps"
proof -
  have A: "\<bar>fl a - a\<bar> \<le> a * float_eps" and B: "\<bar>fl b - b\<bar> \<le> b * float_eps"
    using fl_eps [of a a] fl_eps [of b b] assms by simp_all
  have bl: "b \<le> 2 * fl b" using fl_half(1) [of b] assms by simp
  then have fb: "0 < fl b" using assms(3) by linarith
  define q where "q = fl a / fl b"
  have "\<bar>fl a * b - a * fl b\<bar> \<le> \<bar>fl a - a\<bar> * b + a * \<bar>fl b - b\<bar>"
  proof -
    have "fl a * b - a * fl b = (fl a - a) * b - a * (fl b - b)" by (simp add: algebra_simps)
    also have "\<bar>\<dots>\<bar> \<le> \<bar>(fl a - a) * b\<bar> + \<bar>a * (fl b - b)\<bar>" by (rule abs_triangle_ineq4)
    finally show ?thesis using assms by (simp add: abs_mult)
  qed
  also have "\<dots> \<le> (a * float_eps) * b + a * (b * float_eps)"
    using A B assms by (intro add_mono mult_right_mono mult_left_mono) simp_all
  also have "\<dots> = 2 * float_eps * b * a" by simp
  also have "\<dots> \<le> 2 * float_eps * b * (2 * fl b)"
    using assms bl float_eps_small(1) by (intro mult_left_mono) simp_all
  finally have d: "\<bar>fl a * b - a * fl b\<bar> \<le> 4 * float_eps * (b * fl b)" by simp
  have "q - a / b = (fl a * b - a * fl b) / (b * fl b)"
    unfolding q_def using fb assms(3) by (simp add: field_simps)
  then have "\<bar>q - a / b\<bar> = \<bar>fl a * b - a * fl b\<bar> / (b * fl b)"
    using fb assms(3) by (simp add: abs_mult)
  also have "\<dots> \<le> 4 * float_eps" using d fb assms(3) by (simp add: pos_divide_le_eq)
  finally have q: "\<bar>q - a / b\<bar> \<le> 4 * float_eps" .
  moreover have "0 \<le> a / b" "a / b \<le> 1" using assms by simp_all
  ultimately have "\<bar>q\<bar> \<le> 2" using float_eps_small by linarith
  from fl_eps [OF this] q show ?thesis unfolding q_def by linarith
qed

lemma cpu_percent_range: "0 \<le> cpu_percent t i" "cpu_percent t i \<le> 100"
  by (simp_all add: cpu_percent_def Let_def)

lemma fl_busy:
  assumes "0 \<le> a" and "a \<le> b" and "0 < b"
  shows "\<bar>fl (100 * fl (1 - fl (fl a / fl b))) - 100 * (1 - a / b)\<bar> \<le> 4000 * float_eps"
proof -
  define x q where "x = a / b" and "q = fl (fl a / fl b)"
  have q: "\<bar>q - x\<bar> \<le> 6 * float_eps" unfolding x_def q_def by (rule fl_quotient [OF assms])
  have m: "0 \<le> x" "x \<le> 1" using assms by (simp_all add: x_def)
  then have "\<bar>1 - q\<bar> \<le> 2" using q float_eps_small by linarith
  from fl_eps [OF this] have y: "\<bar>fl (1 - q) - (1 - q)\<bar> \<le> 2 * float_eps" .
  let ?y = "fl (1 - q)"
  have "\<bar>100 * ?y\<bar> \<le> 300" using m q y float_eps_small by linarith
  from fl_eps [OF this] have z: "\<bar>fl (100 * ?y) - 100 * ?y\<bar> \<le> 300 * float_eps" .
  have "\<bar>?y - (1 - x)\<bar> \<le> 8 * float_eps" using q y by linarith
  moreover have "100 * ?y - 100 * (1 - x) = 100 * (?y - (1 - x))" by (simp add: algebra_simps)
  ultimately have "\<bar>100 * ?y - 100 * (1 - x)\<bar> \<le> 800 * float_eps" by (simp only: abs_mult) simp
  with z have "\<bar>fl (100 * ?y) - 100 * (1 - x)\<bar> \<le> 1100 * float_eps" by linarith
  then have "\<bar>fl (100 * ?y) - 100 * (1 - x)\<bar> \<le> 4000 * float_eps" using float_eps_small(1) by linarith
  then show ?thesis unfolding x_def q_def .
qed

lemma fl_share:
  assumes "0 \<le> a" and "a \<le> b" and "0 < b"
  shows "\<bar>fl (fl (fl a / fl b) * 100) - 100 * (a / b)\<bar> \<le> 4000 * float_eps"
proof -
  define x q where "x = a / b" and "q = fl (fl a / fl b)"
  have q: "\<bar>q - x\<bar> \<le> 6 * float_eps" unfolding x_def q_def by (rule fl_quotient [OF assms])
  have m: "0 \<le> x" "x \<le> 1" using assms by (simp_all add: x_def)
  then have "\<bar>q * 100\<bar> \<le> 200" using q float_eps_small by linarith
  from fl_eps [OF this] have z: "\<bar>fl (q * 100) - q * 100\<bar> \<le> 200 * float_eps" .
  have "\<bar>fl (q * 100) - 100 * x\<bar> \<le> 4000 * float_eps" using q z float_eps_small by linarith
  then show ?thesis unfolding x_def q_def .
qed

lemma cpu_percent_close:
  assumes "0 < t" and "i \<le> t"
  shows "\<bar>cpu_percent t i - 100 * (1 - of_nat (unat i) / of_nat (unat t))\<bar> \<le> 1 / 10 ^ 9"
proof -
  have n: "0 < unat t" "unat i \<le> unat t" using assms by (simp_all add: unat_gt_0 word_le_nat_alt)
  define a b :: rat where "a = of_nat (unat i)" and "b = of_nat (unat t)"
  have r: "0 \<le> a" "a \<le> b" "0 < b" unfolding a_def b_def using n by (simp_all only: of_nat_le_iff of_nat_0_le_iff of_nat_0_less_iff)
  define z where "z = fl (100 * fl (1 - fl (fl a / fl b)))"
  have z: "\<bar>z - 100 * (1 - a / b)\<bar> \<le> 4000 * float_eps" unfolding z_def by (rule fl_busy [OF r])
  define x where "x = 100 * (1 - a / b)"
  have x: "0 \<le> x" "x \<le> 100" unfolding x_def using r by (simp_all add: divide_le_eq)
  have c: "cpu_percent t i = (if z < 0 then 0 else if z > 100 then 100 else z)"
    using assms(1) by (simp add: cpu_percent_def Let_def z_def a_def b_def)
  have "\<bar>(if z < 0 then 0 else if z > 100 then 100 else z) - x\<bar> \<le> 4000 * float_eps"
    using z x unfolding x_def [symmetric] by auto
  then show ?thesis unfolding c x_def a_def b_def using float_eps_small(3) by (rule order_trans)
qed

lemma percent_of_close:
  assumes "0 \<le> a" and "a \<le> b" and "0 < b"
  shows "\<bar>percent_of a b - 100 * (of_int a / of_int b)\<bar> \<le> 1 / 10 ^ 9"
  unfolding percent_of_def by (rule order_trans [OF fl_share float_eps_small(3)]) (use assms in simp_all)

subsection \<open>Sampling a kernel\<close>

text \<open>
  The state of a host as its kernel shows it: the ten columns of the aggregate CPU line, the memory in
  kibibytes, the uptime and idle time in hundredths of a second, and the counters of the interface.
  The rest of \<^verbatim>\<open>/proc/stat\<close> and of \<^verbatim>\<open>/proc/meminfo\<close> is any text.
\<close>

record host_state =
  k_cpu :: "nat list"
  k_stat_rest :: string
  k_memTotal :: nat
  k_memFree :: nat
  k_memAvail :: nat
  k_mem_rest :: string
  k_uptime :: nat
  k_idle :: nat
  k_rx :: nat
  k_tx :: nat

definition mem_row :: "string \<Rightarrow> nat \<Rightarrow> string" where
  "mem_row key n = key @ CHR '':'' # replicate (23 - length key - length (itoa_nat n)) CHR '' '' @ itoa_nat n @ '' kB''"

definition stat_text :: "host_state \<Rightarrow> string" where
  "stat_text h = (''cpu  '' @ join_with '' '' (map itoa_nat (k_cpu h))) @ nl # k_stat_rest h"

definition meminfo_text :: "host_state \<Rightarrow> string" where
  "meminfo_text h =
     mem_row ''MemTotal'' (k_memTotal h) @ nl # mem_row ''MemFree'' (k_memFree h) @ nl #
     mem_row ''MemAvailable'' (k_memAvail h) @ nl # k_mem_rest h"

definition uptime_text :: "host_state \<Rightarrow> string" where
  "uptime_text h = fmt_f (k_uptime h) (-2) @ CHR '' '' # fmt_f (k_idle h) (-2) @ [nl]"

definition kernel_files :: "host_state \<Rightarrow> file_reader" where
  "kernel_files h path =
     (if path = ''/proc/stat'' then Inr (stat_text h)
      else if path = ''/proc/meminfo'' then Inr (meminfo_text h)
      else if path = ''/proc/uptime'' then Inr (uptime_text h)
      else if path = ''/sys/class/net/wg0/statistics/rx_bytes'' then Inr (itoa_nat (k_rx h) @ [nl])
      else if path = ''/sys/class/net/wg0/statistics/tx_bytes'' then Inr (itoa_nat (k_tx h) @ [nl])
      else Inl ''no such file'')"

definition kernel_host :: "host_state \<Rightarrow> bool" where
  "kernel_host h \<longleftrightarrow>
     length (k_cpu h) = 10 \<and> sum_list (k_cpu h) < 2 ^ 64 \<and>
     0 < k_memTotal h \<and> k_memTotal h < 2 ^ 63 \<and> k_memFree h < 2 ^ 63 \<and> k_memAvail h \<le> k_memTotal h \<and>
     k_uptime h < 10 ^ 11 \<and> k_rx h < 2 ^ 63 \<and> k_tx h < 2 ^ 63"

definition idle_jiffies :: "host_state \<Rightarrow> nat" where
  "idle_jiffies h = k_cpu h ! 3 + k_cpu h ! 4"

lemma scan_line:
  assumes "nl \<notin> set l" and "length l < max_token" and "last l \<noteq> CHR 0x0D"
  shows "scan_lines (l @ nl # s) = (l # fst (scan_lines s), snd (scan_lines s))"
  using assms by (auto simp: scan_lines_def Let_def drop_cr_def)

lemma number_no_nl: "nl \<notin> set (itoa_nat n)" "list_all (\<lambda>c. c \<noteq> nl) (itoa_nat n)"
proof -
  show "nl \<notin> set (itoa_nat n)" by (simp add: nl_def is_digit_def)
  then show "list_all (\<lambda>c. c \<noteq> nl) (itoa_nat n)" by (auto simp: list_all_iff)
qed

lemma short_number: "n < 2 ^ 64 \<Longrightarrow> length (itoa_nat n) \<le> 20"
  by (rule itoa_nat_length_le) simp_all

lemma short_join:
  "list_all (\<lambda>n. n < 2 ^ 64) ns \<Longrightarrow> length (join_with '' '' (map itoa_nat ns)) \<le> 21 * length ns"
proof (induction ns)
  case (Cons n ns)
  then show ?case using short_number [of n] by (cases ns) (auto simp: join_with_Cons)
qed simp

lemma join_no_nl: "nl \<notin> set (join_with '' '' (map itoa_nat ns))"
proof (induction ns)
  case (Cons n ns)
  have "nl \<noteq> CHR '' ''" by (simp add: nl_def)
  with Cons show ?case by (cases ns) (simp_all add: number_no_nl(1))
qed simp

lemma last_number: "last (itoa_nat n) \<noteq> CHR 0x0D"
  using graph_no_cr [OF digits_graph [of n]] by simp

lemma last_join: "ns \<noteq> [] \<Longrightarrow> join_with '' '' (map itoa_nat ns) \<noteq> [] \<and> last (join_with '' '' (map itoa_nat ns)) \<noteq> CHR 0x0D"
proof (induction ns)
  case (Cons n ns)
  then show ?case using last_number [of n] by (cases ns) (auto simp: last_append)
qed simp

lemma mem_row_line:
  assumes "n < 2 ^ 63" and "nl \<notin> set key" and "length key \<le> 20"
  shows "nl \<notin> set (mem_row key n)" "length (mem_row key n) < max_token" "last (mem_row key n) \<noteq> CHR 0x0D"
proof -
  have "length (itoa_nat n) \<le> 20" using assms(1) by (intro short_number) simp
  then show "length (mem_row key n) < max_token" using assms(3) by (simp add: mem_row_def max_token_def)
  show "nl \<notin> set (mem_row key n)" using assms(2) number_no_nl(1) [of n] by (auto simp: mem_row_def nl_def)
  show "last (mem_row key n) \<noteq> CHR 0x0D" by (simp add: mem_row_def)
qed

lemma mem_row_cut: "CHR '':'' \<notin> set key \<Longrightarrow> \<exists>v. cut_byte CHR '':'' (mem_row key n) = Some (key, v) \<and> (n < 2 ^ 63 \<longrightarrow> parseMeminfoKB v = Some (int n))"
  by (auto simp: mem_row_def parseMeminfoKB_def fields_skip_many str_fields_space digits_graph parse_int64_nat)


lemma sum_words: "(\<Sum>n\<leftarrow>ns. word_of_nat n) = (word_of_nat (sum_list ns) :: 64 word)"
  by (induction ns) simp_all

lemma scan_mem_row:
  assumes "n < 2 ^ 63" and "nl \<notin> set key" and "length key \<le> 20"
  shows "scan_lines (mem_row key n @ nl # s) = (mem_row key n # fst (scan_lines s), snd (scan_lines s))"
  by (rule scan_line) (use mem_row_line [OF assms] in auto)

lemma cpu_row:
  assumes "kernel_host h"
  defines "l \<equiv> ''cpu  '' @ join_with '' '' (map itoa_nat (k_cpu h))"
  shows "scan_lines (l @ nl # s) = (l # fst (scan_lines s), snd (scan_lines s))" "str_fields l = ''cpu'' # map itoa_nat (k_cpu h)"
    "list_all (\<lambda>n. n < 2 ^ 64) (k_cpu h)" "length (k_cpu h) = 10"
proof -
  have ne: "k_cpu h \<noteq> []" and len: "length (k_cpu h) = 10" using assms(1) by (auto simp: kernel_host_def)
  show small: "list_all (\<lambda>n. n < 2 ^ 64) (k_cpu h)"
    using assms(1) member_le_sum_list [of _ "k_cpu h"] by (fastforce simp: kernel_host_def list_all_iff)
  show "length (k_cpu h) = 10" by (rule len)
  show "scan_lines (l @ nl # s) = (l # fst (scan_lines s), snd (scan_lines s))"
    by (rule scan_line) (use join_no_nl [of "k_cpu h"] short_join [OF small] len last_join [OF ne] in
      \<open>auto simp: l_def nl_def max_token_def last_append\<close>)
  have "list_all graph_char ''cpu''" by (simp add: graph_char_def)
  from str_fields_space [OF this, of "CHR '' '' # join_with '' '' (map itoa_nat (k_cpu h))"]
  show "str_fields l = ''cpu'' # map itoa_nat (k_cpu h)" by (simp add: l_def fields_skip fields_numbers)
qed

lemma readCPU_kernel:
  assumes "kernel_host h" and "ProcPath s = ''/proc''"
  shows "readCPU (kernel_files h) s = Inr (word_of_nat (sum_list (k_cpu h)), word_of_nat (idle_jiffies h))"
proof -
  have w: "(\<Sum>n\<leftarrow>k_cpu h. word_of_nat n) = (word_of_nat (sum_list (k_cpu h)) :: 64 word)"
    by (rule sum_words)
  show ?thesis
    unfolding readCPU_def Let_def assms(2)
    using cpu_columns_read [OF cpu_row(3) [OF assms(1)], of "''/proc/stat''"] cpu_row [OF assms(1)]
    by (simp add: kernel_files_def stat_text_def idle_jiffies_def w)
qed

lemma readMem_kernel:
  assumes "kernel_host h" and "ProcPath s = ''/proc''"
  shows "readMem (kernel_files h) s = Inr (int (k_memTotal h), int (k_memAvail h))"
proof -
  have b: "k_memTotal h < 2 ^ 63" "k_memFree h < 2 ^ 63" "k_memAvail h < 2 ^ 63"
    using assms(1) by (simp_all add: kernel_host_def)
  note line = scan_mem_row
  have n: "nl \<notin> set ''MemTotal''" "nl \<notin> set ''MemFree''" "nl \<notin> set ''MemAvailable''" by (simp_all add: nl_def)
  obtain a f v where c: "cut_byte CHR '':'' (mem_row ''MemTotal'' (k_memTotal h)) = Some (''MemTotal'', a)" "parseMeminfoKB a = Some (int (k_memTotal h))"
    "cut_byte CHR '':'' (mem_row ''MemFree'' (k_memFree h)) = Some (''MemFree'', f)"
    "cut_byte CHR '':'' (mem_row ''MemAvailable'' (k_memAvail h)) = Some (''MemAvailable'', v)" "parseMeminfoKB v = Some (int (k_memAvail h))"
    using mem_row_cut [of "''MemTotal''" "k_memTotal h"] mem_row_cut [of "''MemFree''" "k_memFree h"] mem_row_cut [of "''MemAvailable''" "k_memAvail h"] b
    by auto
  show ?thesis
    unfolding readMem_def Let_def assms(2)
    by (simp add: kernel_files_def meminfo_text_def line [OF b(1) n(1)] line [OF b(2) n(2)] line [OF b(3) n(3)] c split: prod.splits)
qed

lemma readIface_kernel:
  assumes "kernel_host h" and "SysPath s = ''/sys''" and "ProcIface s = ''wg0''"
  shows "readIfaceCounter (kernel_files h) s ''rx_bytes'' = Inr (int (k_rx h))"
    "readIfaceCounter (kernel_files h) s ''tx_bytes'' = Inr (int (k_tx h))"
  using assms by (simp_all add: readIfaceCounter_def kernel_files_def trim_number parse_int64_nat kernel_host_def)

lemma readUptime_kernel:
  assumes "kernel_host h" and "ProcPath s = ''/proc''"
  shows "readUptime (kernel_files h) s = Inr (float_seconds (Fin (fl (of_nat (k_uptime h) / 100))))"
proof -
  have g: "list_all graph_char (fmt_f (k_uptime h) (-2))"
    using fmt_f_num [of "k_uptime h" "-2"] by (auto simp: list_all_iff num_char_def graph_char_def is_digit_def)
  have p: "of_nat (k_uptime h) * 10 powi (-2) = (of_nat (k_uptime h) / 100 :: rat)" by simp
  have "k_uptime h < 10 ^ 11" using assms(1) by (simp add: kernel_host_def)
  then have "(of_nat (k_uptime h) :: rat) < of_nat (10 ^ 11)" by (simp only: of_nat_less_iff)
  then have "fl (of_nat (k_uptime h) / 100) < float_limit"
    using fl_half(2) [of "of_nat (k_uptime h) / 100"] by (simp add: float_limit_def)
  then have "parse_float (fmt_f (k_uptime h) (-2)) = Some (Fin (fl (of_nat (k_uptime h) / 100)))"
    unfolding parse_fmt_f p by (simp add: in_format_def)
  then show ?thesis
    using fmt_f_num [of "k_uptime h" "-2"] unfolding readUptime_def Let_def assms(2)
    by (simp add: kernel_files_def uptime_text_def str_fields_space [OF g])
qed

definition default_paths :: "proc_service \<Rightarrow> bool" where
  "default_paths s \<longleftrightarrow> ProcPath s = ''/proc'' \<and> SysPath s = ''/sys'' \<and> ProcIface s = DefaultIface"

definition uptime_of :: "host_state \<Rightarrow> duration" where
  "uptime_of h = float_seconds (Fin (fl (of_nat (k_uptime h) / 100)))"

lemma Sample_kernel:
  assumes "kernel_host h" and "default_paths s"
  shows "proc_Sample (kernel_files h) now s =
    (Inr (derive_stats (prior s) now (word_of_nat (sum_list (k_cpu h))) (word_of_nat (idle_jiffies h))
       (int (k_memTotal h)) (int (k_memAvail h)) (uptime_of h) (int (k_rx h)) (int (k_tx h))),
     s\<lparr>prior := \<lparr>pr_when = now, pr_cpuTotal = word_of_nat (sum_list (k_cpu h)), pr_cpuIdle = word_of_nat (idle_jiffies h),
        pr_rxBytes = int (k_rx h), pr_txBytes = int (k_tx h)\<rparr>\<rparr>)"
proof -
  have p: "ProcPath s = ''/proc''" "SysPath s = ''/sys''" "ProcIface s = ''wg0''"
    using assms(2) by (simp_all add: default_paths_def DefaultIface_def)
  have "0 < k_memTotal h" using assms(1) by (simp add: kernel_host_def)
  then show ?thesis
    using readCPU_kernel [OF assms(1) p(1)] readMem_kernel [OF assms(1) p(1)] readUptime_kernel [OF assms(1) p(1)]
      readIface_kernel [OF assms(1) p(2,3)]
    by (simp add: proc_Sample_def uptime_of_def)
qed

text \<open>Between two samples no counter of a running host decreases and some time has passed.\<close>

definition ran_on :: "host_state \<Rightarrow> host_state \<Rightarrow> bool" where
  "ran_on h h' \<longleftrightarrow> list_all2 (\<le>) (k_cpu h) (k_cpu h') \<and> sum_list (k_cpu h) < sum_list (k_cpu h')"

lemma sum_list_le: "list_all2 (\<le>) xs ys \<Longrightarrow> sum_list xs \<le> (sum_list ys :: nat)"
  by (induction rule: list_all2_induct) auto

lemma idle_within:
  assumes "kernel_host h" and "kernel_host h'" and "ran_on h h'"
  shows "idle_jiffies h \<le> idle_jiffies h'"
    "idle_jiffies h' - idle_jiffies h \<le> sum_list (k_cpu h') - sum_list (k_cpu h)"
    "idle_jiffies h \<le> sum_list (k_cpu h)" "idle_jiffies h' \<le> sum_list (k_cpu h')"
proof -
  have l: "length (k_cpu h) = 10" "length (k_cpu h') = 10" using assms by (simp_all add: kernel_host_def)
  have split5: "\<exists>a b c d e r. xs = a # b # c # d # e # r" if "length xs = 10" for xs :: "nat list"
    using that by (auto simp: length_Suc_conv eval_nat_numeral)
  obtain a b c d e r where h: "k_cpu h = a # b # c # d # e # r" using split5 [OF l(1)] by blast
  obtain a' b' c' d' e' r' where h': "k_cpu h' = a' # b' # c' # d' # e' # r'" using split5 [OF l(2)] by blast
  have le: "a \<le> a'" "b \<le> b'" "c \<le> c'" "d \<le> d'" "e \<le> e'" "sum_list r \<le> sum_list r'"
    using assms(3) sum_list_le [of r r'] by (simp_all add: ran_on_def h h')
  have i: "idle_jiffies h = d + e" "idle_jiffies h' = d' + e'" by (simp_all add: idle_jiffies_def h h')
  show "idle_jiffies h \<le> idle_jiffies h'" using le i by simp
  show "idle_jiffies h \<le> sum_list (k_cpu h)" by (simp add: i h)
  show "idle_jiffies h' \<le> sum_list (k_cpu h')" by (simp add: i h')
  show "idle_jiffies h' - idle_jiffies h \<le> sum_list (k_cpu h') - sum_list (k_cpu h)" using le unfolding i h h' by simp
qed

lemma word_delta:
  assumes "a \<le> b" and "b < 2 ^ 64"
  shows "unat (word_of_nat b - word_of_nat a :: 64 word) = b - a"
proof -
  have "(word_of_nat b - word_of_nat a :: 64 word) = word_of_nat (b - a)" using assms(1) by (simp add: of_nat_diff)
  moreover have "b - a < 2 ^ 64" using assms(2) by simp
  ultimately show ?thesis by (simp add: unat_of_nat del: of_nat_diff)
qed

lemma second_sample_shows:
  assumes "kernel_host h1" and "kernel_host h2" and "ran_on h1 h2" and "default_paths s" and "\<not> is_zero t1"
  shows "\<exists>st. fst (proc_Sample (kernel_files h2) t2 (snd (proc_Sample (kernel_files h1) t1 s))) = Inr st \<and>
    \<bar>st_CPUPercent st - 100 * (1 - of_nat (idle_jiffies h2 - idle_jiffies h1) / of_nat (sum_list (k_cpu h2) - sum_list (k_cpu h1)))\<bar> \<le> 1 / 10 ^ 9 \<and>
    \<bar>st_MemUsedPercent st - 100 * (of_nat (k_memTotal h2 - k_memAvail h2) / of_nat (k_memTotal h2))\<bar> \<le> 1 / 10 ^ 9 \<and>
    st_MemTotalKB st = int (k_memTotal h2) \<and> st_MemUsedKB st = int (k_memTotal h2) - int (k_memAvail h2) \<and>
    st_WgRxBytesCum st = int (k_rx h2) \<and> st_WgTxBytesCum st = int (k_tx h2) \<and> st_HostUptime st = uptime_of h2"
proof -
  define s1 where "s1 = snd (proc_Sample (kernel_files h1) t1 s)"
  let ?t = "\<lambda>h. word_of_nat (sum_list (k_cpu h)) :: 64 word" and ?i = "\<lambda>h. word_of_nat (idle_jiffies h) :: 64 word"
  have s1: "default_paths s1" "prior s1 = \<lparr>pr_when = t1, pr_cpuTotal = ?t h1, pr_cpuIdle = ?i h1, pr_rxBytes = int (k_rx h1), pr_txBytes = int (k_tx h1)\<rparr>"
    using Sample_kernel [OF assms(1,4), of t1] assms(4) by (simp_all add: s1_def default_paths_def)
  note b = idle_within [OF assms(1-3)]
  have sum: "sum_list (k_cpu h1) < sum_list (k_cpu h2)" "sum_list (k_cpu h2) < 2 ^ 64"
    using assms(2,3) by (simp_all add: ran_on_def kernel_host_def)
  have T: "unat (?t h2 - ?t h1) = sum_list (k_cpu h2) - sum_list (k_cpu h1)" by (rule word_delta) (use sum in simp_all)
  have I: "unat (?i h2 - ?i h1) = idle_jiffies h2 - idle_jiffies h1" by (rule word_delta) (use b(1) b(4) sum in linarith)+
  have "0 < ?t h2 - ?t h1" "?i h2 - ?i h1 \<le> ?t h2 - ?t h1"
    using b(2) sum T I by (simp_all add: word_le_nat_alt word_less_nat_alt)
  from cpu_percent_close [OF this] have C: "\<bar>cpu_percent (?t h2 - ?t h1) (?i h2 - ?i h1) -
      100 * (1 - of_nat (idle_jiffies h2 - idle_jiffies h1) / of_nat (sum_list (k_cpu h2) - sum_list (k_cpu h1)))\<bar> \<le> 1 / 10 ^ 9"
    unfolding T I .
  have m: "k_memAvail h2 \<le> k_memTotal h2" "0 < k_memTotal h2" "k_memTotal h2 < 2 ^ 63" using assms(2) by (simp_all add: kernel_host_def)
  then have u: "i64 (int (k_memTotal h2) - int (k_memAvail h2)) = int (k_memTotal h2 - k_memAvail h2)"
    by (subst i64_id) (simp_all add: in_i64_def of_nat_diff)
  have M: "\<bar>percent_of (int (k_memTotal h2 - k_memAvail h2)) (int (k_memTotal h2)) -
      100 * (of_nat (k_memTotal h2 - k_memAvail h2) / of_nat (k_memTotal h2))\<bar> \<le> 1 / 10 ^ 9"
    using percent_of_close [of "int (k_memTotal h2 - k_memAvail h2)" "int (k_memTotal h2)"] m by simp
  define st where "st = derive_stats (prior s1) t2 (?t h2) (?i h2) (int (k_memTotal h2)) (int (k_memAvail h2)) (uptime_of h2) (int (k_rx h2)) (int (k_tx h2))"
  have "st_CPUPercent st = cpu_percent (?t h2 - ?t h1) (?i h2 - ?i h1)"
    and "st_MemUsedPercent st = percent_of (int (k_memTotal h2 - k_memAvail h2)) (int (k_memTotal h2))"
    and "st_MemUsedKB st = int (k_memTotal h2) - int (k_memAvail h2)"
    and "st_MemTotalKB st = int (k_memTotal h2)" "st_WgRxBytesCum st = int (k_rx h2)" "st_WgTxBytesCum st = int (k_tx h2)"
      "st_HostUptime st = uptime_of h2"
    using assms(5) u m(1) by (simp_all add: st_def derive_stats_def Let_def s1(2) of_nat_diff)
  moreover have "fst (proc_Sample (kernel_files h2) t2 (snd (proc_Sample (kernel_files h1) t1 s))) = Inr st"
    unfolding s1_def [symmetric] Sample_kernel [OF assms(2) s1(1), of t2] st_def by simp
  ultimately show ?thesis using C M by (intro exI [of _ st]) (simp only: simp_thms)
qed

text \<open>
  C27. The second of two samples shows the host as it is: the share of the time the processors were busy in
  between, the memory in use, and the counters as the kernel prints them, whatever the sampler saw
  before.
\<close>

theorem Sample_shows_host:
  assumes "kernel_host h1" and "kernel_host h2" and "ran_on h1 h2" and "default_paths s" and "\<not> is_zero t1"
  shows "\<exists>st. fst (proc_Sample (kernel_files h2) t2 (snd (proc_Sample (kernel_files h1) t1 s))) = Inr st \<and>
    \<bar>st_CPUPercent st - 100 * (1 - of_nat (idle_jiffies h2 - idle_jiffies h1) / of_nat (sum_list (k_cpu h2) - sum_list (k_cpu h1)))\<bar> \<le> 1 / 10 ^ 9 \<and>
    \<bar>st_MemUsedPercent st - 100 * (of_nat (k_memTotal h2 - k_memAvail h2) / of_nat (k_memTotal h2))\<bar> \<le> 1 / 10 ^ 9 \<and>
    st_MemTotalKB st = int (k_memTotal h2) \<and> st_MemUsedKB st = int (k_memTotal h2) - int (k_memAvail h2) \<and>
    st_WgRxBytesCum st = int (k_rx h2) \<and> st_WgTxBytesCum st = int (k_tx h2) \<and> st_HostUptime st = uptime_of h2"
  using assms by (rule second_sample_shows)

text \<open>The rates do not overflow when the samples are far enough apart.\<close>

lemma byte_rate_nonneg:
  assumes "in_i64 d" and "2 \<le> dt"
  shows "0 \<le> byte_rate d dt"
proof (cases "0 < d")
  case True
  define x :: rat where "x = of_int d"
  define B :: rat where "B = 2 ^ 63"
  have "d \<le> 2 ^ 63" using assms(1) by (simp add: in_i64_def)
  then have "(of_int d :: rat) \<le> of_int (2 ^ 63)" by (simp only: of_int_le_iff)
  then have x: "0 < x" "x \<le> B" using True by (simp_all add: x_def B_def)
  define r where "r = fl x / dt"
  have f: "0 \<le> fl x" "fl x \<le> B + B * float_eps" using fl_half(1) [of x] fl_eps [of x B] x by linarith+
  have r: "0 \<le> r" "r \<le> fl x / 2" unfolding r_def using f assms(2) using divide_left_mono [of 2 dt "fl x"] by simp_all
  have "\<bar>r\<bar> \<le> B" using r f x float_eps_small by (simp add: B_def float_eps_def)
  from fl_eps [OF this] have "fl r \<le> r + B * float_eps" by linarith
  moreover have "B / 2 + 2 * (B * float_eps) < B" by (simp add: B_def float_eps_def)
  ultimately have u: "fl r < B" using r f by linarith
  have l: "0 \<le> fl r" using fl_half(1) [of r] r by linarith
  have "\<lfloor>fl r\<rfloor> < 2 ^ 63" using u by (simp add: B_def floor_less_iff)
  moreover have "0 \<le> \<lfloor>fl r\<rfloor>" using l by simp
  ultimately show ?thesis using True l by (simp add: byte_rate_def trunc_def in_i64_def r_def x_def)
qed (simp add: byte_rate_def)

lemma in_units_two:
  assumes "4 * second \<le> d"
  shows "2 \<le> in_units second d"
proof -
  have d: "0 < d" "4 \<le> d div second" "0 \<le> d mod second"
    using assms zdiv_mono1 [OF assms, of second] by (simp_all add: second_def)
  define r :: rat where "r = of_int (d mod second) / of_int second"
  have "0 \<le> r" unfolding r_def using d(3) by (simp add: second_def)
  then have r: "0 \<le> fl r" using fl_half(1) [of r] by linarith
  have "of_int 4 \<le> (of_int (d div second) :: rat)" using d(2) by (simp only: of_int_le_iff)
  moreover define x where "x = of_int (d div second) + fl r"
  ultimately have "4 \<le> x" using r by simp
  then have "2 \<le> fl x" using fl_half(1) [of x] by simp
  then show ?thesis using d(1) by (simp add: in_units_def r_def x_def)
qed

lemma Sample_in_scale:
  assumes "fst (proc_Sample rd now s) = Inr st"
  shows "0 \<le> st_CPUPercent st" "st_CPUPercent st \<le> 100"
    "4 * second \<le> time_sub now (pr_when (prior s)) \<Longrightarrow> 0 \<le> st_WgRxRateBps st \<and> 0 \<le> st_WgTxRateBps st"
proof -
  from assms obtain t i a b u r x where st: "st = derive_stats (prior s) now t i a b u r x"
    by (auto simp: proc_Sample_def split: sum.splits if_splits)
  show "0 \<le> st_CPUPercent st" "st_CPUPercent st \<le> 100"
    "4 * second \<le> time_sub now (pr_when (prior s)) \<Longrightarrow> 0 \<le> st_WgRxRateBps st \<and> 0 \<le> st_WgTxRateBps st"
    unfolding st using in_units_two [of "time_sub now (pr_when (prior s))"]
    by (simp_all add: derive_stats_def Let_def cpu_percent_range byte_rate_nonneg)
qed

text \<open>
  No percentage leaves the scale: whatever the files hold, the CPU percent of a sample lies between 0
  and 100, and with samples at least four seconds apart no rate is negative, also when a counter was
  reset in between.
\<close>

theorem Sample_bounds:
  assumes "fst (proc_Sample rd now s) = Inr st"
  shows "0 \<le> st_CPUPercent st \<and> st_CPUPercent st \<le> 100 \<and>
    (4 * second \<le> time_sub now (pr_when (prior s)) \<longrightarrow> 0 \<le> st_WgRxRateBps st \<and> 0 \<le> st_WgTxRateBps st)"
  using Sample_in_scale [OF assms] by simp

definition early_host :: host_state where
  "early_host = \<lparr>k_cpu = [100, 0, 50, 800, 10, 0, 5, 0, 0, 0], k_stat_rest = ''cpu0 1 2'', k_memTotal = 1000, k_memFree = 100,
     k_memAvail = 250, k_mem_rest = [], k_uptime = 1234, k_idle = 1000, k_rx = 5000, k_tx = 70\<rparr>"

definition late_host :: host_state where
  "late_host = early_host\<lparr>k_cpu := [150, 0, 60, 830, 15, 0, 10, 0, 0, 0], k_uptime := 4234, k_rx := 65000, k_tx := 60\<rparr>"

lemma two_hosts: "kernel_host early_host" "kernel_host late_host" "ran_on early_host late_host" "default_paths proc_New" "\<not> is_zero second"
  by (simp_all add: kernel_host_def early_host_def late_host_def ran_on_def default_paths_def proc_New_def is_zero_def zero_time_def second_def)

theorem Sample_shows_host_witness:
  "\<exists>st. fst (proc_Sample (kernel_files late_host) (31 * second) (snd (proc_Sample (kernel_files early_host) second proc_New))) = Inr st \<and>
    \<bar>st_CPUPercent st - 65\<bar> \<le> 1 / 10 ^ 9 \<and> \<bar>st_MemUsedPercent st - 75\<bar> \<le> 1 / 10 ^ 9 \<and> st_WgRxBytesCum st = 65000"
  using Sample_shows_host [OF two_hosts, of "31 * second"]
  by (simp add: early_host_def late_host_def idle_jiffies_def) blast

theorem Sample_bounds_witness:
  "\<exists>st. fst (proc_Sample (kernel_files late_host) (31 * second) (snd (proc_Sample (kernel_files early_host) second proc_New))) = Inr st \<and>
    0 \<le> st_CPUPercent st \<and> st_CPUPercent st \<le> 100 \<and> 0 \<le> st_WgTxRateBps st"
proof -
  let ?s = "snd (proc_Sample (kernel_files early_host) second proc_New)"
  have w: "pr_when (prior ?s) = second" and p: "default_paths ?s"
    using Sample_kernel [OF two_hosts(1,4), of second] two_hosts(4) by (simp_all add: default_paths_def)
  obtain st where "fst (proc_Sample (kernel_files late_host) (31 * second) ?s) = Inr st"
    using Sample_kernel [OF two_hosts(2) p, of "31 * second"] by simp
  with Sample_bounds [OF this] w show ?thesis
    by (simp add: time_sub_def second_def min_duration_def max_duration_def)
qed

end
