(* ===== verification/HostPoll.thy ===== *)
theory HostPoll
  imports Proc
begin

text \<open>
  The poller (\<^verbatim>\<open>internal/poller\<close>) on the readers of the host (\<^verbatim>\<open>internal/proc\<close>,
  \<^verbatim>\<open>internal/disk\<close>): a tick takes one sample of each and hands it on. The invariant says that
  no percentage outside its scale is stored, shown or compared with a threshold.
\<close>

text \<open>What a tick finds: the files, the file systems, the answers of the other readers and the clocks.\<close>

record host_view =
  hv_files :: file_reader
  hv_statfs :: "string \<Rightarrow> string + statfs"
  hv_service :: "(string + bool) option"
  hv_peers :: "string + wg_peer list"
  hv_clients :: "manifest_error + manifest_client list"
  hv_sampled :: time
  hv_now :: time

definition host_reads :: "(host_error \<Rightarrow> string) \<Rightarrow> host_view \<Rightarrow> proc_service \<Rightarrow> reads \<times> proc_service" where
  "host_reads msg v s =
     (case proc_Sample (hv_files v) (hv_sampled v) s of
        (r, s') \<Rightarrow>
          (\<lparr>rd_stats = map_sum msg proc_stats.truncate r, rd_peers = hv_peers v, rd_clients = hv_clients v, rd_now = hv_now v\<rparr>, s'))"

definition host_alert_reads :: "(host_error \<Rightarrow> string) \<Rightarrow> host_view \<Rightarrow> alert_reads" where
  "host_alert_reads msg v =
     \<lparr>ar_service = hv_service v,
      ar_disk = Some (map_sum msg (map (\<lambda>m. (mt_Path m, mt_PctFull m))) (disk_Sample (hv_files v) (hv_statfs v) DefaultMountsPath)),
      ar_now = hv_now v\<rparr>"

definition host_tick :: "(host_error \<Rightarrow> string) \<Rightarrow> host_view \<Rightarrow> proc_service \<times> poller \<Rightarrow> proc_service \<times> poller" where
  "host_tick msg v sp =
     (case host_reads msg v (fst sp) of (r, s') \<Rightarrow> (s', sample_tick r (host_alert_reads msg v) (snd sp)))"

datatype host_op = HostTick host_view | HostOther poll_op

fun host_step :: "(host_error \<Rightarrow> string) \<Rightarrow> host_op \<Rightarrow> proc_service \<times> poller \<Rightarrow> proc_service \<times> poller" where
  "host_step msg (HostTick v) sp = host_tick msg v sp"
| "host_step msg (HostOther ev) sp = (fst sp, poll_step ev (snd sp))"

text \<open>Every tick goes through the readers of the host.\<close>

fun through_host :: "host_op \<Rightarrow> bool" where
  "through_host (HostOther (OpTick r ar)) = False"
| "through_host ev = True"

subsection \<open>Percentages stay in their scale\<close>

definition in_scale :: "rat \<Rightarrow> bool" where
  "in_scale x \<longleftrightarrow> 0 \<le> x \<and> x \<le> 100"

definition rows_in_scale :: "tables \<Rightarrow> bool" where
  "rows_in_scale t \<longleftrightarrow> list_all (\<lambda>(ts, cpu, mem). in_scale cpu) (system_metrics t)"

definition poller_in_scale :: "poller \<Rightarrow> bool" where
  "poller_in_scale p \<longleftrightarrow> rows_in_scale (tabs (p_DB p)) \<and> in_scale (p_lastCPUPct p) \<and> in_scale (ms_CPUPercent (p_metrics p))"

lemma keeps_scale_client: "keeps rows_in_scale (InsertClientTraffic rows)"
proof -
  have "keeps rows_in_scale (db_call w (\<lambda>t. Inr ((), put_client_traffic r t)))" for w r
    by (rule keeps_call) (auto simp: rows_in_scale_def put_client_traffic_def)
  then show ?thesis unfolding InsertClientTraffic_def by (auto intro!: keeps_tx keeps_bind keeps_each)
qed

lemma keeps_scale_handshakes: "keeps rows_in_scale (InsertHandshakeEvents es)"
proof -
  have "keeps rows_in_scale (db_call w (\<lambda>t. Inr ((), put_handshake r t)))" for w r
    by (rule keeps_call) (auto simp: rows_in_scale_def put_handshake_def)
  then show ?thesis unfolding InsertHandshakeEvents_def by (auto intro!: keeps_tx keeps_bind keeps_each)
qed

lemma keeps_scale_traffic: "keeps rows_in_scale (InsertTrafficMetric m)"
  unfolding InsertTrafficMetric_def by (rule keeps_call) (auto simp: rows_in_scale_def)

lemma keeps_scale_prune: "keeps rows_in_scale (PruneBefore c)"
  unfolding PruneBefore_def Let_def
  by (intro keeps_tx keeps_bind keeps_return keeps_call) (auto simp: rows_in_scale_def prune_rows_def list_all_iff)

lemma keeps_scale_system: "in_scale (sm_CPUPct m) \<Longrightarrow> keeps rows_in_scale (InsertSystemMetric m)"
  unfolding InsertSystemMetric_def
  by (rule keeps_call) (auto simp: rows_in_scale_def replace_row_def list_all_iff)

lemma poll_db_scale:
  "keeps rows_in_scale m \<Longrightarrow> poller_in_scale p \<Longrightarrow> poller_in_scale (snd (poll_db m p))"
  using keepsD [of rows_in_scale m "p_DB p"]
  by (auto simp: poller_in_scale_def poll_db_def split: prod.split sum.split)

definition reads_in_scale :: "reads \<Rightarrow> bool" where
  "reads_in_scale r \<longleftrightarrow> (case rd_stats r of Inl e \<Rightarrow> True | Inr st \<Rightarrow> in_scale (st_CPUPercent st))"

lemma collect_stats_scale:
  assumes "reads_in_scale r" and "poller_in_scale p"
  shows "poller_in_scale (snd (collect_stats r p))"
proof (cases "rd_stats r")
  case (Inl e)
  then show ?thesis using assms(2) by (simp add: collect_stats_def poller_in_scale_def recordHostMetrics_def)
next
  case (Inr st)
  then have s: "in_scale (st_CPUPercent st)" using assms(1) by (simp add: reads_in_scale_def)
  then have "poller_in_scale (recordHostMetrics True (st_CPUPercent st) (st_MemUsedPercent st)
      (p\<lparr>p_lastCPUPct := st_CPUPercent st, p_lastCPUValid := True\<rparr>))"
    using assms(2) by (simp add: poller_in_scale_def recordHostMetrics_def)
  then show ?thesis
    using Inr s by (simp add: collect_stats_def Let_def split_beta poll_db_scale keeps_scale_traffic keeps_scale_system)
qed

lemma collect_scale:
  assumes "reads_in_scale r" and "poller_in_scale p"
  shows "poller_in_scale (snd (collect r p))"
proof -
  have t: "poller_in_scale (snd (collect_traffic r q))" if "poller_in_scale q" for q
    using that by (auto simp: collect_traffic_def poll_db_scale keeps_scale_client split: sum.split)
  have p: "poller_in_scale (collect_peers r q)" if "poller_in_scale q" for q
    using that by (auto simp: collect_peers_def recordPeerMetrics_def Let_def poller_in_scale_def split: sum.split)
  have h: "poller_in_scale (snd (collect_handshakes r q))" if "poller_in_scale q" for q
  proof -
    have "poller_in_scale (q\<lparr>p_lastHandshake := c\<rparr>)" for c using that by (simp add: poller_in_scale_def)
    then show ?thesis using that
      by (auto simp: collect_handshakes_def Let_def poll_db_scale keeps_scale_handshakes split: sum.split prod.split)
  qed
  show ?thesis
    using h [OF p [OF t [OF collect_stats_scale [OF assms]]]] by (simp add: collect_def split_beta Let_def)
qed

lemma alerts_scale: "poller_in_scale p \<Longrightarrow> poller_in_scale (evaluateAlerts ar p)"
  unfolding poller_in_scale_def evaluateAlerts_frame
  by (auto simp: evaluateAlerts_def finish_alerts_def Let_def recordDiskMetrics_def recordServiceMetric_def
      split: option.splits sum.splits prod.splits)

lemma host_reads_scale: "host_reads msg v s = (r, s') \<Longrightarrow> reads_in_scale r"
  using Sample_in_scale(1,2) [of "hv_files v" "hv_sampled v" s]
  by (cases "fst (proc_Sample (hv_files v) (hv_sampled v) s)")
    (auto simp: host_reads_def reads_in_scale_def in_scale_def proc_stats.truncate_def split: prod.splits)

lemma host_step_scale:
  "poller_in_scale (snd sp) \<Longrightarrow> through_host ev \<Longrightarrow> poller_in_scale (snd (host_step msg ev sp))"
proof (induction msg ev sp rule: host_step.induct)
  case (1 msg v sp)
  obtain r s' where r: "host_reads msg v (fst sp) = (r, s')" by fastforce
  from alerts_scale [OF collect_scale [OF host_reads_scale [OF r] 1(1)]] show ?case
    by (simp add: host_tick_def r sample_tick_def)
next
  case (2 msg ev sp)
  have "poller_in_scale (p\<lparr>p_DB := d\<rparr>) = (rows_in_scale (tabs d) \<and> in_scale (p_lastCPUPct p) \<and> in_scale (ms_CPUPercent (p_metrics p)))" for p d
    by (simp add: poller_in_scale_def)
  moreover have "rows_in_scale (tabs d) \<Longrightarrow> PruneBefore c d = (x, d') \<Longrightarrow> rows_in_scale (tabs d')" for c d x d'
    using keepsD [OF keeps_scale_prune, of d c] by simp
  ultimately show ?case using 2
    by (cases ev) (auto simp: poller_in_scale_def dispatch_one_def retention_tick_def Let_def
        split: list.split option.split prod.split sum.split)
qed

interpretation host_ops: op_invariant "\<lambda>sp. poller_in_scale (snd sp)" through_host "host_step msg" for msg
  by unfold_locales (rule host_step_scale)

text \<open>
  C28. Whatever the files of the host hold, and whatever fails, every CPU percentage that is stored, shown
  to a scrape or compared with the alert threshold lies between 0 and 100.
\<close>

theorem stored_percents_in_scale:
  assumes "list_all through_host ops"
  shows "let p = snd (fold (host_step msg) ops (proc_New, New (open_db fs) ev h)) in
    list_all (\<lambda>(ts, cpu, mem). in_scale cpu) (system_metrics (tabs (p_DB p))) \<and>
    in_scale (p_lastCPUPct p) \<and> in_scale (ms_CPUPercent (MetricsSnapshot p))"
proof -
  have "poller_in_scale (New (open_db fs) ev h)"
    by (simp add: poller_in_scale_def New_def open_db_def empty_tables_def rows_in_scale_def in_scale_def empty_metrics_def)
  then have "poller_in_scale (snd (proc_New, New (open_db fs) ev h))" by simp
  from host_ops.run_inv [OF this] assms show ?thesis
    by (auto simp: list_all_iff poller_in_scale_def rows_in_scale_def MetricsSnapshot_def Let_def)
qed

definition late_view :: "host_state \<Rightarrow> time \<Rightarrow> host_view" where
  "late_view h t = \<lparr>hv_files = kernel_files h, hv_statfs = (\<lambda>p. Inl ''no''), hv_service = None, hv_peers = Inr [],
     hv_clients = Inr [], hv_sampled = t, hv_now = t\<rparr>"

theorem stored_percents_in_scale_witness:
  "let ops = [HostTick (late_view early_host second), HostTick (late_view late_host (31 * second))] in
     list_all (\<lambda>(ts, cpu, mem). in_scale cpu)
       (system_metrics (tabs (p_DB (snd (fold (host_step (\<lambda>e. ''error'')) ops (proc_New, New (open_db []) None None))))))"
  using stored_percents_in_scale [of "[HostTick (late_view early_host second), HostTick (late_view late_host (31 * second))]"
      "\<lambda>e. ''error''" "[]" None None] by (simp add: Let_def)

end
