(* ===== verification/GoDuration.thy ===== *)
theory GoDuration
  imports GoFloat GoText ClientStore
begin

text \<open>
  \<^verbatim>\<open>time.ParseDuration\<close>: a sign, then numbers with a unit each. The sums are on 64-bit unsigned
  integers and the fractions in floating point, as in the library.
\<close>

definition unit_ns :: "string \<Rightarrow> nat option" where
  "unit_ns u =
     (if u = ''ns'' then Some 1
      else if u \<in> {''us'', micro_sign @ ''s'', [char_of (0xCE :: nat), char_of (0xBC :: nat)] @ ''s''} then Some (10 ^ 3)
      else if u = ''ms'' then Some (10 ^ 6) else if u = ''s'' then Some (10 ^ 9)
      else if u = ''m'' then Some (60 * 10 ^ 9) else if u = ''h'' then Some (3600 * 10 ^ 9) else None)"

text \<open>The value of leading digits unless it is above \<^verbatim>\<open>1<<63\<close>.\<close>

definition leadingInt :: "string \<Rightarrow> nat option" where
  "leadingInt ds = (let v = digits_val 0 ds in if v > 2 ^ 63 then None else Some v)"

text \<open>The digits of a fraction and its scale; what does not fit any more is dropped.\<close>

fun leadingFraction :: "nat \<Rightarrow> nat \<Rightarrow> string \<Rightarrow> nat \<times> nat" where
  "leadingFraction x scale [] = (x, scale)"
| "leadingFraction x scale (c # s) =
     (if x > (2 ^ 63 - 1) div 10 \<or> x * 10 + digit_val c > 2 ^ 63 then (x, scale)
      else leadingFraction (x * 10 + digit_val c) (scale * 10) s)"

definition num_start :: "char \<Rightarrow> bool" where
  "num_start c \<longleftrightarrow> c = CHR ''.'' \<or> is_digit c"

text \<open>One number with its unit, and what follows it.\<close>

definition duration_part :: "string \<Rightarrow> (nat \<times> string) option" where
  "duration_part s =
     (let pre = takeWhile is_digit s; s1 = dropWhile is_digit s;
          dotted = (s1 \<noteq> [] \<and> hd s1 = CHR ''.'');
          post = (if dotted then takeWhile is_digit (tl s1) else []);
          s2 = (if dotted then dropWhile is_digit (tl s1) else s1);
          u = takeWhile (\<lambda>c. \<not> num_start c) s2; rest = dropWhile (\<lambda>c. \<not> num_start c) s2
      in if s = [] \<or> \<not> num_start (hd s) then None
         else (case leadingInt pre of
                 None \<Rightarrow> None
               | Some v \<Rightarrow>
                   if pre = [] \<and> post = [] then None
                   else if u = [] then None
                   else (case unit_ns u of
                           None \<Rightarrow> None
                         | Some n \<Rightarrow>
                             if v > 2 ^ 63 div n then None
                             else (case leadingFraction 0 1 post of
                                     (f, scale) \<Rightarrow>
                                       (let w = v * n + (if f > 0 then nat \<lfloor>fl (fl (of_nat f) * fl (of_nat n / fl (of_nat scale)))\<rfloor> else 0)
                                        in if f > 0 \<and> w > 2 ^ 63 then None else Some (w, rest))))))"

lemma duration_part_shorter: "duration_part s = Some (w, rest) \<Longrightarrow> length rest < length s"
proof -
  assume a: "duration_part s = Some (w, rest)"
  define s1 where "s1 = dropWhile is_digit s"
  define s2 where "s2 = (if s1 \<noteq> [] \<and> hd s1 = CHR ''.'' then dropWhile is_digit (tl s1) else s1)"
  from a have u: "takeWhile (\<lambda>c. \<not> num_start c) s2 \<noteq> []" and r: "rest = dropWhile (\<lambda>c. \<not> num_start c) s2"
    by (auto simp: duration_part_def Let_def s1_def s2_def split: if_splits option.splits prod.splits)
  have "length (takeWhile (\<lambda>c. \<not> num_start c) s2) + length rest = length s2"
    unfolding r by (metis length_append takeWhile_dropWhile_id)
  with u have "length rest < length s2" by (cases "takeWhile (\<lambda>c. \<not> num_start c) s2") simp_all
  moreover have "length s2 \<le> length s1"
    using length_dropWhile_le [of is_digit "tl s1"] by (auto simp: s2_def)
  moreover have "length s1 \<le> length s" unfolding s1_def by (rule length_dropWhile_le)
  ultimately show ?thesis by linarith
qed

function duration_parts :: "nat \<Rightarrow> string \<Rightarrow> nat option" where
  "duration_parts d s =
     (if s = [] then Some d
      else (case duration_part s of
              None \<Rightarrow> None
            | Some (w, rest) \<Rightarrow>
                (let d' = (d + w) mod 2 ^ 64 in if d' > 2 ^ 63 then None else duration_parts d' rest)))"
  by pat_completeness auto
termination
  by (relation "measure (\<lambda>(d, s). length s)") (auto dest: duration_part_shorter)

declare duration_parts.simps [simp del]

definition ParseDuration :: "string \<Rightarrow> duration option" where
  "ParseDuration s0 =
     (let signed = (s0 \<noteq> [] \<and> hd s0 \<in> {CHR ''-'', CHR ''+''}); neg = (s0 \<noteq> [] \<and> hd s0 = CHR ''-'');
          s = (if signed then tl s0 else s0)
      in if s = ''0'' then Some 0
         else if s = [] then None
         else (case duration_parts 0 s of
                 None \<Rightarrow> None
               | Some d \<Rightarrow>
                   if neg then Some (- int d)
                   else if d > 2 ^ 63 - 1 then None else Some (int d)))"

lemma ParseDuration_range: "ParseDuration s = Some d \<Longrightarrow> in_i64 d"
proof -
  have "d \<le> 2 ^ 63" if "duration_parts e s = Some d" "e \<le> 2 ^ 63" for d e s
    using that
  proof (induction e s rule: duration_parts.induct)
    case (1 e s)
    note IH = 1(1) and d = 1(2) [unfolded duration_parts.simps [of e s]] and e = 1(3)
    show ?case
    proof (cases "s = []")
      case True
      with d e show ?thesis by simp
    next
      case False
      with d obtain w r where p: "duration_part s = Some (w, r)"
        and n: "\<not> (e + w) mod 2 ^ 64 > 2 ^ 63" "duration_parts ((e + w) mod 2 ^ 64) r = Some d"
        by (auto simp: Let_def split: option.splits if_splits)
      show ?thesis by (rule IH [OF False p refl refl n]) (use n(1) in simp)
    qed
  qed
  from this [where e = 0] show "ParseDuration s = Some d \<Longrightarrow> in_i64 d"
    by (fastforce simp: ParseDuration_def Let_def in_i64_def split: if_splits option.splits)
qed

end
