(* ===== verification/MetricsApi.thy ===== *)
theory MetricsApi
  imports GoDuration ClientsApi PromText
begin

text \<open>
  The chart feeds (\<^verbatim>\<open>internal/server/handlers_metrics.go\<close>): \<^verbatim>\<open>GET /api/metrics\<close> with any
  duration, and the system, traffic and client series with one of four ranges. The two queries of
  \<^verbatim>\<open>/api/metrics\<close> run in parallel; they only read, so they are made one after the other, and
  any outcome of the driver is the outcome of some list of faults.
\<close>

definition minRange :: duration where "minRange = minute"
definition maxRange :: duration where "maxRange = 25 * hour"
definition defaultRange :: duration where "defaultRange = 24 * hour"

record system_series =
  ss_TS :: "time list"
  ss_CPUPct :: "rat list"
  ss_MemPct :: "rat list"

record traffic_series =
  ts_TS :: "time list"
  ts_RxBytesCum :: "int list"
  ts_TxBytesCum :: "int list"

record client_series =
  cs_TS :: "time list"
  cs_RxRateBps :: "int list"
  cs_TxRateBps :: "int list"

datatype metrics_body =
    NotFoundText
  | BadDuration string
  | TooShort duration
  | BadEnum string
  | MetricsDb db_error
  | ManifestText manifest_error
  | MetricsJson time time system_series traffic_series
  | SystemJson string time time system_series
  | TrafficJson string time time traffic_series
  | ClientJson string string time time client_series

definition system_columns :: "system_metric list \<Rightarrow> system_series" where
  "system_columns rows = \<lparr>ss_TS = map sm_TS rows, ss_CPUPct = map sm_CPUPct rows, ss_MemPct = map sm_MemPct rows\<rparr>"

definition traffic_columns :: "traffic_metric list \<Rightarrow> traffic_series" where
  "traffic_columns rows = \<lparr>ts_TS = map tm_TS rows, ts_RxBytesCum = map tm_RxBytesCum rows, ts_TxBytesCum = map tm_TxBytesCum rows\<rparr>"

definition range_duration :: "string \<Rightarrow> duration option" where
  "range_duration r = (if r = [] then Some defaultRange else ParseDuration r)"

definition handleGetMetrics :: "time \<Rightarrow> string \<Rightarrow> (int \<times> metrics_body) dbm" where
  "handleGetMetrics now r d =
     (case range_duration r of
        None \<Rightarrow> (Inr (400, BadDuration r), d)
      | Some dur \<Rightarrow>
          if dur < minRange then (Inr (400, TooShort dur), d)
          else (let from = now - min dur maxRange
                in case QuerySystemMetrics from now d of
                     (sys, d1) \<Rightarrow>
                       (case QueryTrafficMetrics from now d1 of
                          (traffic, d2) \<Rightarrow>
                            (case sys of
                               Inl e \<Rightarrow> (Inr (500, MetricsDb e), d2)
                             | Inr ss \<Rightarrow>
                                 (case traffic of
                                    Inl e \<Rightarrow> (Inr (500, MetricsDb e), d2)
                                  | Inr ts \<Rightarrow> (Inr (200, MetricsJson from now (system_columns ss) (traffic_columns ts)), d2))))))"

definition handleGetMetricsSystem :: "time \<Rightarrow> string \<Rightarrow> (int \<times> metrics_body) dbm" where
  "handleGetMetricsSystem now r d =
     (let rng = range_or_default r
      in case rangeEnumMap rng of
           None \<Rightarrow> (Inr (400, BadEnum rng), d)
         | Some dur \<Rightarrow>
             (case QuerySystemMetrics (now - dur) now d of
                (Inl e, d1) \<Rightarrow> (Inr (500, MetricsDb e), d1)
              | (Inr rows, d1) \<Rightarrow> (Inr (200, SystemJson rng (now - dur) now (system_columns rows)), d1)))"

definition handleGetMetricsTraffic :: "time \<Rightarrow> string \<Rightarrow> (int \<times> metrics_body) dbm" where
  "handleGetMetricsTraffic now r d =
     (let rng = range_or_default r
      in case rangeEnumMap rng of
           None \<Rightarrow> (Inr (400, BadEnum rng), d)
         | Some dur \<Rightarrow>
             (case QueryTrafficMetrics (now - dur) now d of
                (Inl e, d1) \<Rightarrow> (Inr (500, MetricsDb e), d1)
              | (Inr rows, d1) \<Rightarrow> (Inr (200, TrafficJson rng (now - dur) now (traffic_columns rows)), d1)))"

definition rate_of :: "int \<Rightarrow> rat \<Rightarrow> int" where
  "rate_of delta dt = float_int64 (Fin (fl (fl (of_int (if delta < 0 then 0 else delta)) / dt)))"

fun rate_points :: "client_traffic list \<Rightarrow> (time \<times> int \<times> int) list" where
  "rate_points (a # b # rows) =
     (let dt = in_units second (time_sub (ct_TS b) (ct_TS a))
      in if dt \<le> 0 then rate_points (b # rows)
         else (ct_TS b, rate_of (i64 (ct_RxBytesCum b - ct_RxBytesCum a)) dt, rate_of (i64 (ct_TxBytesCum b - ct_TxBytesCum a)) dt) #
           rate_points (b # rows))"
| "rate_points _ = []"

definition client_columns :: "client_traffic list \<Rightarrow> client_series" where
  "client_columns rows =
     (let ps = rate_points rows
      in \<lparr>cs_TS = map fst ps, cs_RxRateBps = map (fst \<circ> snd) ps, cs_TxRateBps = map (snd \<circ> snd) ps\<rparr>)"

definition handleGetMetricsClient :: "(manifest_error + manifest_client list) \<Rightarrow> time \<Rightarrow> string \<Rightarrow> string \<Rightarrow> (int \<times> metrics_body) dbm" where
  "handleGetMetricsClient manifest now key r d =
     (if key = [] then (Inr (404, NotFoundText), d)
      else (let rng = range_or_default r
            in case rangeEnumMap rng of
                 None \<Rightarrow> (Inr (400, BadEnum rng), d)
               | Some dur \<Rightarrow>
                   (case manifest of
                      Inl e \<Rightarrow> (Inr (500, ManifestText e), d)
                    | Inr cs \<Rightarrow>
                        if \<not> list_ex (\<lambda>c. mc_PublicKey c = key) cs then (Inr (404, NotFoundText), d)
                        else (case QueryClientTraffic key (now - dur) now d of
                                (Inl e, d1) \<Rightarrow> (Inr (500, MetricsDb e), d1)
                              | (Inr rows, d1) \<Rightarrow> (Inr (200, ClientJson key rng (now - dur) now (client_columns rows)), d1)))))"

subsection \<open>Rates\<close>

lemma div_le_self: "0 \<le> a \<Longrightarrow> 0 < k \<Longrightarrow> a div k \<le> a" for a k :: int
  using zdiv_mono2 [of a 1 k] by simp

text \<open>A quotient of integers of the format, rounded and cut, is the integer quotient.\<close>

lemma floor_fl_div:
  assumes "0 \<le> a" and "a < 2 ^ 53" and "0 < k"
  shows "\<lfloor>fl (of_int a / of_int k)\<rfloor> = a div k"
proof -
  define n r where "n = a div k" and "r = a mod k"
  have a: "a = n * k + r" by (simp add: n_def r_def)
  have r: "0 \<le> r" "r < k" using assms(3) by (simp_all add: r_def)
  have n: "0 \<le> n" using assms by (simp add: n_def pos_imp_zdiv_nonneg_iff)
  have "n \<le> a" using assms by (simp add: n_def div_le_self)
  then have nb: "n < 2 ^ 53" using assms(2) by linarith
  define x K :: rat where "x = of_int a / of_int k" and "K = of_int k"
  have K: "0 < K" using assms(3) by (simp add: K_def)
  have x: "x = of_int n + of_int r / K" unfolding x_def a using K by (simp add: K_def field_simps)
  show ?thesis
  proof (cases "r = 0")
    case True
    then have "x = of_nat (nat n)" using n x by simp
    then have "fl x = of_int n" using fl_int_exact [of "nat n"] n nb by simp
    then show ?thesis by (simp add: x_def n_def)
  next
    case False
    then have "1 \<le> r" "r \<le> k - 1" using r by linarith+
    then have ri: "1 / K \<le> of_int r / K" "of_int r / K \<le> 1 - 1 / K"
    proof -
      show "1 / K \<le> of_int r / K" using K \<open>1 \<le> r\<close> by (intro divide_right_mono) simp_all
      have "of_int r \<le> (of_int (k - 1) :: rat)" using \<open>r \<le> k - 1\<close> by (simp only: of_int_le_iff)
      then have "of_int r / K \<le> (K - 1) / K" using K by (intro divide_right_mono) (simp_all add: K_def)
      then show "of_int r / K \<le> 1 - 1 / K" using K by (simp add: field_simps)
    qed
    have x0: "0 \<le> x" using assms K by (simp add: x_def K_def)
    have "(of_int a :: rat) < of_int (2 ^ 53)" using assms(2) by (simp only: of_int_less_iff)
    then have "x < 2 ^ 53 / K" unfolding x_def K_def [symmetric] using K by (simp add: divide_strict_right_mono)
    then have "x / 2 ^ 53 < 1 / K" by (simp add: field_simps)
    with fl_near [of x] x0 have e: "\<bar>fl x - x\<bar> < 1 / K" by linarith
    have "of_int n < fl x" "fl x < of_int n + 1" using e ri unfolding x by linarith+
    then have "\<lfloor>fl x\<rfloor> = n" by linarith
    then show ?thesis by (simp add: x_def n_def)
  qed
qed

lemma rate_exact:
  assumes "delta < 2 ^ 53" and "0 < k" and "k < 2 ^ 53"
  shows "rate_of delta (of_int k) = max 0 delta div k"
proof -
  let ?d = "max 0 delta"
  have d: "0 \<le> ?d" "?d < 2 ^ 53" using assms by auto
  have f: "fl (of_int ?d) = of_int ?d" using fl_int_exact [of "nat ?d"] d by simp
  have m: "(if delta < 0 then 0 else delta) = ?d" by auto
  have b: "0 \<le> ?d div k" "?d div k \<le> ?d" using d assms by (simp_all add: pos_imp_zdiv_nonneg_iff div_le_self)
  have q: "0 \<le> (of_int ?d / of_int k :: rat)" using d assms(2) by (intro divide_nonneg_nonneg) simp_all
  have "0 \<le> fl (of_int ?d / of_int k)" by (rule order_trans [OF _ fl_half(1) [OF q]]) (use q in simp)
  then show ?thesis
    unfolding rate_of_def m f using floor_fl_div [OF d assms(2)] b d by (simp add: trunc_def in_i64_def)
qed

lemma seconds_exact:
  assumes "0 < k" and "k < 2 ^ 33"
  shows "in_units second (time_sub (unix_time (a + k)) (unix_time a)) = of_int k"
proof -
  have t: "time_sub (unix_time (a + k)) (unix_time a) = k * second"
    using assms by (subst time_sub_exact) (simp_all add: unix_time_def second_def min_duration_def max_duration_def algebra_simps)
  have "fl (of_int k) = of_int k" using fl_int_exact [of "nat k"] assms by simp
  then show ?thesis using assms unfolding t by (simp add: in_units_def second_def)
qed

text \<open>The rate of a counter between two readings, as integer arithmetic: a reset counts as none.\<close>

fun counter_rates :: "(int \<times> int \<times> int) list \<Rightarrow> (time \<times> int \<times> int) list" where
  "counter_rates ((t, rx, tx) # (t', rx', tx') # rows) =
     (unix_time t', max 0 (rx' - rx) div (t' - t), max 0 (tx' - tx) div (t' - t)) # counter_rates ((t', rx', tx') # rows)"
| "counter_rates _ = []"

definition small_counter :: "int \<Rightarrow> bool" where
  "small_counter n \<longleftrightarrow> 0 \<le> n \<and> n < 2 ^ 53"

lemma small_delta: "small_counter a \<Longrightarrow> small_counter b \<Longrightarrow> i64 (b - a) = b - a \<and> b - a < 2 ^ 53"
  by (auto simp: small_counter_def in_i64_def intro!: i64_id)

lemma rate_points_exact:
  "sorted_wrt (\<lambda>a b. ct_TS a < ct_TS b \<and> ct_TS b - ct_TS a < 2 ^ 33 * second) rows \<Longrightarrow>
   list_all (\<lambda>r. ct_TS r = unix_time (unix_secs (ct_TS r)) \<and> small_counter (ct_RxBytesCum r) \<and> small_counter (ct_TxBytesCum r)) rows \<Longrightarrow>
   rate_points rows = counter_rates (map (\<lambda>r. (unix_secs (ct_TS r), ct_RxBytesCum r, ct_TxBytesCum r)) rows)"
proof (induction rows rule: induct_list012)
  case (3 a b rows)
  define s t where "s = unix_secs (ct_TS a)" and "t = unix_secs (ct_TS b)"
  have ts: "ct_TS a = unix_time s" "ct_TS b = unix_time t" using 3(4) by (simp_all add: s_def t_def)
  let ?k = "t - s"
  have "unix_time s < unix_time t" "unix_time t - unix_time s < 2 ^ 33 * second" using 3(3) ts by auto
  then have k: "0 < ?k" "?k < 2 ^ 33" by (simp_all add: unix_time_def second_def)
  have dt: "in_units second (time_sub (unix_time t) (unix_time s)) = of_int ?k"
    using seconds_exact [OF k, of s] by simp
  have pos: "\<not> (of_int ?k :: rat) \<le> 0" using k by simp
  have c: "small_counter (ct_RxBytesCum a)" "small_counter (ct_RxBytesCum b)" "small_counter (ct_TxBytesCum a)" "small_counter (ct_TxBytesCum b)"
    using 3(4) by simp_all
  have kk: "?k < 2 ^ 53" using k(2) by simp
  have rest: "rate_points (b # rows) = counter_rates (map (\<lambda>r. (unix_secs (ct_TS r), ct_RxBytesCum r, ct_TxBytesCum r)) (b # rows))"
    by (rule 3(2)) (use 3(3,4) in simp_all)
  show ?case
    using rest pos small_delta [OF c(1,2)] small_delta [OF c(3,4)] rate_exact [OF _ k(1) kk]
    by (simp add: ts dt Let_def s_def [symmetric] t_def [symmetric])
qed simp_all

subsection \<open>What the feeds answer\<close>

definition client_rows :: "string \<Rightarrow> time \<Rightarrow> time \<Rightarrow> tables \<Rightarrow> ((int \<times> string) \<times> string \<times> string \<times> int \<times> int) list" where
  "client_rows key from to t =
     sort_key (\<lambda>r. fst (fst r)) (filter (\<lambda>r. snd (fst r) = key \<and> between from to (fst (fst r))) (client_traffics t))"

lemma client_rows_sorted:
  assumes "tables_ok t"
  shows "sorted_wrt (\<lambda>a b. fst (fst a) < fst (fst b)) (client_rows key from to t)"
proof -
  let ?f = "filter (\<lambda>r. snd (fst r) = key \<and> between from to (fst (fst r))) (client_traffics t)"
  have "distinct (map fst ?f)" using assms by (intro distinct_map_filter) (simp add: tables_ok_def)
  moreover have "inj_on fst (fst ` set ?f)" by (auto intro!: inj_onI)
  ultimately have "distinct (map (\<lambda>r. fst (fst r)) ?f)" by (auto simp: distinct_map inj_on_def)
  then have "distinct (map (\<lambda>r. fst (fst r)) (client_rows key from to t))"
    by (simp add: client_rows_def distinct_map distinct_sort)
  moreover have "sorted (map (\<lambda>r. fst (fst r)) (client_rows key from to t))" by (simp add: client_rows_def)
  ultimately have "sorted_wrt (<) (map (\<lambda>r. fst (fst r)) (client_rows key from to t))"
    by (simp add: strict_sorted_iff)
  then show ?thesis by (simp add: sorted_wrt_map)
qed

definition counters_small :: "tables \<Rightarrow> bool" where
  "counters_small t \<longleftrightarrow> list_all (\<lambda>(k, n, a, rx, tx). small_counter rx \<and> small_counter tx) (client_traffics t)"

lemma range_bounds: "rangeEnumMap r = Some dur \<Longrightarrow> hour \<le> dur \<and> dur \<le> 7 * 24 * hour"
  by (auto simp: rangeEnumMap_def hour_def minute_def second_def split: if_splits)

lemma rate_points_rows:
  assumes "tables_ok t" and "counters_small t" and "rangeEnumMap r = Some dur"
  shows "rate_points (map client_traffic_of (client_rows key (now - dur) now t)) =
    counter_rates (map (\<lambda>((ts, k), n, a, rx, tx). (ts, rx, tx)) (client_rows key (now - dur) now t))"
proof -
  let ?rows = "client_rows key (now - dur) now t"
  have mem: "between (now - dur) now (fst (fst x)) \<and> x \<in> set (client_traffics t)" if "x \<in> set ?rows" for x
    using that by (simp add: client_rows_def)
  have near: "fst (fst b) - fst (fst a) < 2 ^ 33" if "a \<in> set ?rows" "b \<in> set ?rows" for a b
  proof -
    have "(now - dur) div 10 ^ 9 \<le> fst (fst a)" "fst (fst b) \<le> now div 10 ^ 9"
      using mem [OF that(1)] mem [OF that(2)] by (simp_all add: between_def unix_secs_def)
    moreover have "now div 10 ^ 9 \<le> (now - dur + 604800 * 10 ^ 9) div 10 ^ 9"
      using range_bounds [OF assms(3)] by (intro zdiv_mono1) (simp_all add: hour_def minute_def second_def)
    moreover have "(now - dur + 604800 * 10 ^ 9) div 10 ^ 9 = 604800 + (now - dur) div 10 ^ 9" by (rule div_mult_self1) simp
    ultimately show ?thesis by simp
  qed
  have ts: "ct_TS (client_traffic_of x) = unix_time (fst (fst x))" for x by (simp add: client_traffic_of_def split: prod.split)
  have s: "sorted_wrt (\<lambda>a b. ct_TS (client_traffic_of a) < ct_TS (client_traffic_of b) \<and>
      ct_TS (client_traffic_of b) - ct_TS (client_traffic_of a) < 2 ^ 33 * second) ?rows"
  proof (rule sorted_wrt_mono_rel [OF _ client_rows_sorted [OF assms(1)]])
    fix a b assume m: "a \<in> set ?rows" "b \<in> set ?rows" and lt: "fst (fst a) < fst (fst b)"
    have "unix_time (fst (fst b)) - unix_time (fst (fst a)) = (fst (fst b) - fst (fst a)) * 10 ^ 9"
      by (simp add: unix_time_def algebra_simps)
    also have "\<dots> < 2 ^ 33 * 10 ^ 9" using near [OF m] by (intro mult_strict_right_mono) simp_all
    finally show "ct_TS (client_traffic_of a) < ct_TS (client_traffic_of b) \<and>
        ct_TS (client_traffic_of b) - ct_TS (client_traffic_of a) < 2 ^ 33 * second"
      using lt by (simp add: ts second_def)
  qed
  have c: "list_all (\<lambda>r. ct_TS r = unix_time (unix_secs (ct_TS r)) \<and> small_counter (ct_RxBytesCum r) \<and> small_counter (ct_TxBytesCum r))
      (map client_traffic_of ?rows)"
    using mem assms(2) by (fastforce simp: list_all_iff counters_small_def client_traffic_of_def)
  have m: "map (\<lambda>r. (unix_secs (ct_TS r), ct_RxBytesCum r, ct_TxBytesCum r)) (map client_traffic_of ?rows) =
      map (\<lambda>((ts, k), n, a, rx, tx). (ts, rx, tx)) ?rows"
    by (auto simp: client_traffic_of_def)
  show ?thesis unfolding m [symmetric] by (rule rate_points_exact [OF _ c]) (use s in \<open>simp add: sorted_wrt_map\<close>)
qed

text \<open>
  C29. The chart of a client of the manifest shows, for every reading of the window but the first, the whole
  bytes per second since the reading before: the floating-point division of the code is the integer
  division, a reset counts as no traffic, and no reading is skipped.
\<close>

theorem client_chart_exact:
  assumes "faults d = []" and "tables_ok (tabs d)" and "counters_small (tabs d)"
    and "rangeEnumMap (range_or_default r) = Some dur" and "c \<in> set cs" and "mc_PublicKey c = key" and "key \<noteq> []"
  shows "handleGetMetricsClient (Inr cs) now key r d =
    (let ps = counter_rates (map (\<lambda>((ts, k), n, a, rx, tx). (ts, rx, tx)) (client_rows key (now - dur) now (tabs d)))
     in (Inr (200, ClientJson key (range_or_default r) (now - dur) now
          \<lparr>cs_TS = map fst ps, cs_RxRateBps = map (fst \<circ> snd) ps, cs_TxRateBps = map (snd \<circ> snd) ps\<rparr>), d))"
proof -
  have q: "QueryClientTraffic key (now - dur) now d = (Inr (map client_traffic_of (client_rows key (now - dur) now (tabs d))), d)"
    using assms(1) by (simp add: QueryClientTraffic_def db_query_no_fault client_rows_def)
  have "list_ex (\<lambda>c. mc_PublicKey c = key) cs" using assms(5,6) by (auto simp: list_ex_iff)
  then show ?thesis
    using assms(4,7) by (simp add: handleGetMetricsClient_def q Let_def client_columns_def rate_points_rows [OF assms(2,3,4)])
qed

text \<open>
  C30. A client the manifest of the boot does not hold has a detail page and no chart: the page looks the
  key up in the database, the feed of its chart in the file.
\<close>

theorem added_client_has_no_chart:
  assumes "svc_List s = (Inr cs, s1)" and "c \<in> set cs" and "PublicKey c \<noteq> []"
    and "PublicKey c \<notin> mc_PublicKey ` set boot" and "rangeEnumMap (range_or_default r) = Some dur"
  shows "fst (fst (handleGetPartialClientDetail now \<lparr>q_HX = ''true'', q_ContentType = [], q_Json = None, q_Form = None, q_Name = PublicKey c, q_Range = []\<rparr> s)) = 200 \<and>
    handleGetMetricsClient (Inr boot) now (PublicKey c) r d = (Inr (404, NotFoundText), d)"
proof -
  have "list_ex (\<lambda>c'. PublicKey c' = PublicKey c) cs" using assms(2) by (auto simp: list_ex_iff)
  moreover have "\<not> list_ex (\<lambda>m. mc_PublicKey m = PublicKey c) boot" using assms(4) by (force simp: list_ex_iff)
  ultimately show ?thesis
    using assms(1,3,5) by (simp add: handleGetPartialClientDetail_def handleGetMetricsClient_def split: prod.splits)
qed


definition chart_db :: db where
  "chart_db = (open_db [])\<lparr>tabs := empty_tables\<lparr>client_traffics :=
     [((160, ''K''), ''bob'', ''a'', 10, 70), ((100, ''K''), ''bob'', ''a'', 0, 10), ((130, ''L''), ''eve'', ''b'', 9, 9),
      ((130, ''K''), ''bob'', ''a'', 3001, 40)]\<rparr>\<rparr>"

theorem client_chart_exact_witness:
  "handleGetMetricsClient (Inr [\<lparr>mc_Name = ''bob'', mc_Address = ''a'', mc_PublicKey = ''K''\<rparr>]) (unix_time 200) ''K'' ''1h'' chart_db =
    (Inr (200, ClientJson ''K'' ''1h'' (unix_time 200 - hour) (unix_time 200)
       \<lparr>cs_TS = [unix_time 130, unix_time 160], cs_RxRateBps = [100, 0], cs_TxRateBps = [1, 1]\<rparr>), chart_db)"
proof -
  have f: "faults chart_db = []" "tables_ok (tabs chart_db)" "counters_small (tabs chart_db)" "rangeEnumMap (range_or_default ''1h'') = Some hour"
    by (simp_all add: chart_db_def open_db_def tables_ok_def empty_tables_def clients_ok_def counters_small_def small_counter_def
        rangeEnumMap_def range_or_default_def)
  have r: "client_rows ''K'' (unix_time 200 - hour) (unix_time 200) (tabs chart_db) =
      [((100, ''K''), ''bob'', ''a'', 0, 10), ((130, ''K''), ''bob'', ''a'', 3001, 40), ((160, ''K''), ''bob'', ''a'', 10, 70)]"
    by (simp add: client_rows_def chart_db_def open_db_def between_def unix_secs_def unix_time_def hour_def minute_def second_def)
  show ?thesis
    using client_chart_exact [OF f, of "\<lparr>mc_Name = ''bob'', mc_Address = ''a'', mc_PublicKey = ''K''\<rparr>"
      "[\<lparr>mc_Name = ''bob'', mc_Address = ''a'', mc_PublicKey = ''K''\<rparr>]" "''K''" "unix_time 200"] 
    by (simp add: r range_or_default_def)
qed

theorem added_client_has_no_chart_witness:
  "\<exists>q. fst (fst (handleGetPartialClientDetail 5 q one_laptop)) = 200 \<and>
    handleGetMetricsClient (Inr []) 5 (r_public_key laptop_row) [] chart_db = (Inr (404, NotFoundText), chart_db)"
proof -
  have l: "svc_List one_laptop = (Inr [client_of_row laptop_row], one_laptop)"
    using List_no_fault [OF one_laptop_simps(1)] one_laptop_simps(3) by simp
  have k: "PublicKey (client_of_row laptop_row) = r_public_key laptop_row" "r_public_key laptop_row \<noteq> []"
    by (simp_all add: client_of_row_def laptop_row_def row_of_client_def add_record_def laptop_def key_of_def)
  have "rangeEnumMap (range_or_default []) = Some (24 * hour)" by (simp add: rangeEnumMap_def range_or_default_def)
  from added_client_has_no_chart [OF l _ _ _ this, of "client_of_row laptop_row" "[]" 5 chart_db] k show ?thesis by auto
qed

end
