(* ===== verification/Boot.thy ===== *)
theory Boot
  imports MetricsApi Alerts
begin

text \<open>
  The program (\<^verbatim>\<open>cmd/wireguard-dashboard/main.go\<close>): the environment it reads and the boot of
  the client service. The environment is a function from names to values, empty when unset; the
  hostname is a parameter. Flags, logging, the listener and the shutdown are not modelled.
\<close>

type_synonym environ = "string \<Rightarrow> string"

definition getenv :: "environ \<Rightarrow> string \<Rightarrow> string \<Rightarrow> string" where
  "getenv env key def = (if env key \<noteq> [] then env key else def)"

text \<open>Comparisons of floats: every one with NaN is false.\<close>

fun float_le :: "gofloat \<Rightarrow> gofloat \<Rightarrow> bool" where
  "float_le NaN y = False"
| "float_le x NaN = False"
| "float_le NegInf y = True"
| "float_le x PosInf = True"
| "float_le PosInf y = False"
| "float_le x NegInf = False"
| "float_le (Fin a) (Fin b) = (a \<le> b)"

fun float_less :: "gofloat \<Rightarrow> gofloat \<Rightarrow> bool" where
  "float_less NaN y = False"
| "float_less x NaN = False"
| "float_less x NegInf = False"
| "float_less PosInf y = False"
| "float_less NegInf y = True"
| "float_less x PosInf = True"
| "float_less (Fin a) (Fin b) = (a < b)"

definition envPct :: "environ \<Rightarrow> string \<Rightarrow> rat \<Rightarrow> gofloat" where
  "envPct env key def =
     (let raw = env key
      in if raw = [] then Fin def
         else (case parse_float raw of
                 None \<Rightarrow> Fin def
               | Some v \<Rightarrow> if float_le v (Fin 0) \<or> float_less (Fin 100) v then Fin def else v))"

definition envMode :: "environ \<Rightarrow> string \<Rightarrow> string \<Rightarrow> string" where
  "envMode env key def =
     (let raw = env key
      in if raw = [] then def else if raw \<noteq> ''local'' \<and> raw \<noteq> ''cloud'' then def else raw)"

definition envDuration :: "environ \<Rightarrow> string \<Rightarrow> duration \<Rightarrow> duration" where
  "envDuration env key def =
     (let raw = env key
      in if raw = [] then def
         else (case ParseDuration raw of None \<Rightarrow> def | Some d \<Rightarrow> if d \<le> 0 then def else d))"

definition byte_unit :: "string \<Rightarrow> rat option" where
  "byte_unit u =
     (if u \<in> {[], ''b''} then Some 1
      else if u = ''kb'' then Some (10 ^ 3) else if u = ''mb'' then Some (10 ^ 6)
      else if u = ''gb'' then Some (10 ^ 9) else if u = ''tb'' then Some (10 ^ 12)
      else if u \<in> {''k'', ''kib''} then Some (2 ^ 10) else if u \<in> {''m'', ''mib''} then Some (2 ^ 20)
      else if u \<in> {''g'', ''gib''} then Some (2 ^ 30) else if u \<in> {''t'', ''tib''} then Some (2 ^ 40)
      else None)"

text \<open>The trailing unit is what follows the last digit or point.\<close>

definition split_unit :: "string \<Rightarrow> string \<times> string" where
  "split_unit s =
     (let u = rev (takeWhile (\<lambda>c. \<not> (is_digit c \<or> c = CHR ''.'')) (rev s))
      in (take (length s - length u) s, u))"

fun scale_float :: "gofloat \<Rightarrow> rat \<Rightarrow> gofloat" where
  "scale_float (Fin r) k = Fin (fl (r * k))"
| "scale_float x k = x"

definition parseByteSize :: "string \<Rightarrow> int option" where
  "parseByteSize s0 =
     (let s = trim_space s0
      in if s = [] then None
         else (case split_unit s of
                 (num, u) \<Rightarrow>
                   (case parse_float (trim_space num) of
                      None \<Rightarrow> None
                    | Some v \<Rightarrow>
                        (case byte_unit (to_lower (trim_space u)) of
                           None \<Rightarrow> None
                         | Some k \<Rightarrow> Some (float_int64 (scale_float v k))))))"

definition envBytes :: "environ \<Rightarrow> string \<Rightarrow> int \<Rightarrow> int" where
  "envBytes env key def =
     (let raw = env key
      in if raw = [] then def
         else (case parseByteSize raw of None \<Rightarrow> def | Some v \<Rightarrow> if v \<le> 0 then def else v))"

definition hostLabel :: "environ \<Rightarrow> string + string \<Rightarrow> string" where
  "hostLabel env hostname =
     (if env ''DASHBOARD_HOST_LABEL'' \<noteq> [] then env ''DASHBOARD_HOST_LABEL''
      else (case hostname of
              Inl e \<Rightarrow> ''wireguard-dashboard''
            | Inr h \<Rightarrow> if h \<noteq> [] then h else ''wireguard-dashboard''))"

text \<open>The configuration of the evaluator, when both thresholds are numbers.\<close>

definition boot_config :: "environ \<Rightarrow> string + string \<Rightarrow> alert_config option" where
  "boot_config env hostname =
     (case (envPct env ''DASHBOARD_ALERT_DISK_PCT'' DefaultDiskThresholdPct, envPct env ''DASHBOARD_ALERT_CPU_PCT'' DefaultCPUThresholdPct) of
        (Fin disk, Fin cpu) \<Rightarrow>
          Some \<lparr>cfg_Cooldown = 0, cfg_Host = hostLabel env hostname, cfg_DiskThresholdPct = disk, cfg_CPUThresholdPct = cpu,
                cfg_CPUSustain = envDuration env ''DASHBOARD_ALERT_CPU_SUSTAIN'' DefaultCPUSustain,
                cfg_TransferCapBytes = envBytes env ''DASHBOARD_ALERT_TRANSFER_BYTES'' DefaultTransferCapBytes\<rparr>
      | _ \<Rightarrow> None)"

subsection \<open>The boot of the client service\<close>

definition boot_mode :: "environ \<Rightarrow> string" where
  "boot_mode env = envMode env ''CLIENT_MANAGEMENT_MODE'' ''local''"

text \<open>A cloud boot without the name of the object exits; \<open>s3\<close> makes the store for it.\<close>

definition boot_store :: "environ \<Rightarrow> (string \<Rightarrow> string \<Rightarrow> 'w store) \<Rightarrow> 'w store option" where
  "boot_store env s3 =
     (if boot_mode env = ''cloud'' then
        (let bucket = env ''CLIENT_STORE_S3_BUCKET''; key = env ''CLIENT_STORE_S3_KEY''
         in if bucket = [] \<or> key = [] then None else Some (s3 bucket key))
      else Some NoopStore)"

definition boot_seed :: "manifest_error + manifest_client list \<Rightarrow> manifest_client list" where
  "boot_seed manifest = (case manifest of Inl e \<Rightarrow> [] | Inr cs \<Rightarrow> cs)"

definition wired_service :: "environ \<Rightarrow> 'w store \<Rightarrow> 'w applier \<Rightarrow> db \<Rightarrow> 'w \<Rightarrow> 'w service" where
  "wired_service env st ap d w = SetStore (Some st) (SetApplier (Some ap) (NewService d (getenv env ''WG_SERVER_NET'' []) w))"

definition boot_clients :: "environ \<Rightarrow> time \<Rightarrow> (nat \<Rightarrow> string list \<Rightarrow> string list) \<Rightarrow> manifest_error + manifest_client list \<Rightarrow>
    'w service \<Rightarrow> 'w service" where
  "boot_clients env now order manifest s =
     (if boot_mode env = ''cloud'' then snd (ReconcileFromStore now order (boot_seed manifest) s)
      else snd (Reconcile (snd (Seed now (boot_seed manifest) s))))"

definition boot :: "environ \<Rightarrow> (string \<Rightarrow> string \<Rightarrow> 'w store) \<Rightarrow> 'w applier \<Rightarrow> time \<Rightarrow> (nat \<Rightarrow> string list \<Rightarrow> string list) \<Rightarrow>
    manifest_error + manifest_client list \<Rightarrow> db \<Rightarrow> 'w \<Rightarrow> 'w service option" where
  "boot env s3 ap now order manifest d w =
     map_option (\<lambda>st. boot_clients env now order manifest (wired_service env st ap d w)) (boot_store env s3)"

section \<open>Lemmas\<close>

lemma float_le_nonneg: "\<not> float_le v (Fin 0) \<Longrightarrow> \<not> float_less (Fin 100) v \<Longrightarrow> v = NaN \<or> (\<exists>p. v = Fin p \<and> 0 < p \<and> p \<le> 100)"
  by (cases v) auto

lemma envPct_cases:
  assumes "0 < def" "def \<le> 100"
  shows "(\<exists>p. envPct env key def = Fin p \<and> 0 < p \<and> p \<le> 100) \<or> envPct env key def = NaN \<and> parse_float (env key) = Some NaN"
proof (cases "parse_float (env key)")
  case (Some v)
  show ?thesis using float_le_nonneg [of v] Some assms by (auto simp: envPct_def Let_def)
qed (use assms in \<open>simp add: envPct_def Let_def\<close>)

lemma envDuration_pos: "0 < def \<Longrightarrow> 0 < envDuration env key def"
  by (auto simp: envDuration_def Let_def split: option.split)

lemma envBytes_pos: "0 < def \<Longrightarrow> 0 < envBytes env key def"
  by (auto simp: envBytes_def Let_def split: option.split)

lemma wired_simps [simp]:
  "svc_db (wired_service env st ap d w) = d" "applier (wired_service env st ap d w) = ap"
  "svc_store (wired_service env st ap d w) = st" "storeReady (wired_service env st ap d w)"
  "world (wired_service env st ap d w) = w"
  "serverNet (wired_service env st ap d w) = serverNet (NewService d (getenv env ''WG_SERVER_NET'' []) w)"
  by (simp_all add: wired_service_def SetStore_def SetApplier_def NewService_def Let_def)

text \<open>A bulk replace that meets no fault and an applier that does not fail.\<close>

lemma ReplaceAll_runs:
  assumes v: "validateSet (serverNet s) es = None" and ok: "tables_ok (tabs (svc_db s))"
    and nc: "no_clash (tabs (svc_db s)) (map (replace_record now) es)" and f: "faults (svc_db s) = []"
    and ord: "any_order order" and rd: "storeReady s" and ap: "\<And>cs v. fst (applier_Apply (applier s) cs v) = None"
  shows "\<exists>cs s'. ReplaceAll now order es s = (Inr cs, s') \<and> storeReady s'"
proof -
  from replaceClientsTx_succeeds [OF ok ord nc f] obtain d where
    "replaceClientsTx order (map (replace_record now) es) (svc_db s) = (Inr (), d)" "faults d = []" by blast
  then have "ReplaceClients order (map (replace_record now) es) (svc_db s) = (Inr (), d)"
    unfolding ReplaceClients_def by (intro db_tx_no_fault [OF f])
  then have w: "with_db ''clients: replace all'' (ReplaceClients order (map (replace_record now) es)) s = (Inr (), s\<lparr>svc_db := d\<rparr>)"
    by (simp add: with_db_def)
  obtain v where "applier_Apply (applier s) (listed (tabs d)) (world s) = (None, v)"
    using ap by (metis prod.collapse)
  then show ?thesis using v \<open>faults d = []\<close> rd
    by (simp add: ReplaceAll_def svc_bind_def w apply_no_fault saveStoreLocked_def save_now_eq svc_List_def list_no_fault)
qed

definition stored_records :: "time \<Rightarrow> tables \<Rightarrow> client list" where
  "stored_records now t = map (replace_record now) (map (entry_to_replace \<circ> entry_of_client) (listed t))"

lemma stored_records_of:
  "stored_records now t = map (\<lambda>c. c\<lparr>ID := 0, Enabled := True, Note := None, CreatedAt := now, UpdatedAt := now\<rparr>) (listed t)"
  by (simp add: stored_records_def replace_record_def entry_to_replace_def entry_of_client_def)

lemma listed_distinct:
  assumes "clients_ok (clients t) n"
  shows "distinct (map Name (listed t))" "distinct (map PublicKey (listed t))" "distinct (map Address (listed t))"
proof -
  have "distinct (map f (clients t)) \<Longrightarrow> distinct (map f (sort_key g (clients t)))" for f :: "client_row \<Rightarrow> string" and g :: "client_row \<Rightarrow> string \<times> int"
    by (simp add: distinct_map)
  with assms show "distinct (map Name (listed t))" "distinct (map PublicKey (listed t))" "distinct (map Address (listed t))"
    by (simp_all add: listed_def clients_ok_def client_of_row_def comp_def)
qed

lemma stored_valid:
  assumes "valid_tables sn t"
  shows "validateSet sn (map (entry_to_replace \<circ> entry_of_client) (listed t)) = None"
proof -
  have "clients_ok (clients t) (client_seq t)" using assms by (simp add: valid_tables_def tables_ok_def)
  note listed_distinct [OF this]
  moreover have "entry_ok sn (entry_to_replace (entry_of_client c))" if "c \<in> set (listed t)" for c
    using listed_valid [OF assms that] by (simp add: client_valid_def entry_ok_def entry_to_replace_def entry_of_client_def)
  ultimately show ?thesis
    by (auto simp: validateSet_def validate_entries_None comp_def entry_to_replace_def entry_of_client_def)
qed

lemma stored_no_clash:
  assumes "valid_tables sn t"
  shows "no_clash t (stored_records now t)"
proof -
  have ok: "clients_ok (clients t) (client_seq t)" using assms by (simp add: valid_tables_def tables_ok_def)
  have "r_name r \<noteq> Name c \<and> r_address r \<noteq> Address c"
    if "c \<in> set (listed t)" "r \<in> set (clients t)" "PublicKey c \<noteq> r_public_key r" for c r
  proof -
    from that(1) obtain q where q: "q \<in> set (clients t)" "c = client_of_row q" by (auto simp: set_listed)
    with that ok show ?thesis
      by (auto simp: client_of_row_def clients_ok_def distinct_map inj_on_def)
  qed
  then show ?thesis using listed_distinct [OF ok]
    unfolding no_clash_def stored_records_of by (auto simp: comp_def) 
qed

definition restored :: "time \<Rightarrow> client \<Rightarrow> client" where
  "restored now c = c\<lparr>ID := 0, Enabled := True, Note := None, CreatedAt := now, UpdatedAt := now\<rparr>"

lemma index_stored:
  assumes "tables_ok t"
  shows "index_by PublicKey (stored_records now t) k = map_option (restored now \<circ> client_of_row) (row_at t k)"
proof -
  have "clients_ok (clients t) (client_seq t)" using assms by (simp add: tables_ok_def)
  from listed_distinct(2) [OF this] have d: "distinct (map PublicKey (stored_records now t))"
    by (simp add: stored_records_of comp_def)
  have s: "set (stored_records now t) = (restored now \<circ> client_of_row) ` set (clients t)"
    by (simp add: stored_records_of restored_def set_listed image_comp comp_def)
  have k: "PublicKey ((restored now \<circ> client_of_row) r) = r_public_key r" for r
    by (simp add: restored_def client_of_row_def)
  show ?thesis
  proof (cases "row_at t k")
    case None
    then have "index_by PublicKey (stored_records now t) k = None"
      unfolding index_by_None_iff s by (auto simp: row_at_None_iff k simp del: comp_apply)
    with None show ?thesis by simp
  next
    case (Some r)
    then have r: "r \<in> set (clients t)" "r_public_key r = k" using assms by (simp_all add: row_at_Some_iff)
    then have "index_by PublicKey (stored_records now t) k = Some ((restored now \<circ> client_of_row) r)"
      unfolding index_by_distinct [OF d] s using k by blast
    with Some show ?thesis by simp
  qed
qed

text \<open>What a restored row keeps of the row it replaces.\<close>

definition reset_row :: "client_row \<Rightarrow> client_row \<Rightarrow> bool" where
  "reset_row r r' \<longleftrightarrow> r_id r' = r_id r \<and> r_name r' = r_name r \<and> r_public_key r' = r_public_key r \<and>
     r_address r' = r_address r \<and> r_created_at r' = r_created_at r \<and> r_enabled r' = 1 \<and> r_note r' = None"

lemma replaced_restored:
  "replaced old (map_option (restored now \<circ> client_of_row) old) new \<Longrightarrow> rel_option reset_row old new"
  by (cases old) (auto simp: replaced_def row_matches_def restored_def client_of_row_def reset_row_def b2i_def)

lemma restore_runs:
  assumes inv: "svc_inv sn s" and f: "faults (svc_db s) = []" and ord: "any_order order" and rd: "storeReady s"
    and ap: "\<And>cs v. fst (applier_Apply (applier s) cs v) = None"
    and ne: "clients (tabs (svc_db s)) \<noteq> []"
    and l: "store_Load (svc_store s) (world s) = (Inr (map entry_of_client (listed (tabs (svc_db s)))), w')"
  shows "\<exists>s'. ReconcileFromStore now order seed s = (Inr (), s') \<and> storeReady s' \<and>
    (\<forall>k. rel_option reset_row (row_at (tabs (svc_db s)) k) (row_at (tabs (svc_db s')) k))"
proof -
  let ?t = "tabs (svc_db s)" and ?s = "s\<lparr>world := w'\<rparr>"
  let ?es = "map (entry_to_replace \<circ> entry_of_client) (listed ?t)"
  have v: "valid_tables (serverNet s) ?t" and ok: "tables_ok ?t" using inv by (simp_all add: svc_inv_def valid_tables_def)
  have nc: "no_clash ?t (map (replace_record now) ?es)" using stored_no_clash [OF v] by (simp add: stored_records_def)
  have "\<exists>cs s'. ReplaceAll now order ?es ?s = (Inr cs, s') \<and> storeReady s'"
    by (rule ReplaceAll_runs) (use stored_valid [OF v] ok nc f ord rd ap in simp_all)
  then obtain cs s1 where r: "ReplaceAll now order ?es ?s = (Inr cs, s1)" by blast
  have "set (listed ?t) \<noteq> {}" using ne by (simp add: set_listed)
  then have "listed ?t \<noteq> []" by auto
  then have b: "ReconcileFromStore now order seed s = (Inr (), setStoreReady True s1)"
    using r l by (simp add: ReconcileFromStore_def Let_def svc_bind_def fail_not_ready_def mark_ready_def)
  from ReplaceAll_Inr [OF r] obtain d where
    d: "ReplaceClients order (map (replace_record now) ?es) (svc_db s) = (Inr (), d)" "tabs (svc_db s1) = tabs d" by auto
  have "rel_option reset_row (row_at ?t k) (row_at (tabs d) k)" for k
    using conjunct2 [OF ReplaceClients_replaced [OF ok ord d(1)], THEN spec [of _ k]] index_stored [OF ok, of now k]
    by (intro replaced_restored [of _ now]) (simp add: stored_records_def)
  with b d(2) show ?thesis by (simp add: setStoreReady_def)
qed

section \<open>Properties\<close>

text \<open>
  C31. Whatever the environment holds, a percentage threshold with a default in range is in
  \<open>(0, 100]\<close> or the variable spells NaN, and a sustain time and a byte cap with positive defaults
  are positive. The word \<^verbatim>\<open>NaN\<close> passes the range check.
\<close>

theorem alert_knobs:
  assumes "0 < pct" and "pct \<le> 100" and "0 < dur" and "0 < cap"
  shows "((\<exists>p. envPct env key pct = Fin p \<and> 0 < p \<and> p \<le> 100) \<or> envPct env key pct = NaN \<and> parse_float (env key) = Some NaN) \<and>
    0 < envDuration env key dur \<and> 0 < envBytes env key cap \<and> envPct (env(key := ''NaN'')) key pct = NaN"
proof -
  have "parse_float ''NaN'' = Some NaN" by code_simp
  then show ?thesis
    using envPct_cases [OF assms(1,2)] envDuration_pos [OF assms(3)] envBytes_pos [OF assms(4)]
    by (auto simp: envPct_def Let_def)
qed

theorem alert_knobs_witness:
  "0 < envBytes (\<lambda>_. ''50G'') ''DASHBOARD_ALERT_TRANSFER_BYTES'' 1"
  using alert_knobs [of 90 1 1 "\<lambda>_. ''50G''" "''DASHBOARD_ALERT_TRANSFER_BYTES''"] by simp

lemma local_boot:
  assumes "clients (tabs d) \<noteq> []" and "boot_mode env \<noteq> ''cloud''"
  shows "\<exists>s. boot env s3 ap now order manifest d w = Some s \<and> tabs (svc_db s) = tabs d"
proof -
  let ?s = "wired_service env NoopStore ap d w"
  obtain r s1 where c: "with_db ''clients: seed count'' CountClients ?s = (r, s1)" by fastforce
  have t: "tabs (svc_db s1) = tabs d"
    using svc_readsD [OF svc_reads_with_db [OF read_only_CountClients] c] by simp
  have "snd (Seed now (boot_seed manifest) ?s) = s1"
  proof (cases r)
    case (Inr n)
    with c have "n > 0" using assms(1) by (auto dest!: count_Inr)
    with c Inr show ?thesis by (simp add: Seed_def svc_bind_def svc_return_def)
  qed (use c in \<open>simp add: Seed_def svc_bind_def\<close>)
  moreover have "tabs (svc_db (snd (Reconcile s1))) = tabs (svc_db s1)"
    using svc_reads_apply [unfolded svc_reads_def] by (metis Reconcile_def prod.collapse)
  ultimately show ?thesis using assms(2) t by (simp add: boot_def boot_store_def boot_clients_def)
qed

text \<open>
  C32. A reboot in cloud mode that finds in the store the list the box wrote there keeps every peer,
  with its id and creation time, but enables the disabled ones and drops every note; the same
  reboot in local mode leaves the table as it was.
\<close>

theorem cloud_reboot_enables_everyone:
  assumes "boot_mode env = ''cloud''" and "env ''CLIENT_STORE_S3_BUCKET'' \<noteq> []" and "env ''CLIENT_STORE_S3_KEY'' \<noteq> []"
    and "clients (tabs d) \<noteq> []" and "svc_inv sn (NewService d (getenv env ''WG_SERVER_NET'' []) w)" and "faults d = []"
    and "any_order order" and "\<And>cs v. fst (applier_Apply ap cs v) = None"
    and "store_Load (s3 (env ''CLIENT_STORE_S3_BUCKET'') (env ''CLIENT_STORE_S3_KEY'')) w =
      (Inr (map entry_of_client (listed (tabs d))), w')"
  shows "(\<exists>s. boot env s3 ap now order manifest d w = Some s \<and> storeReady s \<and>
      (\<forall>k. rel_option reset_row (row_at (tabs d) k) (row_at (tabs (svc_db s)) k))) \<and>
    (\<exists>s. boot (env(''CLIENT_MANAGEMENT_MODE'' := ''local'')) s3 ap now order manifest d w = Some s \<and> tabs (svc_db s) = tabs d)"
proof -
  let ?st = "s3 (env ''CLIENT_STORE_S3_BUCKET'') (env ''CLIENT_STORE_S3_KEY'')"
  let ?s = "wired_service env ?st ap d w"
  have "svc_inv sn ?s" using assms(5) by (simp add: svc_inv_def) (simp add: NewService_def Let_def)
  then have "\<exists>s'. ReconcileFromStore now order (boot_seed manifest) ?s = (Inr (), s') \<and> storeReady s' \<and>
      (\<forall>k. rel_option reset_row (row_at (tabs (svc_db ?s)) k) (row_at (tabs (svc_db s')) k))"
    by (rule restore_runs) (simp_all add: assms)
  then obtain s' where
    "ReconcileFromStore now order (boot_seed manifest) ?s = (Inr (), s')" "storeReady s'"
    "\<forall>k. rel_option reset_row (row_at (tabs d) k) (row_at (tabs (svc_db s')) k)"
    by auto
  then have "boot env s3 ap now order manifest d w = Some s' \<and> storeReady s' \<and>
      (\<forall>k. rel_option reset_row (row_at (tabs d) k) (row_at (tabs (svc_db s')) k))"
    using assms(1-3) by (simp add: boot_def boot_store_def boot_clients_def)
  moreover have "boot_mode (env(''CLIENT_MANAGEMENT_MODE'' := ''local'')) \<noteq> ''cloud''"
    by (simp add: boot_mode_def envMode_def)
  ultimately show ?thesis by (blast intro: local_boot [OF assms(4)])
qed

text \<open>A box in cloud mode with one disabled peer.\<close>

definition cloud_env :: environ where
  "cloud_env k = (if k = ''CLIENT_MANAGEMENT_MODE'' then ''cloud''
     else if k = ''CLIENT_STORE_S3_BUCKET'' \<or> k = ''CLIENT_STORE_S3_KEY'' then ''clients'' else [])"

definition disabled_phone :: client_row where
  "disabled_phone = \<lparr>r_id = 1, r_name = e_Name phone, r_public_key = e_PublicKey phone, r_address = e_Address phone,
     r_enabled = 0, r_note = Some ''lost'', r_created_at = 5, r_updated_at = 5\<rparr>"

definition lost_phone :: db where
  "lost_phone = \<lparr>tabs = empty_tables\<lparr>clients := [disabled_phone], client_seq := 1\<rparr>, faults = []\<rparr>"

lemma lost_phone_inv: "svc_inv default_net_value (NewService lost_phone [] w)"
proof -
  have "row_valid default_net_value disabled_phone"
    using phone_valid [unfolded validateSet_def validate_entries_None]
    by (simp add: entry_ok_def entry_to_replace_def row_valid_def disabled_phone_def)
  moreover have "tables_ok (tabs lost_phone)"
    using tables_ok_empty by (simp add: lost_phone_def tables_ok_def clients_ok_def empty_tables_def disabled_phone_def)
  ultimately show ?thesis
    by (simp add: svc_inv_def NewService_def parse_default valid_tables_def) (simp add: lost_phone_def)
qed

theorem cloud_reboot_enables_everyone_witness:
  "\<exists>s r. boot cloud_env (\<lambda>b k. cloud_store) NoopApplier 9 (\<lambda>n ks. ks) (Inr []) lost_phone
      \<lparr>cl_obj = Some [phone], cl_down = False\<rparr> = Some s \<and>
    row_at (tabs lost_phone) (e_PublicKey phone) = Some disabled_phone \<and> r_enabled disabled_phone = 0 \<and>
    row_at (tabs (svc_db s)) (e_PublicKey phone) = Some r \<and> r_enabled r = 1"
proof -
  let ?w = "\<lparr>cl_obj = Some [phone], cl_down = False\<rparr>"
  have t: "clients (tabs lost_phone) = [disabled_phone]" "faults lost_phone = []" by (simp_all add: lost_phone_def)
  have r: "row_at (tabs lost_phone) (e_PublicKey phone) = Some disabled_phone"
    by (simp add: row_at_def t) (simp add: disabled_phone_def)
  have l: "map entry_of_client (listed (tabs lost_phone)) = [phone]"
    by (simp add: listed_def t) (simp add: entry_of_client_def client_of_row_def disabled_phone_def)
  have load: "store_Load cloud_store ?w = (Inr [phone], ?w)" by (simp add: cloud_store_def)
  have e: "boot_mode cloud_env = ''cloud''" "cloud_env ''CLIENT_STORE_S3_BUCKET'' \<noteq> []" "cloud_env ''CLIENT_STORE_S3_KEY'' \<noteq> []"
    "getenv cloud_env ''WG_SERVER_NET'' [] = []"
    by (simp_all add: cloud_env_def boot_mode_def envMode_def getenv_def)
  obtain s where "boot cloud_env (\<lambda>b k. cloud_store) NoopApplier 9 (\<lambda>n ks. ks) (Inr []) lost_phone ?w = Some s"
    "rel_option reset_row (row_at (tabs lost_phone) (e_PublicKey phone)) (row_at (tabs (svc_db s)) (e_PublicKey phone))"
    using cloud_reboot_enables_everyone [OF e(1-3), of lost_phone default_net_value ?w "\<lambda>n ks. ks" NoopApplier "\<lambda>b k. cloud_store" ?w 9 "Inr []",
      OF _ _ t(2) any_order_id] lost_phone_inv
    by (fastforce simp: t e(4) l load)
  then show ?thesis unfolding r by (auto simp: reset_row_def disabled_phone_def option_rel_Some1)
qed

end
