(* ===== verification/Procs.thy ===== *)
theory Procs
  imports Proc GoUrl
begin

text \<open>
  The process table (\<^verbatim>\<open>internal/processes/processes.go\<close>): the parsers of the files of a process, the
  walk over \<^verbatim>\<open>/proc\<close> with its deltas against the previous walk, and the five busiest
  processes. The files, the directory, the user database, the number of processors and the clock are
  parameters; so is \<^verbatim>\<open>sort.Slice\<close>, which orders by the key and leaves ties in any order.
\<close>

definition DefaultProcPath :: string where "DefaultProcPath = ''/proc''"
definition TopN :: nat where "TopN = 5"
definition CmdlineDisplayLimit :: nat where "CmdlineDisplayLimit = 60"
definition ellipsis :: string where "ellipsis = [CHR 0xE2, CHR 0x80, CHR 0xA6]"
definition nul :: char where "nul = CHR 0x00"

type_synonym user_lookup = "string \<Rightarrow> string + string"

record process =
  pc_PID :: int
  pc_User :: string
  pc_CPUPct :: rat
  pc_MemPct :: rat
  pc_Command :: string
  pc_CmdlineFull :: string

record prior_walk =
  pw_when :: time
  pw_totalJiffies :: "64 word"
  pw_perPID :: "int \<rightharpoonup> 64 word"

record processes_service =
  ps_ProcPath :: string
  ps_prior :: prior_walk

definition processes_New :: processes_service where
  "processes_New = \<lparr>ps_ProcPath = DefaultProcPath,
     ps_prior = \<lparr>pw_when = zero_time, pw_totalJiffies = 0, pw_perPID = Map.empty\<rparr>\<rparr>"

datatype processes_error = JiffiesError host_error | WalkError string string

fun sum_columns :: "string \<Rightarrow> nat \<Rightarrow> string list \<Rightarrow> 64 word \<Rightarrow> host_error + 64 word" where
  "sum_columns path i [] acc = Inr acc"
| "sum_columns path i (raw # rest) acc =
     (case parse_u64 raw of None \<Rightarrow> Inl (CpuField path i raw) | Some v \<Rightarrow> sum_columns path (Suc i) rest (acc + v))"

fun jiffies_lines :: "string \<Rightarrow> string list \<Rightarrow> bool \<Rightarrow> host_error + 64 word" where
  "jiffies_lines path [] failed = Inl (if failed then ScanFailed path else NoCpuLine path)"
| "jiffies_lines path (line # rest) failed =
     (if \<not> has_prefix ''cpu '' line then jiffies_lines path rest failed
      else (let cols = str_fields line
            in if length cols < 5 then Inl (CpuShort path (length cols)) else sum_columns path 0 (tl cols) 0))"

definition readTotalJiffies :: "file_reader \<Rightarrow> processes_service \<Rightarrow> host_error + 64 word" where
  "readTotalJiffies rd s =
     (let path = ps_ProcPath s @ ''/stat''
      in case rd path of
           Inl e \<Rightarrow> Inl (ReadFailed path e)
         | Inr data \<Rightarrow> (case scan_lines data of (lines, failed) \<Rightarrow> jiffies_lines path lines failed))"

fun memtotal_lines :: "string \<Rightarrow> string list \<Rightarrow> bool \<Rightarrow> host_error + int" where
  "memtotal_lines path [] failed = Inl (if failed then ScanFailed path else MemMissing path ''MemTotal'')"
| "memtotal_lines path (line # rest) failed =
     (case cut_byte CHR '':'' line of
        None \<Rightarrow> memtotal_lines path rest failed
      | Some (key, v) \<Rightarrow>
          if key \<noteq> ''MemTotal'' then memtotal_lines path rest failed
          else (case parseMeminfoKB v of None \<Rightarrow> Inl (MemParse path key) | Some n \<Rightarrow> Inr n))"

definition readMemTotalKB :: "file_reader \<Rightarrow> processes_service \<Rightarrow> host_error + int" where
  "readMemTotalKB rd s =
     (let path = ps_ProcPath s @ ''/meminfo''
      in case rd path of
           Inl e \<Rightarrow> Inl (ReadFailed path e)
         | Inr data \<Rightarrow> (case scan_lines data of (lines, failed) \<Rightarrow> memtotal_lines path lines failed))"

subsection \<open>The files of one process\<close>

definition pid_path :: "processes_service \<Rightarrow> int \<Rightarrow> string \<Rightarrow> string" where
  "pid_path s pid name = ps_ProcPath s @ ''/'' @ itoa pid @ ''/'' @ name"

definition trim_right_byte :: "char \<Rightarrow> string \<Rightarrow> string" where
  "trim_right_byte c s = rev (dropWhile (\<lambda>x. x = c) (rev s))"

text \<open>
  The name of a process lies between the first opening and the last closing parenthesis of its
  line and may hold both; an answer is the user time, the system time and the name.
\<close>

definition parse_stat :: "string \<Rightarrow> (64 word \<times> 64 word \<times> string) option" where
  "parse_stat data =
     (case cut_byte CHR ''('' (trim_right_byte nl data) of
        None \<Rightarrow> None
      | Some (before, rest) \<Rightarrow>
          if CHR '')'' \<notin> set rest then None
          else (let comm = before_last CHR '')'' rest; cols = str_fields (trim_space (after_last CHR '')'' rest))
                in if length cols < 13 then None
                   else (case parse_u64 (cols ! 11) of None \<Rightarrow> None
                         | Some utime \<Rightarrow> (case parse_u64 (cols ! 12) of None \<Rightarrow> None
                            | Some stime \<Rightarrow> Some (utime, stime, comm)))))"

definition readStat :: "file_reader \<Rightarrow> processes_service \<Rightarrow> int \<Rightarrow> (64 word \<times> 64 word \<times> string) option" where
  "readStat rd s pid = (case rd (pid_path s pid ''stat'') of Inl e \<Rightarrow> None | Inr data \<Rightarrow> parse_stat data)"

definition status_line :: "string \<Rightarrow> string option \<times> int \<Rightarrow> string option \<times> int" where
  "status_line line st =
     (case cut_byte CHR '':'' line of
        None \<Rightarrow> st
      | Some (key, v) \<Rightarrow>
          if key = ''Uid'' then (case str_fields v of [] \<Rightarrow> st | f # fs \<Rightarrow> (Some f, snd st))
          else if key = ''VmRSS'' then (case parseMeminfoKB v of None \<Rightarrow> st | Some n \<Rightarrow> (fst st, n))
          else st)"

definition parse_status :: "string \<Rightarrow> (string \<times> int) option" where
  "parse_status data =
     (case scan_lines data of
        (lines, failed) \<Rightarrow>
          (case fold status_line lines (None, 0) of
             (uid, rss) \<Rightarrow> if failed then None else map_option (\<lambda>u. (u, rss)) uid))"

definition readStatus :: "file_reader \<Rightarrow> processes_service \<Rightarrow> int \<Rightarrow> (string \<times> int) option" where
  "readStatus rd s pid = (case rd (pid_path s pid ''status'') of Inl e \<Rightarrow> None | Inr data \<Rightarrow> parse_status data)"

definition parse_cmdline :: "string \<Rightarrow> string \<Rightarrow> string" where
  "parse_cmdline data comm =
     (let d = trim_right_byte nul data
      in if d = [] then CHR ''['' # comm @ '']'' else trim_space (map (\<lambda>c. if c = nul then CHR '' '' else c) d))"

definition readCmdline :: "file_reader \<Rightarrow> processes_service \<Rightarrow> int \<Rightarrow> string \<Rightarrow> string option" where
  "readCmdline rd s pid comm =
     (case rd (pid_path s pid ''cmdline'') of Inl e \<Rightarrow> None | Inr data \<Rightarrow> Some (parse_cmdline data comm))"

subsection \<open>A walk\<close>

text \<open>The share of one process since the last walk: \<open>first\<close> and a PID it did not see give zero.\<close>

definition process_cpu :: "bool \<Rightarrow> 64 word \<Rightarrow> 64 word option \<Rightarrow> 64 word \<Rightarrow> nat \<Rightarrow> rat" where
  "process_cpu first totalDelta before cur cpus =
     (let p = (if \<not> first \<and> 0 < totalDelta then
                 (case before of
                    None \<Rightarrow> 0
                  | Some old \<Rightarrow>
                      if old \<le> cur then
                        fl (fl (fl (fl (of_nat (unat (cur - old))) / fl (of_nat (unat totalDelta))) * fl (of_nat cpus)) * 100)
                      else 0)
               else 0)
      in if p < 0 then 0 else p)"

definition process_row :: "file_reader \<Rightarrow> user_lookup option \<Rightarrow> processes_service \<Rightarrow> 64 word \<Rightarrow> int \<Rightarrow> nat \<Rightarrow> int \<Rightarrow> (process \<times> 64 word) option" where
  "process_row rd look s curTotal memTotalKB cpus pid =
     (case readStat rd s pid of None \<Rightarrow> None | Some (utime, stime, comm) \<Rightarrow>
      (case readStatus rd s pid of None \<Rightarrow> None | Some (uid, rss) \<Rightarrow>
       (case readCmdline rd s pid comm of None \<Rightarrow> None | Some cmdline \<Rightarrow>
        (let cur = utime + stime; p = ps_prior s
         in Some (\<lparr>pc_PID = pid,
               pc_User = (case look of None \<Rightarrow> uid
                          | Some f \<Rightarrow> (case f uid of Inl e \<Rightarrow> uid | Inr name \<Rightarrow> name)),
               pc_CPUPct = process_cpu (is_zero (pw_when p)) (curTotal - pw_totalJiffies p) (pw_perPID p pid) cur cpus,
               pc_MemPct = if memTotalKB > 0 then percent_of rss memTotalKB else 0,
               pc_Command = if length cmdline > CmdlineDisplayLimit then take CmdlineDisplayLimit cmdline @ ellipsis else cmdline,
               pc_CmdlineFull = cmdline\<rparr>, cur)))))"

definition walk :: "file_reader \<Rightarrow> user_lookup option \<Rightarrow> processes_service \<Rightarrow> 64 word \<Rightarrow> int \<Rightarrow> nat \<Rightarrow> string list \<Rightarrow> (process \<times> 64 word) list" where
  "walk rd look s curTotal memTotalKB cpus names =
     List.map_filter (process_row rd look s curTotal memTotalKB cpus) (List.map_filter parse_int64 names)"

definition processes_Sample :: "file_reader \<Rightarrow> (string \<Rightarrow> string + string list) \<Rightarrow> user_lookup option \<Rightarrow> (process list \<Rightarrow> process list) \<Rightarrow> nat \<Rightarrow> time \<Rightarrow> processes_service \<Rightarrow>
    (processes_error + process list) \<times> processes_service" where
  "processes_Sample rd readDir look sortSlice cpus now s =
     (case readTotalJiffies rd s of
        Inl e \<Rightarrow> (Inl (JiffiesError e), s)
      | Inr curTotal \<Rightarrow>
          (let memTotalKB = (case readMemTotalKB rd s of Inl e \<Rightarrow> 0 | Inr n \<Rightarrow> n)
           in case readDir (ps_ProcPath s) of
                Inl e \<Rightarrow> (Inl (WalkError (ps_ProcPath s) e), s)
              | Inr names \<Rightarrow>
                  (let found = walk rd look s curTotal memTotalKB cpus names;
                       next = (\<lambda>pid. map_option snd (index_by (pc_PID \<circ> fst) found pid))
                   in (Inr (take TopN (sortSlice (map fst found))),
                       s\<lparr>ps_prior := \<lparr>pw_when = now, pw_totalJiffies = curTotal, pw_perPID = next\<rparr>\<rparr>))))"

subsection \<open>A process as the kernel shows it\<close>

record kernel_process =
  kp_pid :: nat
  kp_comm :: string
  kp_state :: char
  kp_mid :: "int list"
  kp_utime :: nat
  kp_stime :: nat
  kp_rest :: "int list"
  kp_head :: "string list"
  kp_uid :: nat
  kp_middle :: "string list"
  kp_rss :: "nat option"
  kp_tail :: "string list"
  kp_argv :: "string list"

definition stat_columns :: "kernel_process \<Rightarrow> string list" where
  "stat_columns p = [kp_state p] # map itoa (kp_mid p @ [int (kp_utime p), int (kp_stime p)] @ kp_rest p)"

definition stat_file :: "kernel_process \<Rightarrow> string" where
  "stat_file p = itoa_nat (kp_pid p) @ '' ('' @ kp_comm p @ '') '' @ join_with '' '' (stat_columns p) @ [nl]"

definition status_lines :: "kernel_process \<Rightarrow> string list" where
  "status_lines p = kp_head p @ [''Uid:'' @ CHR 0x09 # itoa_nat (kp_uid p)] @ kp_middle p @
     (case kp_rss p of None \<Rightarrow> [] | Some n \<Rightarrow> [''VmRSS: '' @ itoa_nat n @ '' kB'']) @ kp_tail p"

definition status_file :: "kernel_process \<Rightarrow> string" where
  "status_file p = concat (map (\<lambda>l. l @ [nl]) (status_lines p))"

definition cmdline_file :: "kernel_process \<Rightarrow> string" where
  "cmdline_file p = concat (map (\<lambda>a. a @ [nul]) (kp_argv p))"

text \<open>A line of the status file that is about something else.\<close>

definition other_line :: "string \<Rightarrow> bool" where
  "other_line l \<longleftrightarrow> nl \<notin> set l \<and> length l < max_token \<and>
     (\<forall>key v. cut_byte CHR '':'' (drop_cr l) = Some (key, v) \<longrightarrow> key \<noteq> ''Uid'' \<and> key \<noteq> ''VmRSS'')"

definition shown_process :: "kernel_process \<Rightarrow> bool" where
  "shown_process p \<longleftrightarrow>
     kp_pid p < 2 ^ 63 \<and> graph_char (kp_state p) \<and> kp_state p \<noteq> CHR '')'' \<and> length (kp_mid p) = 10 \<and>
     kp_utime p + kp_stime p < 2 ^ 64 \<and> list_all other_line (kp_head p @ kp_middle p @ kp_tail p) \<and>
     kp_uid p < 2 ^ 64 \<and> (case kp_rss p of None \<Rightarrow> True | Some n \<Rightarrow> n < 2 ^ 63) \<and>
     list_all (\<lambda>a. a \<noteq> [] \<and> list_all graph_char a) (kp_argv p)"

definition shown_cmdline :: "kernel_process \<Rightarrow> string" where
  "shown_cmdline p = (if kp_argv p = [] then CHR ''['' # kp_comm p @ '']'' else join_with '' '' (kp_argv p))"

subsection \<open>Lemmas\<close>

lemma before_last_append: "c \<notin> set t \<Longrightarrow> before_last c (u @ c # t) = u"
proof -
  assume "c \<notin> set t"
  then have "dropWhile (\<lambda>x. x \<noteq> c) (rev t @ c # rev u) = c # rev u" by (subst dropWhile_append2) auto
  then show ?thesis by (simp add: before_last_def)
qed

lemma after_last_append: "c \<notin> set t \<Longrightarrow> after_last c (u @ c # t) = t"
  proof -
  assume "c \<notin> set t"
  then have "takeWhile (\<lambda>x. x \<noteq> c) (rev t @ c # rev u) = rev t" by (subst takeWhile_append2) auto
  then show ?thesis by (simp add: after_last_def)
qed

lemma trim_right_byte_last: "s \<noteq> [] \<Longrightarrow> last s \<noteq> c \<Longrightarrow> trim_right_byte c (s @ [c]) = s"
  by (cases s rule: rev_cases) (simp_all add: trim_right_byte_def)

lemma trim_left_space: "trim_left space_encodings (CHR '' '' # s) = trim_left space_encodings s"
proof -
  have "find (\<lambda>w. w \<noteq> [] \<and> has_prefix w (CHR '' '' # s)) space_encodings = find (\<lambda>w. has_prefix w (CHR '' '' # s)) space_encodings"
    by (rule find_cong) (auto dest: space_encodings_ne)
  then show ?thesis by (subst trim_left.simps) (simp add: space_at)
qed

lemma trim_after_space:
  assumes "s = c # t" and "s = u @ [d]" and "graph_char c" and "graph_char d"
  shows "trim_space (CHR '' '' # s) = s"
  using trim_space_ends [OF assms] by (simp add: trim_space_def trim_left_space)

lemma itoa_graph: "list_all graph_char (itoa n)"
  using digits_graph by (simp add: itoa_def graph_char_def)

lemma itoa_ne: "itoa n \<noteq> []"
  by (simp add: itoa_def)

lemma paren_not_in_itoa: "CHR '')'' \<notin> set (itoa n)"
  by (simp add: itoa_def is_digit_def)

definition word_list :: "string list \<Rightarrow> bool" where
  "word_list ws \<longleftrightarrow> list_all (\<lambda>w. w \<noteq> [] \<and> list_all graph_char w) ws"

lemma fields_join: "word_list ws \<Longrightarrow> str_fields (join_with '' '' ws) = ws"
proof (induction ws)
  case Nil
  then show ?case by (simp add: str_fields_def fields_from.simps)
next
  case (Cons w ws)
  then show ?case by (cases ws) (simp_all add: word_list_def str_fields_word str_fields_space)
qed

lemma join_ends:
  assumes "word_list ws" and "ws \<noteq> []"
  shows "\<exists>c t u d. join_with sep ws = c # t \<and> join_with sep ws = u @ [d] \<and> graph_char c \<and> graph_char d"
  using assms
proof (induction ws)
  case (Cons w ws)
  then have w: "w \<noteq> []" "list_all graph_char w" by (simp_all add: word_list_def)
  then have g: "graph_char (hd w)" "graph_char (last w)" by (auto simp: list_all_iff)
  obtain c t where ct: "w = c # t" using w(1) by (cases w) auto
  obtain u d where ud: "w = u @ [d]" using w(1) by (cases w rule: rev_cases) auto
  show ?case
  proof (cases ws)
    case Nil
    have "graph_char c" using g(1) ct by simp
    moreover have "graph_char d" using g(2) ud by simp
    ultimately have "w = c # t" "w = u @ [d]" "graph_char c" "graph_char d" using ct ud by blast+
    then show ?thesis using Nil ct ud by (metis join_with.simps(2))
  next
    case (Cons v vs)
    then obtain u' d' where "join_with sep ws = u' @ [d']" "graph_char d'"
      using Cons.IH Cons.prems(1) by (auto simp: word_list_def)
    then have "join_with sep (w # ws) = (w @ sep @ u') @ [d']" using Cons by (simp add: join_with_Cons)
    moreover have "join_with sep (w # ws) = c # (t @ sep @ join_with sep ws)" using Cons ct by (simp add: join_with_Cons)
    ultimately show ?thesis using g(1) ct \<open>graph_char d'\<close> by (metis list.sel(1))
  qed
qed simp

lemma stat_columns_words: "shown_process p \<Longrightarrow> word_list (stat_columns p)"
  using itoa_graph itoa_ne by (auto simp: word_list_def stat_columns_def shown_process_def list_all_iff)

lemma set_join: "set (join_with sep ws) \<subseteq> set sep \<union> \<Union> (set ` set ws)"
  by (induction sep ws rule: join_with.induct) auto

lemma parse_stat_file:
  assumes "shown_process p"
  shows "parse_stat (stat_file p) = Some (word_of_nat (kp_utime p), word_of_nat (kp_stime p), kp_comm p)"
proof -
  let ?cols = "stat_columns p" and ?j = "join_with '' '' (stat_columns p)"
  have w: "word_list ?cols" by (rule stat_columns_words [OF assms])
  have ne: "?cols \<noteq> []" by (simp add: stat_columns_def)
  from join_ends [OF w ne] obtain c t u d where e: "?j = c # t" "?j = u @ [d]" "graph_char c" "graph_char d" by blast
  have "CHR '')'' \<notin> set ?j"
    using set_join [of "'' ''" ?cols] paren_not_in_itoa assms by (auto simp: stat_columns_def shown_process_def)
  then have p: "CHR '')'' \<notin> set (CHR '' '' # ?j)" by simp
  let ?a = "itoa_nat (kp_pid p) @ '' ''"
  have line: "stat_file p = (?a @ CHR ''('' # (kp_comm p @ CHR '')'' # CHR '' '' # ?j)) @ [nl]" by (simp add: stat_file_def)
  have "nl \<noteq> d" using e(4) by (auto simp: graph_char_def nl_def)
  then have "trim_right_byte nl (stat_file p) = ?a @ CHR ''('' # (kp_comm p @ CHR '')'' # CHR '' '' # ?j)"
    unfolding line by (intro trim_right_byte_last) (simp_all add: e(2))
  moreover have "CHR ''('' \<notin> set ?a" by (simp add: is_digit_def)
  ultimately have cut: "cut_byte CHR ''('' (trim_right_byte nl (stat_file p)) = Some (?a, kp_comm p @ CHR '')'' # CHR '' '' # ?j)"
    using cut_byte_append by metis
  have f: "str_fields (trim_space (CHR '' '' # ?j)) = ?cols"
    using trim_after_space [OF e] fields_join [OF w] by simp
  have l: "13 \<le> length ?cols" "?cols ! 11 = itoa_nat (kp_utime p)" "?cols ! 12 = itoa_nat (kp_stime p)" 
    using assms by (simp_all add: shown_process_def stat_columns_def nth_append itoa_def)
  have u: "kp_utime p < 2 ^ 64" "kp_stime p < 2 ^ 64" using assms by (simp_all add: shown_process_def)
  show ?thesis
    using cut l before_last_append [OF p] after_last_append [OF p] f parse_u64_itoa [OF u(1)] parse_u64_itoa [OF u(2)]
    by (simp add: parse_stat_def)
qed

definition file_line :: "string \<Rightarrow> bool" where
  "file_line l \<longleftrightarrow> nl \<notin> set l \<and> length l < max_token"

lemma scan_lines_all:
  assumes "list_all file_line ls"
  shows "scan_lines (concat (map (\<lambda>l. l @ [nl]) ls)) = (map drop_cr ls, False)"
proof -
  have sp: "split_on nl (concat (map (\<lambda>l. l @ [nl]) ls)) = ls @ [[]]"
    using assms
  proof (induction ls)
    case (Cons l ls)
    then show ?case using split_on_append [of nl l] by (simp add: file_line_def)
  qed simp
  have tw: "takeWhile (\<lambda>l. length l < max_token) ls = ls"
    using assms by (auto simp: list_all_iff file_line_def)
  show ?thesis unfolding scan_lines_def Let_def sp by (simp only: last_snoc butlast_snoc simp_thms if_True tw less_irrefl)
qed

lemma tab_at: "find (\<lambda>w. has_prefix w (CHR 0x09 # s)) space_encodings = Some [CHR 0x09]"
proof -
  have one: "\<forall>w \<in> set space_encodings. CHR 0x09 \<in> set w \<longrightarrow> w = [CHR 0x09]" and mem: "[CHR 0x09] \<in> set space_encodings"
    by code_simp+
  have "find (\<lambda>w. has_prefix w (CHR 0x09 # s)) space_encodings \<noteq> None"
    using mem by (auto simp: find_None_iff intro!: bexI [OF _ mem])
  then obtain w where w: "find (\<lambda>w. has_prefix w (CHR 0x09 # s)) space_encodings = Some w" by blast
  then have "w \<in> set space_encodings" "has_prefix w (CHR 0x09 # s)" by (auto dest: find_SomeD)
  with one space_encodings_ne [of w] have "w = [CHR 0x09]" by (auto simp: has_prefix_iff Cons_eq_append_conv)
  with w show ?thesis by simp
qed

lemma fields_skip_tab: "str_fields (CHR 0x09 # s) = str_fields s"
  by (simp add: str_fields_def fields_from.simps [of _ "CHR 0x09 # s"] tab_at)

lemma drop_cr_id: "last l \<noteq> CHR 0x0D \<Longrightarrow> drop_cr l = l"
  by (simp add: drop_cr_def)

lemma other_lines_skip: "list_all other_line ls \<Longrightarrow> fold status_line (map drop_cr ls) st = st"
proof (induction ls)
  case (Cons l ls)
  have "status_line (drop_cr l) st = st"
    using Cons.prems by (cases "cut_byte CHR '':'' (drop_cr l)") (auto simp: status_line_def other_line_def)
  with Cons show ?case by simp
qed simp

lemma uid_line: "status_line (drop_cr (''Uid:'' @ CHR 0x09 # itoa_nat n)) st = (Some (itoa_nat n), snd st)"
proof -
  have "drop_cr (''Uid:'' @ CHR 0x09 # itoa_nat n) = ''Uid'' @ CHR '':'' # (CHR 0x09 # itoa_nat n)"
    using last_number [of n] by (subst drop_cr_id) auto
  moreover have "cut_byte CHR '':'' (''Uid'' @ CHR '':'' # (CHR 0x09 # itoa_nat n)) = Some (''Uid'', CHR 0x09 # itoa_nat n)"
    by (rule cut_byte_append) simp
  ultimately show ?thesis
    using str_fields_word [OF digits_graph [of n]] by (simp add: status_line_def fields_skip_tab)
qed

lemma rss_line: "n < 2 ^ 63 \<Longrightarrow> status_line (drop_cr (''VmRSS: '' @ itoa_nat n @ '' kB'')) st = (fst st, int n)"
proof -
  assume n: "n < 2 ^ 63"
  have "drop_cr (''VmRSS: '' @ itoa_nat n @ '' kB'') = ''VmRSS'' @ CHR '':'' # (CHR '' '' # itoa_nat n @ '' kB'')"
    by (subst drop_cr_id) simp_all
  moreover have "cut_byte CHR '':'' (''VmRSS'' @ CHR '':'' # (CHR '' '' # itoa_nat n @ '' kB'')) = Some (''VmRSS'', CHR '' '' # itoa_nat n @ '' kB'')"
    by (rule cut_byte_append) simp
  moreover have "str_fields (CHR '' '' # itoa_nat n @ '' kB'') = itoa_nat n # str_fields ''kB''"
    using str_fields_space [OF digits_graph [of n]] by (simp add: fields_skip)
  ultimately show ?thesis using parse_int64_nat [OF n] by (simp add: status_line_def parseMeminfoKB_def)
qed

lemma parse_status_file:
  assumes "shown_process p"
  shows "parse_status (status_file p) = Some (itoa_nat (kp_uid p), case kp_rss p of None \<Rightarrow> 0 | Some n \<Rightarrow> int n)"
proof -
  have o: "list_all other_line (kp_head p)" "list_all other_line (kp_middle p)" "list_all other_line (kp_tail p)"
    using assms by (simp_all add: shown_process_def)
  have "file_line (''Uid:'' @ CHR 0x09 # itoa_nat (kp_uid p))"
    using short_number [of "kp_uid p"] assms number_no_nl(1)
    by (simp add: file_line_def shown_process_def max_token_def nl_def)
  moreover have "file_line (''VmRSS: '' @ itoa_nat n @ '' kB'')" if "kp_rss p = Some n" for n
    using short_number [of n] assms that number_no_nl(1)
    by (simp add: file_line_def shown_process_def max_token_def nl_def)
  moreover have "list_all file_line ls" if "list_all other_line ls" for ls
    using that by (auto simp: list_all_iff other_line_def file_line_def)
  ultimately have "list_all file_line (status_lines p)"
    using o by (simp add: status_lines_def split: option.split)
  from scan_lines_all [OF this] have s: "scan_lines (status_file p) = (map drop_cr (status_lines p), False)"
    by (simp add: status_file_def)
  let ?uid = "drop_cr (''Uid:'' @ CHR 0x09 # itoa_nat (kp_uid p))"
  have u: "status_line ?uid (None, 0) = (Some (itoa_nat (kp_uid p)), 0)" unfolding uid_line by simp
  have "fold status_line (map drop_cr (status_lines p)) (None, 0) =
      (Some (itoa_nat (kp_uid p)), case kp_rss p of None \<Rightarrow> 0 | Some n \<Rightarrow> int n)"
  proof (cases "kp_rss p")
    case None
    then have "map drop_cr (status_lines p) = map drop_cr (kp_head p) @ ?uid # map drop_cr (kp_middle p @ kp_tail p)"
      by (simp only: status_lines_def option.case map_append append.simps list.map append_assoc)
    then show ?thesis using None o by (simp only: fold_append comp_apply fold_simps other_lines_skip u list_all_append simp_thms option.case)
  next
    case (Some n)
    let ?rss = "drop_cr (''VmRSS: '' @ itoa_nat n @ '' kB'')"
    have n: "n < 2 ^ 63" using assms Some by (simp add: shown_process_def)
    have "map drop_cr (status_lines p) = map drop_cr (kp_head p) @ ?uid # map drop_cr (kp_middle p) @ ?rss # map drop_cr (kp_tail p)"
      by (simp only: status_lines_def Some option.case map_append append.simps list.map append_assoc)
    then show ?thesis using Some o by (simp only: fold_append comp_apply fold_simps other_lines_skip u rss_line [OF n] fst_conv option.case)
  qed
  with s show ?thesis by (simp add: parse_status_def)
qed

lemma argv_joined:
  "argv \<noteq> [] \<Longrightarrow> list_all (\<lambda>a. nul \<notin> set a) argv \<Longrightarrow>
    concat (map (\<lambda>a. a @ [nul]) argv) = join_with [nul] argv @ [nul] \<and>
    map (\<lambda>c. if c = nul then CHR '' '' else c) (join_with [nul] argv) = join_with '' '' argv"
proof (induction argv)
  case (Cons a argv)
  have "map (\<lambda>c. if c = nul then CHR '' '' else c) a = a" using Cons.prems by (auto intro!: map_idI)
  then show ?case using Cons by (cases argv) (auto simp: join_with_Cons)
qed simp

lemma parse_cmdline_file:
  assumes "shown_process p"
  shows "parse_cmdline (cmdline_file p) (kp_comm p) = shown_cmdline p"
proof (cases "kp_argv p = []")
  case True
  then show ?thesis by (simp add: cmdline_file_def shown_cmdline_def parse_cmdline_def trim_right_byte_def)
next
  case False
  have w: "word_list (kp_argv p)" using assms by (simp add: shown_process_def word_list_def)
  have n: "list_all (\<lambda>a. nul \<notin> set a) (kp_argv p)"
  proof -
    have "\<not> graph_char nul" by code_simp
    with w show ?thesis by (auto simp: word_list_def list_all_iff)
  qed
  note j = argv_joined [OF False n]
  from join_ends [OF w False] obtain c t u d where
    e: "join_with '' '' (kp_argv p) = c # t" "join_with '' '' (kp_argv p) = u @ [d]" "graph_char c" "graph_char d" by blast
  have z: "\<not> graph_char nul" by code_simp
  from join_ends [OF w False, of "[nul]"] z have l: "join_with [nul] (kp_argv p) \<noteq> [] \<and> last (join_with [nul] (kp_argv p)) \<noteq> nul"
    by (metis last_snoc snoc_eq_iff_butlast)
  then have "trim_right_byte nul (cmdline_file p) = join_with [nul] (kp_argv p)"
    using conjunct1 [OF j] trim_right_byte_last by (simp add: cmdline_file_def)
  with l j trim_space_ends [OF e] show ?thesis by (simp add: parse_cmdline_def shown_cmdline_def False)
qed

lemma sum_columns_words:
  "list_all (\<lambda>n. n < 2 ^ 64) ns \<Longrightarrow> sum_columns path i (map itoa_nat ns) acc = Inr (acc + sum_list (map word_of_nat ns))"
  by (induction ns arbitrary: i acc) (simp_all add: parse_u64_itoa add.assoc)

lemma readTotalJiffies_kernel:
  assumes "kernel_host h" and "rd (ps_ProcPath s @ ''/stat'') = Inr (stat_text h)"
  shows "readTotalJiffies rd s = Inr (word_of_nat (sum_list (k_cpu h)))"
  using cpu_row [OF assms(1)] assms(2) sum_columns_words [OF cpu_row(3) [OF assms(1)]]
  by (simp add: readTotalJiffies_def stat_text_def sum_words split: prod.split)

lemma readMemTotalKB_kernel:
  assumes "kernel_host h" and "rd (ps_ProcPath s @ ''/meminfo'') = Inr (meminfo_text h)"
  shows "readMemTotalKB rd s = Inr (int (k_memTotal h))"
proof -
  have b: "k_memTotal h < 2 ^ 63" using assms(1) by (simp add: kernel_host_def)
  have n: "nl \<notin> set ''MemTotal''" by (simp add: nl_def)
  obtain a where "cut_byte CHR '':'' (mem_row ''MemTotal'' (k_memTotal h)) = Some (''MemTotal'', a)" "parseMeminfoKB a = Some (int (k_memTotal h))"
    using mem_row_cut [of "''MemTotal''" "k_memTotal h"] b by auto
  then show ?thesis using assms(2) b
    by (simp add: readMemTotalKB_def meminfo_text_def scan_mem_row [OF b n] split: prod.split)
qed

text \<open>The process table as the kernel shows it next to the counters of the host.\<close>

definition process_files :: "processes_service \<Rightarrow> file_reader \<Rightarrow> kernel_process \<Rightarrow> bool" where
  "process_files s rd p \<longleftrightarrow>
     rd (pid_path s (int (kp_pid p)) ''stat'') = Inr (stat_file p) \<and>
     rd (pid_path s (int (kp_pid p)) ''status'') = Inr (status_file p) \<and>
     rd (pid_path s (int (kp_pid p)) ''cmdline'') = Inr (cmdline_file p)"

definition resident :: "kernel_process \<Rightarrow> nat" where
  "resident p = (case kp_rss p of None \<Rightarrow> 0 | Some n \<Rightarrow> n)"

definition jiffies :: "kernel_process \<Rightarrow> nat" where
  "jiffies p = kp_utime p + kp_stime p"

definition table_shown :: "processes_service \<Rightarrow> file_reader \<Rightarrow> (string \<Rightarrow> string + string list) \<Rightarrow> host_state \<Rightarrow> kernel_process list \<Rightarrow> bool" where
  "table_shown s rd dir h ps \<longleftrightarrow>
     kernel_host h \<and> rd (ps_ProcPath s @ ''/stat'') = Inr (stat_text h) \<and> rd (ps_ProcPath s @ ''/meminfo'') = Inr (meminfo_text h) \<and>
     (case dir (ps_ProcPath s) of Inl e \<Rightarrow> False | Inr names \<Rightarrow> List.map_filter parse_int64 names = map (int \<circ> kp_pid) ps) \<and>
     distinct (map kp_pid ps) \<and>
     list_all (\<lambda>p. shown_process p \<and> process_files s rd p \<and> resident p \<le> k_memTotal h) ps"

definition shown_user :: "user_lookup option \<Rightarrow> string \<Rightarrow> string" where
  "shown_user look uid = (case look of None \<Rightarrow> uid | Some f \<Rightarrow> (case f uid of Inl e \<Rightarrow> uid | Inr name \<Rightarrow> name))"

definition row_for :: "prior_walk \<Rightarrow> user_lookup option \<Rightarrow> 64 word \<Rightarrow> nat \<Rightarrow> nat \<Rightarrow> kernel_process \<Rightarrow> process" where
  "row_for pw look tot mem cpus p =
     \<lparr>pc_PID = int (kp_pid p), pc_User = shown_user look (itoa_nat (kp_uid p)),
      pc_CPUPct = process_cpu (is_zero (pw_when pw)) (tot - pw_totalJiffies pw) (pw_perPID pw (int (kp_pid p))) (word_of_nat (jiffies p)) cpus,
      pc_MemPct = percent_of (int (resident p)) (int mem),
      pc_Command = (if length (shown_cmdline p) > CmdlineDisplayLimit then take CmdlineDisplayLimit (shown_cmdline p) @ ellipsis else shown_cmdline p),
      pc_CmdlineFull = shown_cmdline p\<rparr>"

lemma process_row_kernel:
  assumes "shown_process p" and "process_files s rd p" and "0 < mem"
  shows "process_row rd look s tot (int mem) cpus (int (kp_pid p)) =
    Some (row_for (ps_prior s) look tot mem cpus p, word_of_nat (jiffies p))"
proof -
  have "int (resident p) = (case kp_rss p of None \<Rightarrow> 0 | Some n \<Rightarrow> int n)" by (simp add: resident_def split: option.split)
  then show ?thesis
    using assms(2,3) parse_stat_file [OF assms(1)] parse_status_file [OF assms(1)] parse_cmdline_file [OF assms(1)]
    by (simp add: process_row_def readStat_def readStatus_def readCmdline_def process_files_def row_for_def jiffies_def Let_def shown_user_def)
qed

lemma map_filter_some: "list_all (\<lambda>x. f (g x) = Some (h x)) xs \<Longrightarrow> List.map_filter f (map g xs) = map h xs"
  by (induction xs) (simp_all add: List.map_filter_simps)

lemma walk_kernel:
  assumes "table_shown s rd dir h ps" and "dir (ps_ProcPath s) = Inr names"
  shows "walk rd look s tot (int (k_memTotal h)) cpus names =
    map (\<lambda>p. (row_for (ps_prior s) look tot (k_memTotal h) cpus p, word_of_nat (jiffies p))) ps"
proof -
  have "0 < k_memTotal h" using assms(1) by (simp add: table_shown_def kernel_host_def)
  then have "list_all (\<lambda>p. process_row rd look s tot (int (k_memTotal h)) cpus ((int \<circ> kp_pid) p) =
      Some (row_for (ps_prior s) look tot (k_memTotal h) cpus p, word_of_nat (jiffies p))) ps"
    using assms(1) by (auto simp: table_shown_def list_all_iff process_row_kernel)
  then have "List.map_filter (process_row rd look s tot (int (k_memTotal h)) cpus) (map (int \<circ> kp_pid) ps) =
      map (\<lambda>p. (row_for (ps_prior s) look tot (k_memTotal h) cpus p, word_of_nat (jiffies p))) ps"
    by (rule map_filter_some)
  then show ?thesis using assms by (simp add: walk_def table_shown_def)
qed

definition table_jiffies :: "kernel_process list \<Rightarrow> int \<rightharpoonup> 64 word" where
  "table_jiffies ps pid = map_option (word_of_nat \<circ> jiffies) (find (\<lambda>p. int (kp_pid p) = pid) ps)"

lemma index_seen:
  assumes "distinct (map kp_pid ps)" and "\<And>p. pc_PID (f p) = int (kp_pid p)"
  shows "map_option snd (index_by (pc_PID \<circ> fst) (map (\<lambda>p. (f p, word_of_nat (jiffies p))) ps) pid) = table_jiffies ps pid"
proof -
  let ?xs = "map (\<lambda>p. (f p, word_of_nat (jiffies p) :: 64 word)) ps"
  have "inj_on int A" for A by (simp add: inj_on_def)
  then have "distinct (map int (map kp_pid ps))" using assms(1) by (simp only: distinct_map [of int] simp_thms)
  then have d: "distinct (map (pc_PID \<circ> fst) ?xs)" using assms(2) by (simp add: comp_def)
  show ?thesis
  proof (cases "find (\<lambda>p. int (kp_pid p) = pid) ps")
    case None
    then have "index_by (pc_PID \<circ> fst) ?xs pid = None"
      by (auto simp: index_by_None_iff find_None_iff assms(2))
    with None show ?thesis by (simp add: table_jiffies_def)
  next
    case (Some p)
    then have "p \<in> set ps" "int (kp_pid p) = pid" by (auto dest: find_SomeD)
    then have "index_by (pc_PID \<circ> fst) ?xs pid = Some (f p, word_of_nat (jiffies p))"
      unfolding index_by_distinct [OF d] by (auto simp: assms(2))
    with Some show ?thesis by (simp add: table_jiffies_def)
  qed
qed

lemma Sample_kernel_table:
  assumes "table_shown s rd dir h ps"
  shows "processes_Sample rd dir look srt cpus now s =
    (Inr (take TopN (srt (map (row_for (ps_prior s) look (word_of_nat (sum_list (k_cpu h))) (k_memTotal h) cpus) ps))),
     s\<lparr>ps_prior := \<lparr>pw_when = now, pw_totalJiffies = word_of_nat (sum_list (k_cpu h)), pw_perPID = table_jiffies ps\<rparr>\<rparr>)"
proof -
  obtain names where n: "dir (ps_ProcPath s) = Inr names"
    using assms by (auto simp: table_shown_def split: sum.splits)
  have k: "kernel_host h" "rd (ps_ProcPath s @ ''/stat'') = Inr (stat_text h)" "rd (ps_ProcPath s @ ''/meminfo'') = Inr (meminfo_text h)"
    "distinct (map kp_pid ps)"
    using assms by (simp_all add: table_shown_def)
  let ?row = "row_for (ps_prior s) look (word_of_nat (sum_list (k_cpu h))) (k_memTotal h) cpus"
  have j: "(\<lambda>pid. map_option snd (index_by (pc_PID \<circ> fst) (map (\<lambda>p. (?row p, word_of_nat (jiffies p))) ps) pid)) = table_jiffies ps"
    by (rule ext, rule index_seen [OF k(4)]) (simp add: row_for_def)
  show ?thesis
    using n readTotalJiffies_kernel [of h rd s, OF k(1,2)] readMemTotalKB_kernel [of h rd s, OF k(1,3)]
    by (simp add: processes_Sample_def Let_def walk_kernel [OF assms n] j comp_def [of fst])
qed

context slice_sorter
begin

text \<open>The first \<open>n\<close> of an ordered list are its \<open>n\<close> least, whatever the order of ties.\<close>

lemma take_least:
  shows "mset (take n (srt xs)) + mset (drop n (srt xs)) = mset xs" "length (take n (srt xs)) = min n (length xs)"
    "\<forall>x \<in> set (take n (srt xs)). \<forall>y \<in> set (drop n (srt xs)). key x \<le> key y" "sorted (map key (take n (srt xs)))"
proof -
  show "mset (take n (srt xs)) + mset (drop n (srt xs)) = mset xs" using srt_mset [of xs] by (metis append_take_drop_id mset_append)
  show "length (take n (srt xs)) = min n (length xs)" by (simp add: length_srt min.commute)
  have "sorted (map key (take n (srt xs) @ drop n (srt xs)))" using srt_sorted by simp
  then show "\<forall>x \<in> set (take n (srt xs)). \<forall>y \<in> set (drop n (srt xs)). key x \<le> key y" "sorted (map key (take n (srt xs)))"
    unfolding map_append sorted_append by auto
qed

end

lemma within_hundred:
  fixes y :: rat
  shows "\<bar>y - x\<bar> \<le> e \<Longrightarrow> 0 \<le> x \<Longrightarrow> x \<le> n \<Longrightarrow> e \<le> n \<Longrightarrow> \<bar>y * 100\<bar> \<le> 200 * n"
  unfolding abs_le_iff by linarith

lemma hundred_close:
  fixes y :: rat
  shows "\<bar>y - x\<bar> \<le> 8 * a \<Longrightarrow> \<bar>z - y * 100\<bar> \<le> 200 * a \<Longrightarrow> \<bar>z - 100 * x\<bar> \<le> 1000 * a"
  unfolding abs_le_iff by linarith

lemma clamp_close:
  fixes z :: rat
  shows "\<bar>z - x\<bar> \<le> e \<Longrightarrow> 0 \<le> x \<Longrightarrow> \<bar>(if z < 0 then 0 else z) - x\<bar> \<le> e"
  by (simp add: abs_le_iff)

lemma process_cpu_close:
  fixes d t :: nat
  assumes "old \<le> cur" and "unat (cur - old) = d" and "unat tot = t" and "d \<le> t" and "0 < t" and "cpus < 2 ^ 53"
  shows "\<bar>process_cpu False tot (Some old) cur cpus - 100 * (of_nat cpus * (of_nat d / of_nat t))\<bar> \<le> of_nat cpus / 10 ^ 9"
proof -
  let ?n = "of_nat cpus :: rat" and ?q = "of_nat d / of_nat t :: rat"
  let ?e = float_eps
  define q where "q = fl (fl (of_nat d) / fl (of_nat t))"
  define y where "y = fl (q * ?n)"
  define z where "z = fl (y * 100)"
  have q0: "0 \<le> ?q" "?q \<le> 1" using assms(4,5) by simp_all
  have e: "0 < ?e" "1000 * ?e \<le> 1" "4000 * ?e \<le> 1 / 10 ^ 9" by (rule float_eps_small)+
  have qc: "\<bar>q - ?q\<bar> \<le> 6 * ?e" unfolding q_def by (rule fl_quotient) (use assms(4,5) in simp_all)
  then have "\<bar>q\<bar> \<le> 2" using q0 e unfolding abs_le_iff by linarith
  then have qn: "\<bar>q * ?n\<bar> \<le> 2 * ?n" by (simp add: abs_mult mult_right_mono)
  have "\<bar>q * ?n - ?q * ?n\<bar> = \<bar>q - ?q\<bar> * ?n" unfolding left_diff_distrib [symmetric] abs_mult by simp
  then have qd: "\<bar>q * ?n - ?q * ?n\<bar> \<le> 6 * ?e * ?n" using mult_right_mono [OF qc, of ?n] by simp
  have "\<bar>y - q * ?n\<bar> \<le> 2 * ?n * ?e" unfolding y_def by (rule fl_eps [OF qn])
  then have y: "\<bar>y - ?q * ?n\<bar> \<le> 8 * (?e * ?n)" using qd unfolding abs_le_iff by (simp add: algebra_simps)
  have qn1: "?q * ?n \<le> ?n" using mult_right_mono [OF q0(2), of ?n] by simp
  have qn2: "0 \<le> ?q * ?n" using q0(1) by simp
  have en: "8 * (?e * ?n) \<le> ?n" "0 \<le> ?e * ?n" using mult_right_mono [of "8 * ?e" 1 ?n] e by simp_all
  have y100: "\<bar>y * 100\<bar> \<le> 200 * ?n" by (rule within_hundred [OF y qn2 qn1 en(1)])
  have z: "\<bar>z - y * 100\<bar> \<le> 200 * (?e * ?n)" using fl_eps [OF y100] by (simp add: z_def mult.commute mult.left_commute)
  have "\<bar>z - 100 * (?n * ?q)\<bar> \<le> 1000 * (?e * ?n)" using hundred_close [OF y z] by (simp only: mult.commute [of ?n ?q])
  also have "\<dots> \<le> ?n / 10 ^ 9" using mult_right_mono [of "1000 * ?e" "1 / 10 ^ 9" ?n] e by simp
  finally have zc: "\<bar>z - 100 * (?n * ?q)\<bar> \<le> ?n / 10 ^ 9" .
  have c: "fl ?n = ?n" by (rule fl_int_exact [OF assms(6)])
  have "0 < tot" using assms(3,5) by (simp add: word_less_nat_alt)
  then have p: "process_cpu False tot (Some old) cur cpus = (if z < 0 then 0 else z)"
    using assms(1-3) by (simp add: process_cpu_def z_def y_def q_def c Let_def)
  have "0 \<le> 100 * (?n * ?q)" using q0 by simp
  with zc show ?thesis unfolding p by (rule clamp_close)
qed

text \<open>
  The share of the processors a process had since the table before: none when its PID was not there,
  or when the PID has been given to a process with fewer jiffies.
\<close>

definition busy_share :: "host_state \<Rightarrow> kernel_process list \<Rightarrow> host_state \<Rightarrow> kernel_process \<Rightarrow> rat" where
  "busy_share h1 ps1 h2 p =
     (case find (\<lambda>q. kp_pid q = kp_pid p) ps1 of
        None \<Rightarrow> 0
      | Some q \<Rightarrow>
          if jiffies p < jiffies q then 0
          else of_nat (jiffies p - jiffies q) / of_nat (sum_list (k_cpu h2) - sum_list (k_cpu h1)))"

definition shows_process :: "host_state \<Rightarrow> kernel_process list \<Rightarrow> host_state \<Rightarrow> user_lookup option \<Rightarrow> nat \<Rightarrow> kernel_process \<Rightarrow> process \<Rightarrow> bool" where
  "shows_process h1 ps1 h2 look cpus p r \<longleftrightarrow>
     pc_PID r = int (kp_pid p) \<and> pc_User r = shown_user look (itoa_nat (kp_uid p)) \<and>
     \<bar>pc_CPUPct r - 100 * (of_nat cpus * busy_share h1 ps1 h2 p)\<bar> \<le> of_nat cpus / 10 ^ 9 \<and>
     \<bar>pc_MemPct r - 100 * (of_nat (resident p) / of_nat (k_memTotal h2))\<bar> \<le> 1 / 10 ^ 9 \<and>
     pc_CmdlineFull r = shown_cmdline p \<and>
     pc_Command r = (if length (shown_cmdline p) > CmdlineDisplayLimit then take CmdlineDisplayLimit (shown_cmdline p) @ ellipsis else shown_cmdline p)"

text \<open>Between two tables some time passed, and no process had more of it than the host.\<close>

definition host_ran :: "host_state \<Rightarrow> kernel_process list \<Rightarrow> host_state \<Rightarrow> kernel_process list \<Rightarrow> bool" where
  "host_ran h1 ps1 h2 ps2 \<longleftrightarrow>
     sum_list (k_cpu h1) < sum_list (k_cpu h2) \<and>
     (\<forall>q \<in> set ps1. \<forall>p \<in> set ps2. kp_pid q = kp_pid p \<longrightarrow>
        jiffies p \<le> jiffies q + (sum_list (k_cpu h2) - sum_list (k_cpu h1)))"

lemma row_cpu:
  assumes t1: "table_shown s1 rd1 dir1 h1 ps1" and t2: "table_shown s2 rd2 dir2 h2 ps2" and p: "p \<in> set ps2"
    and ran: "host_ran h1 ps1 h2 ps2" and cpus: "cpus < 2 ^ 53"
  shows "\<bar>process_cpu False (word_of_nat (sum_list (k_cpu h2)) - word_of_nat (sum_list (k_cpu h1)))
      (table_jiffies ps1 (int (kp_pid p))) (word_of_nat (jiffies p)) cpus - 100 * (of_nat cpus * busy_share h1 ps1 h2 p)\<bar>
    \<le> of_nat cpus / 10 ^ 9"
proof (cases "find (\<lambda>q. kp_pid q = kp_pid p) ps1")
  case None
  then show ?thesis by (simp add: table_jiffies_def busy_share_def process_cpu_def)
next
  case (Some q)
  let ?t = "word_of_nat (sum_list (k_cpu h2)) - word_of_nat (sum_list (k_cpu h1)) :: 64 word"
  let ?old = "word_of_nat (jiffies q) :: 64 word" and ?cur = "word_of_nat (jiffies p) :: 64 word"
  from Some have q: "q \<in> set ps1" "kp_pid q = kp_pid p" by (auto dest: find_SomeD)
  have j: "jiffies q < 2 ^ 64" "jiffies p < 2 ^ 64"
    using t1 t2 q p by (auto simp: table_shown_def shown_process_def list_all_iff jiffies_def)
  then have u: "unat ?old = jiffies q" "unat ?cur = jiffies p" by (simp_all add: unat_of_nat)
  have "sum_list (k_cpu h2) < 2 ^ 64" using t2 by (simp add: table_shown_def kernel_host_def)
  then have t: "unat ?t = sum_list (k_cpu h2) - sum_list (k_cpu h1)"
    using ran by (intro word_delta) (simp_all add: host_ran_def)
  have tj: "table_jiffies ps1 (int (kp_pid p)) = Some ?old" using Some by (simp add: table_jiffies_def)
  show ?thesis
  proof (cases "jiffies p < jiffies q")
    case True
    then have "\<not> ?old \<le> ?cur" using u by (simp add: word_le_nat_alt)
    then show ?thesis using True by (simp add: tj busy_share_def Some process_cpu_def)
  next
    case False
    then have le: "?old \<le> ?cur" using u by (simp add: word_le_nat_alt)
    have d: "unat (?cur - ?old) = jiffies p - jiffies q" using False j by (intro word_delta) simp_all
    have "\<bar>process_cpu False ?t (Some ?old) ?cur cpus - 100 * (of_nat cpus *
        (of_nat (jiffies p - jiffies q) / of_nat (sum_list (k_cpu h2) - sum_list (k_cpu h1))))\<bar> \<le> of_nat cpus / 10 ^ 9"
      by (rule process_cpu_close [OF le d t _ _ cpus]) (use ran q p in \<open>force simp: host_ran_def\<close>)+
    then show ?thesis using False by (simp add: tj busy_share_def Some)
  qed
qed

lemma rows_show:
  assumes t1: "table_shown s1 rd1 dir1 h1 ps1" and t2: "table_shown s2 rd2 dir2 h2 ps2"
    and ran: "host_ran h1 ps1 h2 ps2" and cpus: "cpus < 2 ^ 53" and "\<not> is_zero t"
  shows "list_all2 (shows_process h1 ps1 h2 look cpus) ps2
    (map (row_for \<lparr>pw_when = t, pw_totalJiffies = word_of_nat (sum_list (k_cpu h1)), pw_perPID = table_jiffies ps1\<rparr> look
       (word_of_nat (sum_list (k_cpu h2))) (k_memTotal h2) cpus) ps2)"
proof -
  have "shows_process h1 ps1 h2 look cpus p (row_for \<lparr>pw_when = t, pw_totalJiffies = word_of_nat (sum_list (k_cpu h1)), pw_perPID = table_jiffies ps1\<rparr> look
       (word_of_nat (sum_list (k_cpu h2))) (k_memTotal h2) cpus p)" if p: "p \<in> set ps2" for p
  proof -
    have m: "resident p \<le> k_memTotal h2" "0 < k_memTotal h2" using t2 p by (auto simp: table_shown_def list_all_iff kernel_host_def)
    then show ?thesis
      using row_cpu [OF t1 t2 p ran cpus] percent_of_close [of "int (resident p)" "int (k_memTotal h2)"] assms(5)
      by (simp add: shows_process_def row_for_def)
  qed
  then show ?thesis by (simp add: list_all2_conv_all_nth)
qed

section \<open>Properties\<close>


text \<open>A host with a process whose name holds parentheses and a space.\<close>

definition odd_process :: "nat \<Rightarrow> kernel_process" where
  "odd_process ut = \<lparr>kp_pid = 7, kp_comm = ''a) (b'', kp_state = CHR ''S'', kp_mid = replicate 10 (-1), kp_utime = ut, kp_stime = 0,
     kp_rest = [], kp_head = [''Name: a) (b''], kp_uid = 0, kp_middle = [], kp_rss = Some 100, kp_tail = [], kp_argv = [''odd'']\<rparr>"

definition odd_files :: "nat \<Rightarrow> host_state \<Rightarrow> file_reader" where
  "odd_files ut h path =
     (if path = ''/proc/7/stat'' then Inr (stat_file (odd_process ut))
      else if path = ''/proc/7/status'' then Inr (status_file (odd_process ut))
      else if path = ''/proc/7/cmdline'' then Inr (cmdline_file (odd_process ut))
      else kernel_files h path)"

lemma odd_table:
  assumes "ut < 2 ^ 63" and "kernel_host h" and "100 \<le> k_memTotal h"
  shows "table_shown processes_New (odd_files ut h) (\<lambda>_. Inr [''7'', ''self'']) h [odd_process ut]"
proof -
  have n: "List.map_filter parse_int64 [''7'', ''self''] = [7]" by code_simp
  have i: "itoa 7 = ''7''" by code_simp
  have o: "other_line ''Name: a) (b''" 
  proof -
    have "cut_byte CHR '':'' (drop_cr ''Name: a) (b'') = Some (''Name'', '' a) (b'')" by code_simp
    then show ?thesis by (simp add: other_line_def nl_def max_token_def)
  qed
  have "shown_process (odd_process ut)"
    using assms(1) o by (simp add: shown_process_def odd_process_def graph_char_def)
  moreover have "process_files processes_New (odd_files ut h) (odd_process ut)"
    by (simp add: process_files_def pid_path_def processes_New_def DefaultProcPath_def odd_files_def i odd_process_def)
  moreover have "resident (odd_process ut) = 100" by (simp add: resident_def odd_process_def)
  ultimately show ?thesis
    using assms(2,3) n
    by (simp add: table_shown_def processes_New_def DefaultProcPath_def odd_files_def kernel_files_def) (simp add: odd_process_def)
qed


end
