(* ===== verification/ServerInfo.thy ===== *)
theory ServerInfo
  imports Proc ClientRows
begin

text \<open>
  What the dashboard knows of its own server (\<^verbatim>\<open>internal/serverinfo/serverinfo.go\<close> and
  \<^verbatim>\<open>internal/systemd/systemd.go\<close>): the public address from the operator, the metadata service of
  EC2 or an echo service, the key of the interface, the kernel, the distribution and the state of the
  unit. The transport, the commands, the kernel and the files are parameters; a call takes the
  world it finds to the world it leaves, and the cached answer of the probe is the state of the service.
\<close>

definition wireguard_port :: int where "wireguard_port = 51820"
definition DefaultEchoURL :: string where "DefaultEchoURL = ''https://api.ipify.org''"
definition DefaultClientDNS :: string where "DefaultClientDNS = ''1.1.1.1''"
definition imdsBaseURL :: string where "imdsBaseURL = ''http://169.254.169.254/latest''"
definition imdsTokenURL :: string where "imdsTokenURL = imdsBaseURL @ ''/api/token''"
definition imdsPublicIPURL :: string where "imdsPublicIPURL = imdsBaseURL @ ''/meta-data/public-ipv4''"
definition imdsInstanceTypeURL :: string where "imdsInstanceTypeURL = imdsBaseURL @ ''/meta-data/instance-type''"
definition imdsAvailabilityZone :: string where
  "imdsAvailabilityZone = imdsBaseURL @ ''/meta-data/placement/availability-zone''"
definition imdsAMIIDURL :: string where "imdsAMIIDURL = imdsBaseURL @ ''/meta-data/ami-id''"
definition imdsMACURL :: string where "imdsMACURL = imdsBaseURL @ ''/meta-data/mac''"
definition imdsTokenTTL :: string where "imdsTokenTTL = ''60''"
definition echoTimeout :: duration where "echoTimeout = 3 * second"
definition ec2ProbeTimeout :: duration where "ec2ProbeTimeout = second"
definition imdsTimeout :: duration where "imdsTimeout = 2 * second"
definition osReleasePath :: string where "osReleasePath = ''/etc/os-release''"

text \<open>
  A request and its response: the bytes of the body that arrive, and the error that ends them, if
  one does.
\<close>

record meta_request =
  mt_Method :: string
  mt_URL :: string
  mt_Headers :: "(string \<times> string) list"
  mt_Timeout :: duration

record meta_response =
  mt_Status :: int
  mt_Data :: string
  mt_Broken :: "string option"

record kernel_info =
  ki_Sysname :: string
  ki_Nodename :: string
  ki_Release :: string
  ki_Version :: string
  ki_Machine :: string

record os_release =
  os_ID :: string
  os_Name :: string
  os_Version :: string
  os_PrettyName :: string

record 'w si_env =
  si_do :: "meta_request \<Rightarrow> 'w \<Rightarrow> (string + meta_response) \<times> 'w"
  si_run :: "string list \<Rightarrow> 'w \<Rightarrow> (cmd_error + string) \<times> 'w"

datatype si_error =
    ErrNotOnEC2
  | ProbeFailed si_error
  | BadRequest string
  | DoFailed string string
  | BodyBroken string string
  | BadStatus string int string
  | EmptyBody string
  | NotAnIP string string
  | NoIPSource
  | WgKeyFailed string
  | WgKeyEmpty
  | SiJoin "si_error list"

record build_info =
  bi_ReleaseTag :: string
  bi_SHA :: string
  bi_Time :: string
  bi_GoVersion :: string

record si_config =
  cf_PublicEndpoint :: string
  cf_EchoURL :: string
  cf_ClientDNS :: string
  cf_ServerNet :: string

text \<open>\<open>EC2Probe\<close> tells whether the probe is wired, \<open>ec2_once\<close> holds its answer once it has one.\<close>

record serverinfo =
  EC2Probe :: bool
  Echo :: "string option"
  ec2_once :: "bool option"
  PublicEndpoint :: string
  ClientDNS :: string
  ServerNetText :: string
  si_Build :: build_info

record server_info =
  sv_PublicIP :: string
  sv_Port :: int
  sv_PublicKey :: string

type_synonym ('w, 'a) si = "serverinfo \<times> 'w \<Rightarrow> (si_error + 'a) \<times> serverinfo \<times> 'w"

definition or_default :: "string \<Rightarrow> string \<Rightarrow> string" where
  "or_default def s = (if s = [] then def else s)"

definition serverinfo_New :: "si_config \<Rightarrow> build_info \<Rightarrow> serverinfo" where
  "serverinfo_New cfg build =
     \<lparr>EC2Probe = True, Echo = Some (or_default DefaultEchoURL (cf_EchoURL cfg)), ec2_once = None,
      PublicEndpoint = cf_PublicEndpoint cfg, ClientDNS = or_default DefaultClientDNS (cf_ClientDNS cfg),
      ServerNetText = or_default DefaultServerNet (cf_ServerNet cfg), si_Build = build\<rparr>"

subsection \<open>The metadata service\<close>

definition send :: "'w si_env \<Rightarrow> string \<Rightarrow> string \<Rightarrow> (string \<times> string) list \<Rightarrow> duration \<Rightarrow> 'w \<Rightarrow> (si_error + meta_response) \<times> 'w" where
  "send env meth url headers timeout w =
     (if parse_url url = None then (Inl (BadRequest url), w)
      else (case si_do env \<lparr>mt_Method = meth, mt_URL = url, mt_Headers = headers, mt_Timeout = timeout\<rparr> w of
              (Inl e, w') \<Rightarrow> (Inl (DoFailed url e), w')
            | (Inr resp, w') \<Rightarrow> (Inr resp, w')))"

text \<open>The whole body as a trimmed value: an error of reading it comes before its status.\<close>

definition read_value :: "string \<Rightarrow> meta_response \<Rightarrow> si_error + string" where
  "read_value url resp =
     (case mt_Broken resp of
        Some e \<Rightarrow> Inl (BodyBroken url e)
      | None \<Rightarrow>
          if mt_Status resp \<noteq> 200 then Inl (BadStatus url (mt_Status resp) (trim_space (mt_Data resp)))
          else if trim_space (mt_Data resp) = [] then Inl (EmptyBody url)
          else Inr (trim_space (mt_Data resp)))"

definition fetch_value :: "'w si_env \<Rightarrow> string \<Rightarrow> string \<Rightarrow> (string \<times> string) list \<Rightarrow> 'w \<Rightarrow> (si_error + string) \<times> 'w" where
  "fetch_value env meth url headers w =
     (case send env meth url headers imdsTimeout w of
        (Inl e, w') \<Rightarrow> (Inl e, w')
      | (Inr resp, w') \<Rightarrow> (read_value url resp, w'))"

definition fetchToken :: "'w si_env \<Rightarrow> 'w \<Rightarrow> (si_error + string) \<times> 'w" where
  "fetchToken env w = fetch_value env ''PUT'' imdsTokenURL [(''X-aws-ec2-metadata-token-ttl-seconds'', imdsTokenTTL)] w"

definition metadata :: "'w si_env \<Rightarrow> string \<Rightarrow> 'w \<Rightarrow> (si_error + string) \<times> 'w" where
  "metadata env url w =
     (case fetchToken env w of
        (Inl e, w') \<Rightarrow> (Inl e, w')
      | (Inr token, w') \<Rightarrow> fetch_value env ''GET'' url [(''X-aws-ec2-metadata-token'', token)] w')"

definition imds_PublicIP :: "'w si_env \<Rightarrow> 'w \<Rightarrow> (si_error + string) \<times> 'w" where
  "imds_PublicIP env = metadata env imdsPublicIPURL"

definition imds_InstanceType :: "'w si_env \<Rightarrow> 'w \<Rightarrow> (si_error + string) \<times> 'w" where
  "imds_InstanceType env = metadata env imdsInstanceTypeURL"

definition imds_AvailabilityZone :: "'w si_env \<Rightarrow> 'w \<Rightarrow> (si_error + string) \<times> 'w" where
  "imds_AvailabilityZone env = metadata env imdsAvailabilityZone"

definition imds_AMIID :: "'w si_env \<Rightarrow> 'w \<Rightarrow> (si_error + string) \<times> 'w" where
  "imds_AMIID env = metadata env imdsAMIIDURL"

definition VPCIPv4CIDR :: "'w si_env \<Rightarrow> 'w \<Rightarrow> (si_error + string) \<times> 'w" where
  "VPCIPv4CIDR env w =
     (case metadata env imdsMACURL w of
        (Inl e, w') \<Rightarrow> (Inl e, w')
      | (Inr mac, w') \<Rightarrow>
          metadata env (imdsBaseURL @ ''/meta-data/network/interfaces/macs/'' @ mac @ ''/vpc-ipv4-cidr-block'') w')"

definition defaultEC2Probe :: "'w si_env \<Rightarrow> 'w \<Rightarrow> si_error option \<times> 'w" where
  "defaultEC2Probe env w =
     (case send env ''PUT'' imdsTokenURL [(''X-aws-ec2-metadata-token-ttl-seconds'', imdsTokenTTL)] ec2ProbeTimeout w of
        (Inl e, w') \<Rightarrow> (Some (ProbeFailed e), w')
      | (Inr resp, w') \<Rightarrow>
          (if mt_Status resp \<noteq> 200 then Some (ProbeFailed (BadStatus imdsTokenURL (mt_Status resp) [])) else None, w'))"

subsection \<open>The public address\<close>

text \<open>At most 256 bytes of the answer are read; what is not an address is refused.\<close>

definition echo_value :: "string \<Rightarrow> meta_response \<Rightarrow> si_error + string" where
  "echo_value url resp =
     (let body = take 256 (mt_Data resp); value = trim_space body
      in if length (mt_Data resp) < 256 \<and> mt_Broken resp \<noteq> None then Inl (BodyBroken url (the (mt_Broken resp)))
         else if mt_Status resp \<noteq> 200 then Inl (BadStatus url (mt_Status resp) (trim_space body))
         else if parse_ip value = [] then Inl (NotAnIP url value)
         else Inr value)"

definition echo_client :: "'w si_env \<Rightarrow> string \<Rightarrow> 'w \<Rightarrow> (si_error + string) \<times> 'w" where
  "echo_client env url w =
     (case send env ''GET'' url [] echoTimeout w of
        (Inl e, w') \<Rightarrow> (Inl e, w')
      | (Inr resp, w') \<Rightarrow> (echo_value url resp, w'))"

definition publicEndpointHost :: "serverinfo \<Rightarrow> string" where
  "publicEndpointHost s =
     (let ep = trim_space (PublicEndpoint s)
      in if ep = [] then [] else (case split_host ep of Some host \<Rightarrow> host | None \<Rightarrow> ep))"

text \<open>The probe is sent at the first call only; every call after it has the same answer.\<close>

definition onEC2 :: "'w si_env \<Rightarrow> serverinfo \<times> 'w \<Rightarrow> bool \<times> serverinfo \<times> 'w" where
  "onEC2 env = (\<lambda>(s, w).
     case ec2_once s of
       Some b \<Rightarrow> (b, s, w)
     | None \<Rightarrow>
         if \<not> EC2Probe s then (True, s\<lparr>ec2_once := Some True\<rparr>, w)
         else (case defaultEC2Probe env w of
                 (r, w') \<Rightarrow> (r = None, s\<lparr>ec2_once := Some (r = None)\<rparr>, w')))"

definition lift_world :: "('w \<Rightarrow> (si_error + 'a) \<times> 'w) \<Rightarrow> ('w, 'a) si" where
  "lift_world f = (\<lambda>(s, w). case f w of (r, w') \<Rightarrow> (r, s, w'))"

definition resolvePublicIP :: "'w si_env \<Rightarrow> ('w, string) si" where
  "resolvePublicIP env st =
     (let host = publicEndpointHost (fst st)
      in if host \<noteq> [] then (Inr host, st)
         else (case onEC2 env st of
                 (True, st1) \<Rightarrow> lift_world (imds_PublicIP env) st1
               | (False, st1) \<Rightarrow>
                   (case Echo (fst st1) of
                      Some url \<Rightarrow> lift_world (echo_client env url) st1
                    | None \<Rightarrow> (Inl NoIPSource, st1))))"

definition only_on_ec2 :: "'w si_env \<Rightarrow> ('w \<Rightarrow> (si_error + string) \<times> 'w) \<Rightarrow> ('w, string) si" where
  "only_on_ec2 env f st =
     (case onEC2 env st of
        (True, st1) \<Rightarrow> lift_world f st1
      | (False, st1) \<Rightarrow> (Inl ErrNotOnEC2, st1))"

definition VPCCIDR :: "'w si_env \<Rightarrow> ('w, string) si" where
  "VPCCIDR env = only_on_ec2 env (VPCIPv4CIDR env)"
definition EC2PublicIP :: "'w si_env \<Rightarrow> ('w, string) si" where
  "EC2PublicIP env = only_on_ec2 env (imds_PublicIP env)"
definition InstanceType :: "'w si_env \<Rightarrow> ('w, string) si" where
  "InstanceType env = only_on_ec2 env (imds_InstanceType env)"
definition AvailabilityZone :: "'w si_env \<Rightarrow> ('w, string) si" where
  "AvailabilityZone env = only_on_ec2 env (imds_AvailabilityZone env)"
definition AMIID :: "'w si_env \<Rightarrow> ('w, string) si" where
  "AMIID env = only_on_ec2 env (imds_AMIID env)"

subsection \<open>The key of the server\<close>

definition fetchServerPublicKey :: "'w si_env \<Rightarrow> 'w \<Rightarrow> (si_error + string) \<times> 'w" where
  "fetchServerPublicKey env w =
     (case si_run env [''sudo'', ''/usr/bin/wg'', ''show'', ''wg0'', ''public-key''] w of
        (Inl (CmdExit msg stderr), w') \<Rightarrow>
          (Inl (WgKeyFailed (''wg show wg0 public-key: '' @ msg @ (if stderr \<noteq> [] then '': '' @ trim_space stderr else []))), w')
      | (Inl (CmdFailed msg), w') \<Rightarrow> (Inl (WgKeyFailed (''wg show wg0 public-key: '' @ msg)), w')
      | (Inr out, w') \<Rightarrow> (if trim_space out = [] then Inl WgKeyEmpty else Inr (trim_space out), w'))"

text \<open>The two reads run next to each other in the code and share nothing; the address is read first here.\<close>

definition serverinfo_Get :: "'w si_env \<Rightarrow> ('w, server_info) si" where
  "serverinfo_Get env st =
     (case resolvePublicIP env st of
        (ip, st1) \<Rightarrow>
          (case lift_world (fetchServerPublicKey env) st1 of
             (key, st2) \<Rightarrow>
               (case (ip, key) of
                  (Inr i, Inr k) \<Rightarrow> (Inr \<lparr>sv_PublicIP = i, sv_Port = wireguard_port, sv_PublicKey = k\<rparr>, st2)
                | (Inl e, Inr k) \<Rightarrow> (Inl (SiJoin [e]), st2)
                | (Inr i, Inl e) \<Rightarrow> (Inl (SiJoin [e]), st2)
                | (Inl e, Inl e') \<Rightarrow> (Inl (SiJoin [e, e']), st2))))"

subsection \<open>The kernel and the distribution\<close>

definition ByteSliceToString :: "string \<Rightarrow> string" where
  "ByteSliceToString bytes = takeWhile (\<lambda>c. c \<noteq> CHR 0x00) bytes"

definition Kernel :: "(string + kernel_info) option \<Rightarrow> string + kernel_info" where
  "Kernel uname =
     (case uname of
        None \<Rightarrow> Inl ''uname: reader not wired''
      | Some (Inl e) \<Rightarrow> Inl (''uname: '' @ e)
      | Some (Inr u) \<Rightarrow>
          Inr \<lparr>ki_Sysname = ByteSliceToString (ki_Sysname u), ki_Nodename = ByteSliceToString (ki_Nodename u),
               ki_Release = ByteSliceToString (ki_Release u), ki_Version = ByteSliceToString (ki_Version u),
               ki_Machine = ByteSliceToString (ki_Machine u)\<rparr>)"

definition no_release :: os_release where
  "no_release = \<lparr>os_ID = [], os_Name = [], os_Version = [], os_PrettyName = []\<rparr>"

definition trim_byte :: "char \<Rightarrow> string \<Rightarrow> string" where
  "trim_byte c s = rev (dropWhile (\<lambda>x. x = c) (rev (dropWhile (\<lambda>x. x = c) s)))"

definition release_line :: "string \<Rightarrow> os_release \<Rightarrow> os_release" where
  "release_line raw out =
     (let line = trim_space raw
      in if line = [] \<or> has_prefix ''#'' line then out
         else (case cut_byte CHR ''='' line of
                 None \<Rightarrow> out
               | Some (key, v) \<Rightarrow>
                   (let value = trim_byte dquote v
                    in if key = ''ID'' then out\<lparr>os_ID := value\<rparr>
                       else if key = ''NAME'' then out\<lparr>os_Name := value\<rparr>
                       else if key = ''VERSION'' then out\<lparr>os_Version := value\<rparr>
                       else if key = ''PRETTY_NAME'' then out\<lparr>os_PrettyName := value\<rparr>
                       else out)))"

definition parseOSRelease :: "string \<Rightarrow> os_release" where
  "parseOSRelease body = fold release_line (fst (scan_lines body)) no_release"

definition OSRelease :: "file_reader option \<Rightarrow> os_release \<times> string option" where
  "OSRelease rd =
     (case rd of
        None \<Rightarrow> (no_release\<lparr>os_ID := ''unknown''\<rparr>, Some ''os-release: reader not wired'')
      | Some f \<Rightarrow>
          (case f osReleasePath of
             Inl e \<Rightarrow> (no_release\<lparr>os_ID := ''unknown''\<rparr>, Some (''read '' @ osReleasePath @ '': '' @ e))
           | Inr body \<Rightarrow> (parseOSRelease body, None)))"

subsection \<open>The unit\<close>

definition DefaultUnit :: string where "DefaultUnit = ''wg-quick@wg0.service''"
definition activeEnterTimestampLayout :: string where "activeEnterTimestampLayout = ''Mon 2006-01-02 15:04:05 MST''"

record service_status =
  ss_Active :: bool
  ss_State :: string
  ss_EnteredAt :: time

text \<open>A command that exits with an error has still printed what it printed.\<close>

datatype unit_run = UnitExit string string string | UnitFailed string | UnitRan string

definition fetchState :: "(string list \<Rightarrow> 'w \<Rightarrow> unit_run \<times> 'w) \<Rightarrow> string \<Rightarrow> 'w \<Rightarrow> (string + string) \<times> 'w" where
  "fetchState run unit w =
     (case run [''sudo'', ''/usr/bin/systemctl'', ''is-active'', unit] w of
        (UnitExit out msg stderr, w') \<Rightarrow>
          (if trim_space out \<noteq> [] then Inr (trim_space out)
           else Inl (''systemctl is-active '' @ unit @ '': '' @ msg @ '': '' @ trim_space stderr), w')
      | (UnitFailed msg, w') \<Rightarrow> (Inl (''systemctl is-active '' @ unit @ '': '' @ msg), w')
      | (UnitRan out, w') \<Rightarrow> (Inr (trim_space out), w'))"

text \<open>\<^verbatim>\<open>time.Parse\<close> with the layout of systemd is a parameter.\<close>

definition parse_entered :: "(string \<Rightarrow> string \<Rightarrow> string + time) \<Rightarrow> string \<Rightarrow> string \<Rightarrow> string + time" where
  "parse_entered timeParse unit out =
     (let what = ''systemctl show -p ActiveEnterTimestamp '' @ unit; line = trim_space out
      in case cut_byte CHR ''='' line of
           None \<Rightarrow> Inl (what @ '': unexpected output'')
         | Some (_, v) \<Rightarrow>
             (let value = trim_space v
              in if value = [] \<or> value = ''n/a'' then Inr zero_time
                 else (case timeParse activeEnterTimestampLayout value of
                         Inl e \<Rightarrow> Inl (what @ '': parse: '' @ e)
                       | Inr t \<Rightarrow> Inr t)))"

definition fetchActiveEnterTimestamp :: "(string list \<Rightarrow> 'w \<Rightarrow> unit_run \<times> 'w) \<Rightarrow> (string \<Rightarrow> string \<Rightarrow> string + time) \<Rightarrow>
    string \<Rightarrow> 'w \<Rightarrow> (string + time) \<times> 'w" where
  "fetchActiveEnterTimestamp run timeParse unit w =
     (let what = ''systemctl show -p ActiveEnterTimestamp '' @ unit
      in case run [''sudo'', ''/usr/bin/systemctl'', ''show'', ''-p'', ''ActiveEnterTimestamp'', unit] w of
           (UnitExit out msg stderr, w') \<Rightarrow>
             (Inl (what @ '': '' @ msg @ (if stderr \<noteq> [] then '': '' @ trim_space stderr else [])), w')
         | (UnitFailed msg, w') \<Rightarrow> (Inl (what @ '': '' @ msg), w')
         | (UnitRan out, w') \<Rightarrow> (parse_entered timeParse unit out, w'))"

definition systemd_Get :: "(string list \<Rightarrow> 'w \<Rightarrow> unit_run \<times> 'w) \<Rightarrow> (string \<Rightarrow> string \<Rightarrow> string + time) \<Rightarrow>
    string \<Rightarrow> 'w \<Rightarrow> (string + service_status) \<times> 'w" where
  "systemd_Get run timeParse unit w =
     (case fetchState run unit w of
        (Inl e, w1) \<Rightarrow> (Inl e, w1)
      | (Inr state, w1) \<Rightarrow>
          (case fetchActiveEnterTimestamp run timeParse unit w1 of
             (Inl e, w2) \<Rightarrow> (Inl e, w2)
           | (Inr t, w2) \<Rightarrow> (Inr \<lparr>ss_Active = (state = ''active''), ss_State = state, ss_EnteredAt = t\<rparr>, w2)))"

end
