(* ===== verification/ConfigApi.thy ===== *)
theory ConfigApi
  imports ServerInfo Service WgConfig
begin

text \<open>
  The download of a client's configuration (\<^verbatim>\<open>server/handlers_config.go\<close>): the client of the database,
  the address and the key of the server, the resolver and the routes of the network, and the name
  of the file.
\<close>

datatype config_resp =
    ConfNotFound
  | ConfListError svc_error
  | ConfUnavailable
  | ConfBadVPC wgconfig_error
  | ConfBuildError string
  | ConfFile string string

definition byte_of :: "char \<Rightarrow> nat" where "byte_of c = of_char c"

definition cont_byte :: "string \<Rightarrow> nat \<Rightarrow> bool" where
  "cont_byte s i \<longleftrightarrow> i < length s \<and> 0x80 \<le> byte_of (s ! i) \<and> byte_of (s ! i) \<le> 0xBF"

definition second_between :: "string \<Rightarrow> nat \<Rightarrow> nat \<Rightarrow> bool" where
  "second_between s lo hi \<longleftrightarrow> 1 < length s \<and> lo \<le> byte_of (s ! 1) \<and> byte_of (s ! 1) \<le> hi"

text \<open>
  The number of bytes of the first rune of a text in UTF-8; a byte that starts none is a rune of
  its own.
\<close>

definition rune_size :: "string \<Rightarrow> nat" where
  "rune_size s =
     (let b = byte_of (hd s)
      in if 0xC2 \<le> b \<and> b \<le> 0xDF \<and> cont_byte s 1 then 2
         else if b = 0xE0 \<and> second_between s 0xA0 0xBF \<and> cont_byte s 2 then 3
         else if b = 0xED \<and> second_between s 0x80 0x9F \<and> cont_byte s 2 then 3
         else if 0xE1 \<le> b \<and> b \<le> 0xEF \<and> b \<noteq> 0xED \<and> cont_byte s 1 \<and> cont_byte s 2 then 3
         else if b = 0xF0 \<and> second_between s 0x90 0xBF \<and> cont_byte s 2 \<and> cont_byte s 3 then 4
         else if b = 0xF4 \<and> second_between s 0x80 0x8F \<and> cont_byte s 2 \<and> cont_byte s 3 then 4
         else if 0xF1 \<le> b \<and> b \<le> 0xF3 \<and> cont_byte s 1 \<and> cont_byte s 2 \<and> cont_byte s 3 then 4
         else 1)"

definition file_char :: "char \<Rightarrow> bool" where
  "file_char c \<longleftrightarrow> is_letter c \<or> is_digit c \<or> c = CHR ''.'' \<or> c = CHR ''_'' \<or> c = CHR ''-''"

function sanitize_runes :: "string \<Rightarrow> string" where
  "sanitize_runes [] = []"
| "sanitize_runes (c # s) = (if file_char c then c else CHR ''-'') # sanitize_runes (drop (rune_size (c # s) - 1) s)"
  by pat_completeness auto
termination by (relation "measure length") auto

definition sanitizeFilename :: "string \<Rightarrow> string" where
  "sanitizeFilename name = (let out = sanitize_runes name in if out = [] then ''client'' else out)"

definition JoinHostPort :: "string \<Rightarrow> string \<Rightarrow> string" where
  "JoinHostPort host port = (if CHR '':'' \<in> set host then ''['' @ host @ '']:'' @ port else host @ '':'' @ port)"

text \<open>A call of the server information from a handler that also holds the client service.\<close>

definition with_si :: "('w, 'a) si \<Rightarrow> serverinfo \<times> 'w service \<Rightarrow> (si_error + 'a) \<times> serverinfo \<times> 'w service" where
  "with_si f = (\<lambda>(si, s). case f (si, world s) of (r, si', w') \<Rightarrow> (r, si', s\<lparr>world := w'\<rparr>))"

definition overlay_of :: "serverinfo \<Rightarrow> string" where
  "overlay_of si =
     (case OverlaySubnet (or_default DefaultServerNet (ServerNetText si)) of
        Inr o1 \<Rightarrow> o1
      | Inl e \<Rightarrow> (case OverlaySubnet DefaultServerNet of Inr o2 \<Rightarrow> o2 | Inl e' \<Rightarrow> []))"

text \<open>The resolver and the split routes: of the network of the cloud when it is known.\<close>

definition dns_and_routes :: "serverinfo \<Rightarrow> si_error + string \<Rightarrow> wgconfig_error + string \<times> string list" where
  "dns_and_routes si vpc =
     (case vpc of
        Inr cidr \<Rightarrow>
          if cidr \<noteq> [] then
            (case ResolverForVPC cidr of Inl e \<Rightarrow> Inl e | Inr resolver \<Rightarrow> Inr (resolver, [overlay_of si, cidr]))
          else Inr (or_default DefaultClientDNS (ClientDNS si), [overlay_of si])
      | Inl e \<Rightarrow> Inr (or_default DefaultClientDNS (ClientDNS si), [overlay_of si]))"

definition config_file :: "string \<Rightarrow> string" where
  "config_file name = ''wg-'' @ sanitizeFilename name @ ''.conf''"

definition handleGetClientConfig :: "'w si_env \<Rightarrow> string \<Rightarrow> string \<Rightarrow> serverinfo \<times> 'w service \<Rightarrow>
    config_resp \<times> serverinfo \<times> 'w service" where
  "handleGetClientConfig env name mode st =
     (if name = [] then (ConfNotFound, st)
      else (case svc_List (snd st) of
         (Inl e, s1) \<Rightarrow> (ConfListError e, fst st, s1)
       | (Inr cs, s1) \<Rightarrow>
         (case find (\<lambda>c. Name c = name) cs of
            None \<Rightarrow> (ConfNotFound, fst st, s1)
          | Some c \<Rightarrow>
            (case with_si (serverinfo_Get env) (fst st, s1) of
               (Inl e, st2) \<Rightarrow> (ConfUnavailable, st2)
             | (Inr info, st2) \<Rightarrow>
               if sv_PublicIP info = [] \<or> sv_PublicKey info = [] then (ConfUnavailable, st2)
               else
                 (case with_si (VPCCIDR env) st2 of
                    (vpc, st3) \<Rightarrow>
                      (case dns_and_routes (fst st3) vpc of
                         Inl e \<Rightarrow> (ConfBadVPC e, st3)
                       | Inr (dns, routes) \<Rightarrow>
                         (case Build \<lparr>wc_Name = Name c, wc_Address = Address c\<rparr> (ParseMode mode) (sv_PublicKey info)
                                 (JoinHostPort (sv_PublicIP info) (itoa (sv_Port info))) dns routes of
                            Inl e \<Rightarrow> (ConfBuildError e, st3)
                          | Inr conf \<Rightarrow> (ConfFile (config_file (Name c)) conf, st3))))))))"

definition config_status :: "config_resp \<Rightarrow> int" where
  "config_status r =
     (case r of ConfNotFound \<Rightarrow> 404 | ConfListError e \<Rightarrow> 500 | ConfUnavailable \<Rightarrow> 503 | ConfBadVPC e \<Rightarrow> 500
      | ConfBuildError e \<Rightarrow> 500 | ConfFile f b \<Rightarrow> 200)"

section \<open>Lemmas\<close>

lemma onEC2_fixed: "ec2_once s = Some b \<Longrightarrow> onEC2 env (s, w) = (b, s, w)"
  by (simp add: onEC2_def)

lemma onEC2_remembers: "onEC2 env st = (b, s1, w1) \<Longrightarrow> ec2_once s1 = Some b \<and> s1\<lparr>ec2_once := ec2_once (fst st)\<rparr> = fst st"
  by (auto simp: onEC2_def split: prod.splits option.splits if_splits)

lemma only_on_ec2_off: "ec2_once s = Some False \<Longrightarrow> only_on_ec2 env f (s, w) = (Inl ErrNotOnEC2, s, w)"
  using onEC2_fixed [of s False env w] by (simp add: only_on_ec2_def)

lemma resolve_off:
  assumes "ec2_once s = Some False"
  shows "\<exists>r w'. resolvePublicIP env (s, w) = (r, s, w')"
  using onEC2_fixed [OF assms, of env w]
  by (auto simp: resolvePublicIP_def lift_world_def Let_def split: option.split prod.split)

lemma Get_off:
  assumes "ec2_once s = Some False"
  shows "\<exists>r w'. serverinfo_Get env (s, w) = (r, s, w')"
proof -
  obtain r w1 where "resolvePublicIP env (s, w) = (r, s, w1)" using resolve_off [OF assms] by metis
  then show ?thesis by (auto simp: serverinfo_Get_def lift_world_def split: prod.split sum.split)
qed

lemma ParseMode_Build:
  "\<exists>conf. Build c (ParseMode q) key endpoint dns routes = Inr conf"
  by (simp add: Build_lines)

lemma sanitize_chars: "list_all file_char (sanitize_runes s)"
  by (induction s rule: sanitize_runes.induct) (simp_all add: file_char_def)

lemma sanitize_file: "list_all file_char (config_file name)" "config_file name \<noteq> []"
proof -
  have "list_all file_char (sanitizeFilename name)"
    using sanitize_chars [of name] by (simp add: sanitizeFilename_def Let_def file_char_def is_letter_def)
  then show "list_all file_char (config_file name)" by (simp add: config_file_def file_char_def is_letter_def)
qed (simp add: config_file_def)

lemma with_si_off:
  assumes "ec2_once si = Some False"
  shows "\<exists>r s'. with_si (serverinfo_Get env) (si, s) = (r, si, s')" "with_si (VPCCIDR env) (si, s) = (Inl ErrNotOnEC2, si, s)"
proof -
  obtain r w' where "serverinfo_Get env (si, world s) = (r, si, w')" using Get_off [OF assms] by metis
  then show "\<exists>r s'. with_si (serverinfo_Get env) (si, s) = (r, si, s')" by (simp add: with_si_def)
  show "with_si (VPCCIDR env) (si, s) = (Inl ErrNotOnEC2, si, s)"
    using only_on_ec2_off [OF assms, of env "VPCIPv4CIDR env" "world s"] by (simp add: with_si_def VPCCIDR_def)
qed

lemma config_off:
  assumes off: "ec2_once si = Some False"
    and h: "handleGetClientConfig env name mode (si, s) = (ConfFile f conf, si2, s2)"
  shows "si2 = si \<and> (\<exists>(c :: client) (info :: server_info). Name c = name \<and>
    Build \<lparr>wc_Name = Name c, wc_Address = Address c\<rparr> (ParseMode mode) (sv_PublicKey info)
      (JoinHostPort (sv_PublicIP info) (itoa (sv_Port info))) (or_default DefaultClientDNS (ClientDNS si)) [overlay_of si] = Inr conf)"
proof -
  obtain cs s1 where l: "svc_List s = (Inr cs, s1)" and n: "name \<noteq> []"
    using h by (auto simp: handleGetClientConfig_def split: if_splits sum.splits prod.splits)
  obtain c where c: "find (\<lambda>c. Name c = name) cs = Some c"
    using h n l by (auto simp: handleGetClientConfig_def split: option.splits)
  from find_SomeD [OF c] have nm: "Name c = name" by simp
  obtain r s2' where g: "with_si (serverinfo_Get env) (si, s1) = (r, si, s2')" using with_si_off(1) [OF off] by metis
  note v = with_si_off(2) [OF off, of env s2']
  obtain info where i: "r = Inr info"
    using h n l c g by (cases r) (simp_all add: handleGetClientConfig_def)
  have ne: "\<not> (sv_PublicIP info = [] \<or> sv_PublicKey info = [])"
    using h n l c g i by (auto simp: handleGetClientConfig_def)
  have d: "dns_and_routes si (Inl ErrNotOnEC2) = Inr (or_default DefaultClientDNS (ClientDNS si), [overlay_of si])"
    by (simp add: dns_and_routes_def)
  obtain conf' where b: "Build \<lparr>wc_Name = Name c, wc_Address = Address c\<rparr> (ParseMode mode) (sv_PublicKey info)
      (JoinHostPort (sv_PublicIP info) (itoa (sv_Port info))) (or_default DefaultClientDNS (ClientDNS si)) [overlay_of si] = Inr conf'"
    using ParseMode_Build by blast
  then have "handleGetClientConfig env name mode (si, s) = (ConfFile (config_file (Name c)) conf', si, s2')"
    using n ne by (simp add: handleGetClientConfig_def l c g i v d)
  with h have e: "conf' = conf" "si2 = si" by simp_all
  from b have "Build \<lparr>wc_Name = Name c, wc_Address = Address c\<rparr> (ParseMode mode) (sv_PublicKey info)
      (JoinHostPort (sv_PublicIP info) (itoa (sv_Port info))) (or_default DefaultClientDNS (ClientDNS si)) [overlay_of si] = Inr conf"
    unfolding e(1) .
  with nm e(2) show ?thesis by blast
qed

lemma probe_failed_once:
  assumes "EC2Probe si" and "ec2_once si = None" and "fst (defaultEC2Probe env w) \<noteq> None"
  shows "onEC2 env (si, w) = (False, si\<lparr>ec2_once := Some False\<rparr>, snd (defaultEC2Probe env w))"
  using assms by (auto simp: onEC2_def split: prod.split)

lemma port_text: "itoa wireguard_port = ''51820''"
proof -
  have "digit_char 5 = CHR ''5''" "digit_char 1 = CHR ''1''" "digit_char 8 = CHR ''8''" "digit_char 2 = CHR ''2''" "digit_char 0 = CHR ''0''"
    by code_simp+
  then have "itoa_nat 51820 = ''51820''"
    by (simp add: itoa_nat.simps [of 51820] itoa_nat.simps [of 5182] itoa_nat.simps [of 518] itoa_nat.simps [of 51] itoa_nat.simps [of 5])
  then show ?thesis by (simp add: wireguard_port_def itoa_def)
qed

lemma config_runs:
  assumes "faults (svc_db s) = []" and "find (\<lambda>c. Name c = name) (listed (tabs (svc_db s))) = Some c" and "name \<noteq> []"
    and "serverinfo_Get env (si, world s) = (Inr \<lparr>sv_PublicIP = ip, sv_Port = wireguard_port, sv_PublicKey = key\<rparr>, si1, w1)"
    and "ip \<noteq> []" and "key \<noteq> []" and "VPCCIDR env (si1, w1) = (vpc, si2, w2)" and "dns_and_routes si2 vpc = Inr (dns, routes)"
    and "one_line (Address c)" and "one_line key" and "one_line ip" and "one_line dns" and "list_all one_line routes"
  shows "\<exists>f conf. handleGetClientConfig env name mode (si, s) = (ConfFile f conf, si2, s\<lparr>world := w2\<rparr>) \<and>
    list_all file_char f \<and>
    sections (read_conf conf) =
      [(''Interface'', [(''PrivateKey'', unblank privateKeyPlaceholder), (''Address'', unblank (Address c)), (''DNS'', unblank dns)]),
       (''Peer'', [(''PublicKey'', unblank key),
                   (''Endpoint'', unblank (if CHR '':'' \<in> set ip then ''['' @ ip @ '']:51820'' else ip @ '':51820'')),
                   (''AllowedIPs'', unblank (if mode = ''split'' then join_with '', '' routes else ''0.0.0.0/0, ::/0'')),
                   (''PersistentKeepalive'', ''25'')])]"
proof -
  let ?ep = "JoinHostPort ip (itoa wireguard_port)"
  have ep: "one_line ?ep" using assms(11) by (simp add: port_text JoinHostPort_def one_line_def nl_def)
  obtain conf where c: "Build \<lparr>wc_Name = Name c, wc_Address = Address c\<rparr> (ParseMode mode) key ?ep dns routes = Inr conf"
    "sections (read_conf conf) =
      [(''Interface'', map (\<lambda>(k, v). (k, unblank v)) (client_lines \<lparr>wc_Name = Name c, wc_Address = Address c\<rparr> dns)),
       (''Peer'', map (\<lambda>(k, v). (k, unblank v)) (server_lines key ?ep (allowed_of mode routes)))]"
    using read_Build [of "\<lparr>wc_Name = Name c, wc_Address = Address c\<rparr>" dns key ?ep routes mode] assms(9,10,12,13) ep
    by (auto simp: list_all_iff)
  have l: "svc_List s = (Inr (listed (tabs (svc_db s))), s)" using list_no_fault [OF assms(1)] by (simp add: svc_List_def)
  have "handleGetClientConfig env name mode (si, s) = (ConfFile (config_file (Name c)) conf, si2, s\<lparr>world := w2\<rparr>)"
    using assms(2-8) c(1) by (simp add: handleGetClientConfig_def l with_si_def)
  moreover have "unblank ''25'' = ''25''" by code_simp
  ultimately show ?thesis
    using sanitize_file(1) c(2)
    by (simp add: client_lines_def server_lines_def allowed_of_def keepalive_text port_text JoinHostPort_def)
qed

section \<open>Properties\<close>

text \<open>
  C34. The configuration of a client that is in the database, on a server whose address and key are
  known, is a file with a safe name that reads back as the address of the client, the resolver, the
  key and the endpoint of the server with its fixed port, and the routes of the mode asked for.
\<close>

theorem config_download:
  assumes "faults (svc_db s) = []" and "find (\<lambda>c. Name c = name) (listed (tabs (svc_db s))) = Some c" and "name \<noteq> []"
    and "serverinfo_Get env (si, world s) = (Inr \<lparr>sv_PublicIP = ip, sv_Port = wireguard_port, sv_PublicKey = key\<rparr>, si1, w1)"
    and "ip \<noteq> []" and "key \<noteq> []" and "VPCCIDR env (si1, w1) = (vpc, si2, w2)" and "dns_and_routes si2 vpc = Inr (dns, routes)"
    and "one_line (Address c)" and "one_line key" and "one_line ip" and "one_line dns" and "list_all one_line routes"
  shows "\<exists>f conf. handleGetClientConfig env name mode (si, s) = (ConfFile f conf, si2, s\<lparr>world := w2\<rparr>) \<and>
    list_all file_char f \<and>
    sections (read_conf conf) =
      [(''Interface'', [(''PrivateKey'', unblank privateKeyPlaceholder), (''Address'', unblank (Address c)), (''DNS'', unblank dns)]),
       (''Peer'', [(''PublicKey'', unblank key),
                   (''Endpoint'', unblank (if CHR '':'' \<in> set ip then ''['' @ ip @ '']:51820'' else ip @ '':51820'')),
                   (''AllowedIPs'', unblank (if mode = ''split'' then join_with '', '' routes else ''0.0.0.0/0, ::/0'')),
                   (''PersistentKeepalive'', ''25'')])]"
  using assms by (rule config_runs)

text \<open>
  C35. The probe for the cloud is sent once and its answer is kept for good: after one failure, be it of
  a request that was cancelled, every configuration is built for a server outside the cloud, with
  the fallback resolver and without the route of the network, whatever the metadata service
  answers by then.
\<close>

theorem failed_probe_is_final:
  assumes "EC2Probe si" and "ec2_once si = None" and "fst (defaultEC2Probe env w) \<noteq> None"
    and "handleGetClientConfig env name mode (fst (snd (onEC2 env (si, w))), s) = (ConfFile f conf, si2, s2)"
  shows "(\<exists>(c :: client) (info :: server_info). Name c = name \<and>
      Build \<lparr>wc_Name = Name c, wc_Address = Address c\<rparr> (ParseMode mode) (sv_PublicKey info)
        (JoinHostPort (sv_PublicIP info) (itoa (sv_Port info))) (or_default DefaultClientDNS (ClientDNS si)) [overlay_of si] = Inr conf) \<and>
    onEC2 env (si2, w2) = (False, si2, w2)"
proof -
  let ?si = "si\<lparr>ec2_once := Some False\<rparr>"
  have h: "handleGetClientConfig env name mode (?si, s) = (ConfFile f conf, si2, s2)"
    using assms(4) probe_failed_once [OF assms(1-3)] by simp
  have "overlay_of ?si = overlay_of si" by (simp add: overlay_of_def)
  then show ?thesis using config_off [OF _ h] onEC2_fixed [of si2 False env w2] by auto
qed

text \<open>A metadata service that can be up or down, and the database of one client.\<close>

definition cloud_box :: "bool si_env" where
  "cloud_box = \<lparr>si_do = (\<lambda>q up. (if \<not> up then Inl ''timeout''
       else Inr \<lparr>mt_Status = 200, mt_Data = if mt_URL q = imdsTokenURL then ''T'' else if mt_URL q = imdsMACURL then ''02:0a'' else ''10.23.0.0/16'',
                 mt_Broken = None\<rparr>, up)),
     si_run = (\<lambda>cmd up. (Inr ''SERVERKEY'', up))\<rparr>"

definition named_box :: serverinfo where
  "named_box = serverinfo_New \<lparr>cf_PublicEndpoint = ''vpn.example.com:51820'', cf_EchoURL = [], cf_ClientDNS = [], cf_ServerNet = []\<rparr>
     \<lparr>bi_ReleaseTag = [], bi_SHA = [], bi_Time = [], bi_GoVersion = []\<rparr>"

lemma box_urls1: "parse_url imdsTokenURL \<noteq> None" 
  by code_simp
lemma box_urls2: "parse_url imdsMACURL \<noteq> None"
  by code_simp
lemma box_urls3: "parse_url (imdsBaseURL @ ''/meta-data/network/interfaces/macs/'' @ ''02:0a'' @ ''/vpc-ipv4-cidr-block'') \<noteq> None"
  by code_simp
lemma box_urls4:
    "imdsTokenURL \<noteq> imdsMACURL" "imdsMACURL \<noteq> imdsTokenURL"
    "imdsBaseURL @ ''/meta-data/network/interfaces/macs/'' @ ''02:0a'' @ ''/vpc-ipv4-cidr-block'' \<notin> {imdsTokenURL, imdsMACURL}"
    by code_simp+
lemma box_urls5:
    "trim_space ''T'' = ''T''" "trim_space ''02:0a'' = ''02:0a''" "trim_space ''10.23.0.0/16'' = ''10.23.0.0/16''"
    "trim_space ''SERVERKEY'' = ''SERVERKEY''" "trim_space ''vpn.example.com:51820'' = ''vpn.example.com:51820''"
  by (rule trim_space_graph, code_simp)+

lemma box_urls6: "publicEndpointHost named_box = ''vpn.example.com''"
proof -
  have "split_host ''vpn.example.com:51820'' = Some ''vpn.example.com''" by code_simp
  then show ?thesis using box_urls5 by (simp add: publicEndpointHost_def named_box_def serverinfo_New_def)
qed

lemmas box_urls = box_urls1 box_urls2 box_urls3 box_urls4 box_urls5 box_urls6

lemma box_parts:
  "si_do cloud_box q up = (if \<not> up then Inl ''timeout''
     else Inr \<lparr>mt_Status = 200, mt_Data = if mt_URL q = imdsTokenURL then ''T'' else if mt_URL q = imdsMACURL then ''02:0a'' else ''10.23.0.0/16'',
               mt_Broken = None\<rparr>, up)"
  "si_run cloud_box cmd up = (Inr ''SERVERKEY'', up)"
  by (simp_all only: cloud_box_def si_env.select_convs)

lemma box_metadata:
  "metadata cloud_box imdsMACURL True = (Inr ''02:0a'', True)"
  "VPCIPv4CIDR cloud_box True = (Inr ''10.23.0.0/16'', True)"
proof -
  have t: "fetchToken cloud_box True = (Inr ''T'', True)"
    using box_urls by (simp add: fetchToken_def fetch_value_def send_def box_parts read_value_def)
  show m: "metadata cloud_box imdsMACURL True = (Inr ''02:0a'', True)"
    using box_urls t by (simp add: metadata_def fetch_value_def send_def read_value_def box_parts)
  show "VPCIPv4CIDR cloud_box True = (Inr ''10.23.0.0/16'', True)"
    unfolding VPCIPv4CIDR_def m
    using box_urls t by (simp add: metadata_def fetch_value_def send_def read_value_def box_parts)
qed

lemma box_get: "serverinfo_Get cloud_box (named_box\<lparr>ec2_once := b\<rparr>, up) =
    (Inr \<lparr>sv_PublicIP = ''vpn.example.com'', sv_Port = wireguard_port, sv_PublicKey = ''SERVERKEY''\<rparr>, named_box\<lparr>ec2_once := b\<rparr>, up)"
proof -
  have "publicEndpointHost (named_box\<lparr>ec2_once := b\<rparr>) = ''vpn.example.com''" using box_urls by (simp add: publicEndpointHost_def)
  then show ?thesis using box_urls
    by (simp add: serverinfo_Get_def resolvePublicIP_def lift_world_def fetchServerPublicKey_def box_parts)
qed

lemma one_client_found: "find (\<lambda>c. Name c = ''a'') (listed (tabs one_client)) = Some (client_of_row (row_of_client 1 (peer ''a'' ''K1'' ''172.16.15.2/32'')))"
  by (simp add: one_client_def listed_def client_of_row_def row_of_client_def peer_def)

lemma box_lines: "one_line ''172.16.15.2/32''" "one_line ''SERVERKEY''" "one_line ''vpn.example.com''" "one_line ''10.23.0.2''" "one_line ''1.1.1.1''"
    "one_line ''172.16.15.0/24''" "one_line ''10.23.0.0/16''" "ResolverForVPC ''10.23.0.0/16'' = Inr ''10.23.0.2''"
    "OverlaySubnet DefaultServerNet = Inr ''172.16.15.0/24''"
  by code_simp+

lemma box_plan:
  "dns_and_routes (named_box\<lparr>ec2_once := b\<rparr>) (Inr ''10.23.0.0/16'') = Inr (''10.23.0.2'', [''172.16.15.0/24'', ''10.23.0.0/16''])"
  "dns_and_routes (named_box\<lparr>ec2_once := b\<rparr>) (Inl e) = Inr (''1.1.1.1'', [''172.16.15.0/24''])"
  using box_lines by (simp_all add: dns_and_routes_def overlay_of_def named_box_def serverinfo_New_def or_default_def DefaultClientDNS_def DefaultServerNet_def)

theorem config_download_witness:
  "\<exists>f conf. handleGetClientConfig cloud_box ''a'' ''split'' (named_box\<lparr>ec2_once := Some True\<rparr>, NewService one_client [] True) =
      (ConfFile f conf, named_box\<lparr>ec2_once := Some True\<rparr>, (NewService one_client [] True)\<lparr>world := True\<rparr>) \<and>
    sections (read_conf conf) ! 1 =
      (''Peer'', [(''PublicKey'', ''SERVERKEY''), (''Endpoint'', ''vpn.example.com:51820''),
                  (''AllowedIPs'', ''172.16.15.0/24,10.23.0.0/16''), (''PersistentKeepalive'', ''25'')])"
proof -
  let ?si = "named_box\<lparr>ec2_once := Some True\<rparr>" and ?s = "NewService one_client [] True"
  have s: "faults (svc_db ?s) = []" "tabs (svc_db ?s) = tabs one_client" "world ?s = True"
    by (simp_all add: NewService_def one_client_def)
  have v: "VPCCIDR cloud_box (?si, True) = (Inr ''10.23.0.0/16'', ?si, True)"
    using onEC2_fixed [of ?si True cloud_box True] box_metadata(2) by (simp add: VPCCIDR_def only_on_ec2_def lift_world_def)
  have u: "unblank ''SERVERKEY'' = ''SERVERKEY''" "unblank ''vpn.example.com:51820'' = ''vpn.example.com:51820''"
    "unblank ''172.16.15.0/24, 10.23.0.0/16'' = ''172.16.15.0/24,10.23.0.0/16''" "CHR '':'' \<notin> set ''vpn.example.com''"
    by code_simp+
  have "faults (svc_db ?s) = []" "find (\<lambda>c. Name c = ''a'') (listed (tabs (svc_db ?s))) = Some (client_of_row (row_of_client 1 (peer ''a'' ''K1'' ''172.16.15.2/32'')))"
    "(''a'' :: string) \<noteq> []"
    "serverinfo_Get cloud_box (?si, world ?s) = (Inr \<lparr>sv_PublicIP = ''vpn.example.com'', sv_Port = wireguard_port, sv_PublicKey = ''SERVERKEY''\<rparr>, ?si, True)"
    "(''vpn.example.com'' :: string) \<noteq> []" "(''SERVERKEY'' :: string) \<noteq> []"
    using s one_client_found box_get by simp_all
  from config_download [OF this v box_plan(1), of "''split''"] show ?thesis
    using box_lines u by (fastforce simp: client_of_row_def row_of_client_def peer_def)
qed

theorem failed_probe_is_final_witness:
  "\<exists>f conf si2 s2. handleGetClientConfig cloud_box ''a'' ''split'' (fst (snd (onEC2 cloud_box (named_box, False))), NewService one_client [] True) =
      (ConfFile f conf, si2, s2) \<and> onEC2 cloud_box (si2, True) = (False, si2, True)"
proof -
  let ?si = "named_box\<lparr>ec2_once := Some False\<rparr>" and ?s = "NewService one_client [] True"
  have p: "EC2Probe named_box" "ec2_once named_box = None" "fst (defaultEC2Probe cloud_box False) \<noteq> None"
    using box_urls by (simp_all add: named_box_def serverinfo_New_def defaultEC2Probe_def send_def box_parts)
  have s: "faults (svc_db ?s) = []" "tabs (svc_db ?s) = tabs one_client" "world ?s = True"
    by (simp_all add: NewService_def one_client_def)
  have v: "VPCCIDR cloud_box (?si, True) = (Inl ErrNotOnEC2, ?si, True)"
    using only_on_ec2_off [of ?si cloud_box "VPCIPv4CIDR cloud_box" True] by (simp add: VPCCIDR_def)
  have "faults (svc_db ?s) = []" "find (\<lambda>c. Name c = ''a'') (listed (tabs (svc_db ?s))) = Some (client_of_row (row_of_client 1 (peer ''a'' ''K1'' ''172.16.15.2/32'')))"
    "(''a'' :: string) \<noteq> []"
    "serverinfo_Get cloud_box (?si, world ?s) = (Inr \<lparr>sv_PublicIP = ''vpn.example.com'', sv_Port = wireguard_port, sv_PublicKey = ''SERVERKEY''\<rparr>, ?si, True)"
    "(''vpn.example.com'' :: string) \<noteq> []" "(''SERVERKEY'' :: string) \<noteq> []"
    using s one_client_found box_get by simp_all
  from config_runs [OF this v box_plan(2), of "''split''"] obtain f conf where
    h: "handleGetClientConfig cloud_box ''a'' ''split'' (?si, ?s) = (ConfFile f conf, ?si, ?s\<lparr>world := True\<rparr>)"
    using box_lines by (auto simp: client_of_row_def row_of_client_def peer_def)
  have "fst (snd (onEC2 cloud_box (named_box, False))) = ?si" using probe_failed_once [OF p] by simp
  with failed_probe_is_final [OF p, of "''a''" "''split''" ?s f conf ?si "?s\<lparr>world := True\<rparr>" True] h show ?thesis by auto
qed

end
