(* ===== verification/WebhookApi.thy ===== *)
theory WebhookApi
  imports ClientsApi Notify
begin

text \<open>
  The endpoints of the webhook (\<^verbatim>\<open>server/handlers_webhook.go\<close>): status, set, revert and test over
  the holder of \<^verbatim>\<open>notify\<close>. A request is that of the client endpoints; the rendering of the card
  and of the JSON is left out, what they are given is not.
\<close>

datatype webhook_resp =
    WhJson webhook_status
  | WhCard webhook_status string string
  | WhError string
  | WhTested bool string
  | WhUnavailable

definition webhook_code :: "webhook_resp \<Rightarrow> int" where
  "webhook_code r = (case r of WhError m \<Rightarrow> 400 | WhUnavailable \<Rightarrow> 503 | _ \<Rightarrow> 200)"

definition webhookStatus :: "webhook_config option \<Rightarrow> webhook_status" where
  "webhookStatus cfg =
     (case cfg of
        None \<Rightarrow> \<lparr>ws_Enabled = False, ws_MaskedURL = [], ws_OverrideActive = False\<rparr>
      | Some c \<Rightarrow> webhook_Status c)"

definition writeWebhookStatus :: "webhook_config option \<Rightarrow> webhook_resp" where
  "writeWebhookStatus cfg = WhJson (webhookStatus cfg)"

definition renderWebhookCard :: "webhook_config option \<Rightarrow> string \<Rightarrow> string \<Rightarrow> webhook_resp" where
  "renderWebhookCard cfg msg kind = WhCard (webhookStatus cfg) msg kind"

definition handleGetWebhook :: "webhook_config option \<Rightarrow> webhook_resp" where
  "handleGetWebhook cfg = writeWebhookStatus cfg"

fun url_of_json :: "json \<Rightarrow> string option" where
  "url_of_json (JObj ms) = string_member ''url'' ms"
| "url_of_json JNull = Some []"
| "url_of_json _ = None"

definition readWebhookURL :: "web_req \<Rightarrow> string option" where
  "readWebhookURL q =
     (if isJSONRequest q then map_option trim_space (Option.bind (q_Json q) url_of_json)
      else Some (trim_space (form_value ''url'' (case q_Form q of None \<Rightarrow> [] | Some form \<Rightarrow> form))))"

definition validateWebhookURL :: "string \<Rightarrow> string" where
  "validateWebhookURL raw =
     (if raw = [] then ''webhook url is required''
      else (case parse_url raw of
              None \<Rightarrow> ''webhook url is not a valid URL''
            | Some u \<Rightarrow>
                if u_Scheme u \<noteq> ''https'' then ''webhook url must use https''
                else if u_Host u = [] then ''webhook url must include a host''
                else []))"

definition handleSetWebhook :: "web_req \<Rightarrow> webhook_config option \<Rightarrow> webhook_resp \<times> webhook_config option" where
  "handleSetWebhook q cfg =
     (case cfg of
        None \<Rightarrow> (WhUnavailable, cfg)
      | Some c \<Rightarrow>
          (case readWebhookURL q of
             None \<Rightarrow>
               (if isHTMX q then renderWebhookCard cfg ''Could not read webhook URL.'' ''error''
                else WhError ''could not read webhook url'', cfg)
           | Some raw \<Rightarrow>
               (let verr = validateWebhookURL raw
                in if verr \<noteq> [] then (if isHTMX q then renderWebhookCard cfg verr ''error'' else WhError verr, cfg)
                   else (let cfg' = Some (SetURL raw c)
                         in (if isHTMX q then renderWebhookCard cfg' ''Saved.'' ''success'' else writeWebhookStatus cfg', cfg')))))"

definition handleRevertWebhook :: "web_req \<Rightarrow> webhook_config option \<Rightarrow> webhook_resp \<times> webhook_config option" where
  "handleRevertWebhook q cfg =
     (case cfg of
        None \<Rightarrow> (WhUnavailable, cfg)
      | Some c \<Rightarrow>
          (let cfg' = Some (Revert c)
           in (if isHTMX q then renderWebhookCard cfg' ''Reverted to deploy value.'' ''info'' else writeWebhookStatus cfg', cfg')))"

text \<open>
  The test reads the holder twice: once to see whether there is a target, and once more in the
  sender, which resolves it; the card shows the holder as it is at the end.
\<close>

definition testWebhookMessage :: string where
  "testWebhookMessage = [CHR 0xE2, CHR 0x9C, CHR 0x85] @ '' Test alert from wireguard-dashboard''"

definition handleTestWebhook :: "'w http_env \<Rightarrow> web_req \<Rightarrow> webhook_config option \<Rightarrow> webhook_config option \<Rightarrow> 'w \<Rightarrow> webhook_resp \<times> 'w" where
  "handleTestWebhook env q before after w =
     (case (before, after) of
        (Some c, Some c') \<Rightarrow>
          if \<not> webhook_Enabled c
          then (if isHTMX q then renderWebhookCard before ''No webhook configured.'' ''info'' else WhTested False ''no webhook configured'', w)
          else (case Webhook_Notify env c' NewNotifier_retry testWebhookMessage w of
                  (Some e, w') \<Rightarrow> (if isHTMX q then renderWebhookCard after ''Delivery failed.'' ''error'' else WhTested False ''delivery failed'', w')
                | (None, w') \<Rightarrow> (if isHTMX q then renderWebhookCard after ''Test alert delivered.'' ''success'' else WhTested True [], w'))
      | _ \<Rightarrow> (WhUnavailable, w))"

datatype webhook_call = CallGet | CallSet web_req | CallRevert web_req

fun webhook_serve :: "webhook_call \<Rightarrow> webhook_config option \<Rightarrow> webhook_resp \<times> webhook_config option" where
  "webhook_serve CallGet cfg = (handleGetWebhook cfg, cfg)"
| "webhook_serve (CallSet q) cfg = handleSetWebhook q cfg"
| "webhook_serve (CallRevert q) cfg = handleRevertWebhook q cfg"

fun webhook_session :: "webhook_call list \<Rightarrow> webhook_config option \<Rightarrow> webhook_resp list \<times> webhook_config option" where
  "webhook_session [] cfg = ([], cfg)"
| "webhook_session (q # qs) cfg =
     (case webhook_serve q cfg of
        (r, cfg') \<Rightarrow> (case webhook_session qs cfg' of (rs, cfg'') \<Rightarrow> (r # rs, cfg'')))"

section \<open>Lemmas\<close>

text \<open>The target of the holder is the value of the deployment or a URL that passed the check.\<close>

definition checked :: "string \<Rightarrow> webhook_config option \<Rightarrow> bool" where
  "checked seed cfg \<longleftrightarrow>
     (case cfg of None \<Rightarrow> False
      | Some c \<Rightarrow> wh_seed c = seed \<and> (case wh_override c of None \<Rightarrow> True | Some u \<Rightarrow> validateWebhookURL u = []))"

lemma serve_checked: "checked seed cfg \<Longrightarrow> checked seed (snd (webhook_serve q cfg))"
  by (cases q) (auto simp: checked_def handleSetWebhook_def handleRevertWebhook_def SetURL_def Revert_def Let_def split: option.splits)

interpretation webhook_api: op_invariant "checked seed" "\<lambda>_. True" "\<lambda>q cfg. snd (webhook_serve q cfg)" for seed
  by unfold_locales (rule serve_checked)

text \<open>Two URLs an answer may not tell apart, and requests that differ in such URLs only.\<close>

definition same_label :: "string \<Rightarrow> string \<Rightarrow> bool" where
  "same_label u v \<longleftrightarrow> (u = [] \<longleftrightarrow> v = []) \<and> redactURL u = redactURL v \<and> validateWebhookURL u = validateWebhookURL v"

fun same_call :: "webhook_call \<Rightarrow> webhook_call \<Rightarrow> bool" where
  "same_call CallGet CallGet = True"
| "same_call (CallSet q) (CallSet p) \<longleftrightarrow> isHTMX q = isHTMX p \<and> rel_option same_label (readWebhookURL q) (readWebhookURL p)"
| "same_call (CallRevert q) (CallRevert p) \<longleftrightarrow> isHTMX q = isHTMX p"
| "same_call _ _ = False"

definition same_holder :: "webhook_config option \<Rightarrow> webhook_config option \<Rightarrow> bool" where
  "same_holder = rel_option (\<lambda>c d. same_label (wh_seed c) (wh_seed d) \<and> rel_option same_label (wh_override c) (wh_override d))"

lemma status_same: "same_holder cfg dfg \<Longrightarrow> webhookStatus cfg = webhookStatus dfg"
  by (auto simp: same_holder_def webhookStatus_def webhook_Status_def same_label_def Let_def rel_option_iff split: option.splits)

lemma serve_same:
  assumes "same_call q p" and h: "same_holder cfg dfg"
  shows "fst (webhook_serve q cfg) = fst (webhook_serve p dfg) \<and> same_holder (snd (webhook_serve q cfg)) (snd (webhook_serve p dfg))"
proof -
  have st: "same_holder (Some (SetURL u c)) (Some (SetURL v d))" if "same_label u v" "same_holder (Some c) (Some d)" for u v c d
    using that by (simp add: same_holder_def SetURL_def)
  have rv: "same_holder (Some (Revert c)) (Some (Revert d))" if "same_holder (Some c) (Some d)" for c d
    using that by (simp add: same_holder_def Revert_def)
  show ?thesis
  proof (cases cfg)
    case None
    then have "dfg = None" using h by (simp add: same_holder_def)
    with None assms show ?thesis
      by (cases q; cases p) (auto simp: handleGetWebhook_def writeWebhookStatus_def handleSetWebhook_def handleRevertWebhook_def)
  next
    case (Some c)
    then obtain d where d: "dfg = Some d" using h by (auto simp: same_holder_def option_rel_Some1)
    show ?thesis
    proof (cases q)
      case CallGet
      with assms status_same [OF h] show ?thesis by (cases p) (simp_all add: handleGetWebhook_def writeWebhookStatus_def)
    next
      case (CallRevert q')
      with assms obtain p' where p: "p = CallRevert p'" "isHTMX q' = isHTMX p'" by (cases p) auto
      show ?thesis using CallRevert p Some d rv [of c d] h status_same [OF rv [of c d]]
        by (simp add: handleRevertWebhook_def Let_def writeWebhookStatus_def renderWebhookCard_def)
    next
      case (CallSet q')
      with assms obtain p' where p: "p = CallSet p'" "isHTMX q' = isHTMX p'" "rel_option same_label (readWebhookURL q') (readWebhookURL p')"
        by (cases p) auto
      show ?thesis
      proof (cases "readWebhookURL q'")
        case None
        then have "readWebhookURL p' = None" using p(3) by simp
        with None CallSet p Some d h status_same [OF h] show ?thesis
          by (simp add: handleSetWebhook_def renderWebhookCard_def)
      next
        case (Some u)
        then obtain v where v: "readWebhookURL p' = Some v" "same_label u v" using p(3) by (auto simp: option_rel_Some1)
        then have e: "validateWebhookURL u = validateWebhookURL v" by (simp add: same_label_def)
        have h': "same_holder (Some c) (Some d)" using h \<open>cfg = Some c\<close> d by simp
        note new = st [OF v(2) h']
        have "fst (handleSetWebhook q' (Some c)) = fst (handleSetWebhook p' (Some d)) \<and>
            same_holder (snd (handleSetWebhook q' (Some c))) (snd (handleSetWebhook p' (Some d)))"
        proof (cases "validateWebhookURL v = []")
          case True
          then show ?thesis using new status_same [OF new]
            by (simp only: handleSetWebhook_def Some v(1) e p(2) option.case Let_def renderWebhookCard_def writeWebhookStatus_def
                fst_conv snd_conv not_True_eq_False if_False simp_thms)
        next
          case False
          then show ?thesis using h' status_same [OF h']
            by (simp only: handleSetWebhook_def Some v(1) e p(2) option.case Let_def renderWebhookCard_def
                fst_conv snd_conv not_False_eq_True if_True simp_thms)
        qed
        with CallSet p(1) \<open>cfg = Some c\<close> d show ?thesis by simp
      qed
    qed
  qed
qed

lemma session_answers:
  "fst (webhook_session (q # qs) cfg) = fst (webhook_serve q cfg) # fst (webhook_session qs (snd (webhook_serve q cfg)))"
  by (simp split: prod.split)

lemma session_same:
  "list_all2 same_call qs ps \<Longrightarrow> same_holder cfg dfg \<Longrightarrow> fst (webhook_session qs cfg) = fst (webhook_session ps dfg)"
proof (induction qs ps arbitrary: cfg dfg rule: list_all2_induct)
  case (Cons q qs p ps)
  note s = serve_same [OF Cons.hyps(1) Cons.prems]
  show ?case unfolding session_answers using s Cons.IH [OF conjunct2 [OF s]] by blast
qed simp

section \<open>Properties\<close>


definition hook_req :: "string \<Rightarrow> web_req" where
  "hook_req u = \<lparr>q_HX = [], q_ContentType = ''application/json; charset=utf-8'', q_Json = Some (JObj [(''url'', JStr u)]),
     q_Form = None, q_Name = [], q_Range = []\<rparr>"


text \<open>
  The test of the webhook when the holder is emptied between its two reads: nothing is sent, and
  the answer is that the alert was delivered.
\<close>

theorem test_of_emptied_holder:
  assumes "webhook_Enabled c" and "Current c' = []"
  shows "handleTestWebhook env q (Some c) (Some c') w =
    (if isHTMX q then renderWebhookCard (Some c') ''Test alert delivered.'' ''success'' else WhTested True [], w)"
  using assms by (simp add: handleTestWebhook_def Webhook_Notify_def)

end
