(* ===== verification/Geo.thy ===== *)
theory Geo
  imports ClientsApi
begin

text \<open>
  The location of an address (\<^verbatim>\<open>internal/geoip/geoip.go\<close>) and the points of the map
  (\<^verbatim>\<open>server/handlers_geo.go\<close>). The reader of the city database is a parameter: what it holds for
  an address, if anything; an error and a missing record are the same to the code.
\<close>

record geo_record =
  rc_IsoCode :: string
  rc_City :: string
  rc_Latitude :: rat
  rc_Longitude :: rat

subsection \<open>The predicates of the standard library\<close>

definition IsUnspecified :: "ip \<Rightarrow> bool" where
  "IsUnspecified a \<longleftrightarrow> to4 a = [0, 0, 0, 0] \<or> a = replicate 16 0"

definition IsLoopback :: "ip \<Rightarrow> bool" where
  "IsLoopback a \<longleftrightarrow> (if to4 a \<noteq> [] then to4 a ! 0 = 127 else a = replicate 15 0 @ [1])"

definition IsPrivate :: "ip \<Rightarrow> bool" where
  "IsPrivate a \<longleftrightarrow>
     (if to4 a \<noteq> []
      then to4 a ! 0 = 10 \<or> (to4 a ! 0 = 172 \<and> to4 a ! 1 AND 0xF0 = 16) \<or> (to4 a ! 0 = 192 \<and> to4 a ! 1 = 168)
      else length a = 16 \<and> a ! 0 AND 0xFE = 0xFC)"

definition IsLinkLocalUnicast :: "ip \<Rightarrow> bool" where
  "IsLinkLocalUnicast a \<longleftrightarrow>
     (if to4 a \<noteq> [] then to4 a ! 0 = 169 \<and> to4 a ! 1 = 254
      else length a = 16 \<and> a ! 0 = 0xFE \<and> a ! 1 AND 0xC0 = 0x80)"

subsection \<open>The lookups\<close>

definition geoip_LookupGeo :: "(ip \<Rightarrow> geo_record option) \<Rightarrow> ip \<Rightarrow> geo_point" where
  "geoip_LookupGeo city a =
     (if a = [] \<or> IsUnspecified a then not_ok_point
      else if IsLoopback a then not_ok_point
      else if IsPrivate a then not_ok_point
      else if IsLinkLocalUnicast a then not_ok_point
      else (case city a of
              None \<Rightarrow> not_ok_point
            | Some r \<Rightarrow>
                if rc_Latitude r = 0 \<and> rc_Longitude r = 0 then not_ok_point
                else \<lparr>gp_Lat = rc_Latitude r, gp_Lon = rc_Longitude r, gp_City = rc_City r,
                      gp_Country = rc_IsoCode r, gp_OK = True\<rparr>))"

definition geoip_Lookup :: "(ip \<Rightarrow> geo_record option) \<Rightarrow> ip \<Rightarrow> string \<times> string" where
  "geoip_Lookup city a =
     (if a = [] \<or> IsUnspecified a \<or> IsLoopback a \<or> IsPrivate a \<or> IsLinkLocalUnicast a then ([], [])
      else (case city a of None \<Rightarrow> ([], []) | Some r \<Rightarrow> (rc_IsoCode r, rc_City r)))"

definition geoip_service :: "(ip \<Rightarrow> geo_record option) \<Rightarrow> geo_resolver" where
  "geoip_service city = \<lparr>Lookup = geoip_Lookup city, LookupGeo = geoip_LookupGeo city\<rparr>"

subsection \<open>The handler\<close>

datatype geo_resp = GeoManifest manifest_error | GeoShow string | GeoJson "geo_peer list" int

definition handleGetGeo :: "'w api_env \<Rightarrow> manifest_error + manifest_client list \<Rightarrow> time \<Rightarrow> 'w \<Rightarrow> (int \<times> geo_resp) \<times> 'w" where
  "handleGetGeo env manifest now w =
     (case manifest of
        Inl e \<Rightarrow> ((500, GeoManifest e), w)
      | Inr cs \<Rightarrow>
          (case Show (ae_run env) (ae_iface env) w of
             (Inl e, w') \<Rightarrow> ((500, GeoShow e), w')
           | (Inr peers, w') \<Rightarrow>
               (case geo_loop now (ae_geo env) (index_by wp_PublicKey peers) (map (\<lambda>c. (mc_Name c, mc_PublicKey c)) cs) of
                  (rows, n) \<Rightarrow> ((200, GeoJson rows n), w'))))"

subsection \<open>The predicates as blocks of addresses\<close>

definition in_block :: "ip \<Rightarrow> byte list \<times> nat \<Rightarrow> bool" where
  "in_block a p = net_contains \<lparr>net_ip = fst p, net_mask = cidr_mask (snd p) (8 * length (fst p))\<rparr> a"

text \<open>
  0.0.0.0, 127.0.0.0/8, the three private blocks of RFC 1918, 169.254.0.0/16; the unspecified and the
  loopback address of IPv6, fc00::/7 and fe80::/10.
\<close>

definition reserved_v4 :: "(byte list \<times> nat) list" where
  "reserved_v4 = [([0, 0, 0, 0], 32), ([127, 0, 0, 0], 8), ([10, 0, 0, 0], 8), ([172, 16, 0, 0], 12),
     ([192, 168, 0, 0], 16), ([169, 254, 0, 0], 16)]"

definition reserved_v6 :: "(byte list \<times> nat) list" where
  "reserved_v6 = [(replicate 16 0, 128), (replicate 15 0 @ [1], 128), (0xFC # replicate 15 0, 7), ([0xFE, 0x80] @ replicate 14 0, 10)]"

definition reserved :: "ip \<Rightarrow> bool" where
  "reserved a \<longleftrightarrow> list_ex (in_block a) (reserved_v4 @ reserved_v6)"

lemma masks4:
  "cidr_mask 32 32 = [255, 255, 255, 255]" "cidr_mask 8 32 = [255, 0, 0, 0]" "cidr_mask 12 32 = [255, 240, 0, 0]"
  "cidr_mask 16 32 = [255, 255, 0, 0]"
  by (simp_all add: cidr_mask_def upt_rec)

lemma sixteen: "[0 ..< 16] = [0, 1, 2, 3, 4, 5, 6, 7, 8, 9, 10, 11, 12, 13, 14, 15 :: nat]"
  by (simp add: upt_rec)

lemma replicates:
  "replicate 16 x = [x, x, x, x, x, x, x, x, x, x, x, x, x, x, x, x]"
  "replicate 15 x = [x, x, x, x, x, x, x, x, x, x, x, x, x, x, x]"
  "replicate 14 x = [x, x, x, x, x, x, x, x, x, x, x, x, x, x]"
  by (simp_all add: eval_nat_numeral)

lemma masks16:
  "cidr_mask 128 128 = replicate 16 255" "cidr_mask 7 128 = 0xFE # replicate 15 0"
  "cidr_mask 10 128 = [0xFF, 0xC0] @ replicate 14 0"
  unfolding replicates by (simp_all add: cidr_mask_def sixteen)

lemma and_full [simp]: "x AND (255 :: byte) = x"
proof -
  have "(255 :: byte) = mask 8" by (simp add: mask_eq_exp_minus_1)
  show ?thesis unfolding \<open>255 = mask 8\<close> by (rule bit_word_eqI) (simp only: bit_simps, simp)
qed

lemma in_block_v4:
  assumes "length b = 4" and "cidr_mask n 32 = m" and "length m = 4"
  shows "in_block a (b, n) \<longleftrightarrow> to4 a \<noteq> [] \<and> map2 (AND) b m = map2 (AND) (to4 a) m"
proof -
  have e: "in_block a (b, n) = net_contains \<lparr>net_ip = b, net_mask = m\<rparr> a" using assms by (simp add: in_block_def)
  have nm: "network_and_mask \<lparr>net_ip = b, net_mask = m\<rparr> = Some (b, m)"
    using assms by (auto simp: network_and_mask_def Let_def)
  show ?thesis
  proof (cases "to4 a = []")
    case True
    then have "length a \<noteq> 4" by (auto simp: to4_def split: if_splits)
    with True assms(1) show ?thesis by (simp add: e net_contains_def nm)
  next
    case False
    then show ?thesis
      using assms length_to4 [OF False] by (simp add: e net_contains_def nm list_all2_map2 [of _ 4])
  qed
qed

lemma in_block_v6:
  assumes "length b = 16" and "to4 b = []" and "cidr_mask n 128 = m" and "length m = 16"
  shows "in_block a (b, n) \<longleftrightarrow> to4 a = [] \<and> length a = 16 \<and> map2 (AND) b m = map2 (AND) a m"
proof -
  have e: "in_block a (b, n) = net_contains \<lparr>net_ip = b, net_mask = m\<rparr> a" using assms by (simp add: in_block_def)
  have nm: "network_and_mask \<lparr>net_ip = b, net_mask = m\<rparr> = Some (b, m)"
    using assms by (auto simp: network_and_mask_def Let_def)
  show ?thesis
  proof (cases "to4 a = []")
    case True
    with assms show ?thesis by (auto simp: e net_contains_def nm list_all2_map2 [of _ 16])
  next
    case False
    then show ?thesis using assms length_to4 [OF False] by (simp add: e net_contains_def nm)
  qed
qed

lemma not_mapped: "b ! 10 \<noteq> 255 \<Longrightarrow> length b = 16 \<Longrightarrow> to4 b = []"
proof -
  assume b: "b ! 10 \<noteq> 255" "length b = 16"
  have "v4_prefix ! 10 = 255" by (simp add: v4_prefix_def nth_append)
  moreover have "take 12 b ! 10 = b ! 10" by simp
  ultimately have "take 12 b \<noteq> v4_prefix" using b(1) by metis
  with b(2) show ?thesis by (simp add: to4_def)
qed

lemma zero_bytes: "to4 (replicate 16 0) = []" "to4 (replicate 15 0 @ [1]) = []" "to4 (0xFC # replicate 15 0) = []"
  "to4 ([0xFE, 0x80] @ replicate 14 0) = []"
  unfolding replicates by (rule not_mapped, simp, simp)+

lemma in_v6: "list_ex (in_block a) reserved_v6 \<longleftrightarrow> to4 a = [] \<and> length a = 16 \<and>
    (a = replicate 16 0 \<or> a = replicate 15 0 @ [1] \<or> a ! 0 AND 0xFE = 0xFC \<or> (a ! 0 = 0xFE \<and> a ! 1 AND 0xC0 = 0x80))"
proof (cases "length a = 16")
  case True
  have full: "map2 (AND) b (replicate 16 255) = b" if "length b = 16" for b :: "byte list"
    using that by (auto intro!: nth_equalityI)
  have "\<exists>x y r. a = x # y # r \<and> length r = 14" using True by (auto simp: eval_nat_numeral length_Suc_conv)
  then obtain x y r where a: "a = x # y # r" "length r = 14" by blast
  have z: "map2 (AND) r (replicate 14 0) = replicate 14 (0 :: byte)"
    using a(2) by (auto intro!: nth_equalityI)
  have b: "in_block a (replicate 16 0, 128) \<longleftrightarrow> to4 a = [] \<and> a = replicate 16 0"
    using in_block_v6 [OF _ zero_bytes(1) masks16(1)] True full [of "replicate 16 0"] full [OF True] by auto
  have c: "in_block a (replicate 15 0 @ [1], 128) \<longleftrightarrow> to4 a = [] \<and> a = replicate 15 0 @ [1]"
    using in_block_v6 [OF _ zero_bytes(2) masks16(1)] True full [of "replicate 15 0 @ [1]"] full [OF True] by auto
  have d: "in_block a (0xFC # replicate 15 0, 7) \<longleftrightarrow> to4 a = [] \<and> x AND 0xFE = 0xFC"
    using in_block_v6 [OF _ zero_bytes(3) masks16(2)] True z
    by (simp add: a replicate_Suc [of 14, simplified])
  have e: "in_block a ([0xFE, 0x80] @ replicate 14 0, 10) \<longleftrightarrow> to4 a = [] \<and> x = 0xFE \<and> y AND 0xC0 = 0x80"
    using in_block_v6 [OF _ zero_bytes(4) masks16(3)] True z by (auto simp: a)
  have "list_ex (in_block a) reserved_v6 \<longleftrightarrow> in_block a (replicate 16 0, 128) \<or> in_block a (replicate 15 0 @ [1], 128) \<or>
      in_block a (0xFC # replicate 15 0, 7) \<or> in_block a ([0xFE, 0x80] @ replicate 14 0, 10)"
    by (simp only: reserved_v6_def list_ex_iff list.set insert_iff empty_iff bex_simps simp_thms)
  also have "\<dots> \<longleftrightarrow> to4 a = [] \<and> (a = replicate 16 0 \<or> a = replicate 15 0 @ [1] \<or> x AND 0xFE = 0xFC \<or> x = 0xFE \<and> y AND 0xC0 = 0x80)"
    unfolding b c d e by blast
  finally show ?thesis using True by (simp only: a(1) nth_Cons_0 nth_Cons_Suc One_nat_def simp_thms)
next
  case False
  then show ?thesis
    by (simp add: reserved_v6_def in_block_v6 [OF _ zero_bytes(1) masks16(1)] in_block_v6 [OF _ zero_bytes(2) masks16(1)]
        in_block_v6 [OF _ zero_bytes(3) masks16(2)] in_block_v6 [OF _ zero_bytes(4) [simplified] masks16(3) [simplified]])
qed

lemma in_v4: "list_ex (in_block a) reserved_v4 \<longleftrightarrow> to4 a \<noteq> [] \<and>
    (to4 a = [0, 0, 0, 0] \<or> to4 a ! 0 = 127 \<or> to4 a ! 0 = 10 \<or> (to4 a ! 0 = 172 \<and> to4 a ! 1 AND 0xF0 = 16) \<or>
     (to4 a ! 0 = 192 \<and> to4 a ! 1 = 168) \<or> (to4 a ! 0 = 169 \<and> to4 a ! 1 = 254))"
proof (cases "to4 a = []")
  case True
  then show ?thesis by (simp add: reserved_v4_def in_block_v4 masks4)
next
  case False
  then obtain w x y z where "to4 a = [w, x, y, z]" using length_to4 [OF False] by (auto simp: length_4_iff)
  then show ?thesis by (auto simp: reserved_v4_def in_block_v4 masks4)
qed

lemma reserved_iff: "reserved a \<longleftrightarrow> IsUnspecified a \<or> IsLoopback a \<or> IsPrivate a \<or> IsLinkLocalUnicast a"
proof -
  have l: "length (replicate 16 (0 :: byte)) = 16" "length (replicate 15 0 @ [1 :: byte]) = 16" by simp_all
  have "reserved a \<longleftrightarrow> list_ex (in_block a) reserved_v4 \<or> list_ex (in_block a) reserved_v6"
    by (simp add: reserved_def list_ex_append)
  then show ?thesis unfolding in_v4 in_v6 using zero_bytes(1,2) l
    by (auto simp: IsUnspecified_def IsLoopback_def IsPrivate_def IsLinkLocalUnicast_def)
qed

subsection \<open>The map\<close>

text \<open>What places a client on the map: a live peer of its key, with an endpoint the database knows by its coordinates.\<close>

definition located :: "(ip \<Rightarrow> geo_record option) \<Rightarrow> wg_peer list \<Rightarrow> manifest_client \<Rightarrow> (wg_peer \<times> geo_record) option" where
  "located city peers c =
     Option.bind (find (\<lambda>p. wp_PublicKey p = mc_PublicKey c) peers) (\<lambda>p.
     Option.bind (endpoint_ip (wp_Endpoint p)) (\<lambda>a.
       if reserved a then None
       else Option.bind (city a) (\<lambda>r. if rc_Latitude r = 0 \<and> rc_Longitude r = 0 then None else Some (p, r))))"

definition point_of :: "time \<Rightarrow> manifest_client \<Rightarrow> wg_peer \<times> geo_record \<Rightarrow> geo_peer" where
  "point_of now c = (\<lambda>(p, r).
     \<lparr>gr_Name = mc_Name c,
      gr_Point = \<lparr>gp_Lat = rc_Latitude r, gp_Lon = rc_Longitude r, gp_City = rc_City r, gp_Country = rc_IsoCode r, gp_OK = True\<rparr>,
      gr_Online = is_live now p, gr_LastSeen = humanAgo now (wp_LatestHandshake p)\<rparr>)"

lemma endpoint_ip_not_nil: "endpoint_ip e = Some a \<Longrightarrow> a \<noteq> []"
  by (auto simp: endpoint_ip_def Let_def split: if_splits option.splits)

lemma LookupGeo_located:
  "a \<noteq> [] \<Longrightarrow> geoip_LookupGeo city a =
    (if reserved a then not_ok_point
     else (case city a of None \<Rightarrow> not_ok_point
           | Some r \<Rightarrow> if rc_Latitude r = 0 \<and> rc_Longitude r = 0 then not_ok_point
                       else \<lparr>gp_Lat = rc_Latitude r, gp_Lon = rc_Longitude r, gp_City = rc_City r,
                             gp_Country = rc_IsoCode r, gp_OK = True\<rparr>))"
  by (auto simp: geoip_LookupGeo_def reserved_iff)

lemma geo_loop_located:
  assumes "distinct (map wp_PublicKey peers)"
  shows "geo_loop now (Some (geoip_service city)) (index_by wp_PublicKey peers) (map (\<lambda>c. (mc_Name c, mc_PublicKey c)) cs) =
    (concat (map (\<lambda>c. case located city peers c of None \<Rightarrow> [] | Some pr \<Rightarrow> [point_of now c pr]) cs),
     int (length (filter (\<lambda>c. located city peers c = None) cs)))"
proof (induction cs)
  case (Cons c cs)
  then show ?case
    using index_by_find [OF assms, of "mc_PublicKey c"]
    by (auto simp: located_def point_of_def resolveGeoPoint_def geoip_service_def not_ok_point_def Let_def
        LookupGeo_located endpoint_ip_not_nil split: option.split if_splits)
qed simp

section \<open>Properties\<close>

text \<open>
  C37. The map shows every client of the boot manifest that has a live peer whose endpoint the city
  database knows by coordinates, in order, and counts the others as not mappable; it never asks the
  database about an address of the reserved blocks, whatever the database would say, so a peer
  behind a private endpoint is counted and not shown.
\<close>

theorem geo_map_exact:
  assumes "ae_geo env = Some (geoip_service city)" and "Show (ae_run env) (ae_iface env) w = (Inr peers, w')"
    and "distinct (map wp_PublicKey peers)"
  shows "\<exists>rows n. handleGetGeo env (Inr cs) now w = ((200, GeoJson rows n), w') \<and>
    rows = concat (map (\<lambda>c. case located city peers c of None \<Rightarrow> [] | Some pr \<Rightarrow> [point_of now c pr]) cs) \<and>
    int (length rows) + n = int (length cs) \<and>
    (\<forall>p a. p \<in> set peers \<and> endpoint_ip (wp_Endpoint p) = Some a \<and> reserved a \<longrightarrow>
       (\<forall>c \<in> set cs. mc_PublicKey c = wp_PublicKey p \<longrightarrow> located city peers c = None))"
proof -
  let ?rows = "concat (map (\<lambda>c. case located city peers c of None \<Rightarrow> [] | Some pr \<Rightarrow> [point_of now c pr]) cs)"
  have "length ?rows + length (filter (\<lambda>c. located city peers c = None) cs) = length cs"
    by (induction cs) (auto split: option.split)
  moreover have "located city peers c = None"
    if "p \<in> set peers" "endpoint_ip (wp_Endpoint p) = Some a" "reserved a" "mc_PublicKey c = wp_PublicKey p" for p a c
    using that find_distinct [OF assms(3) that(1)] by (simp add: located_def)
  ultimately show ?thesis
    using assms(1,2) by (auto simp: handleGetGeo_def geo_loop_located [OF assms(3)])
qed

lemma digits_graph_char: "list_all graph_char (itoa_nat n)"
  using graph_text_itoa [of "int n"] by (simp add: graph_text_def itoa_def)

text \<open>A client on the road, one behind a home router that shows its private address, and one never seen.\<close>

definition geo_client :: "string \<Rightarrow> manifest_client" where
  "geo_client n = \<lparr>mc_Name = n, mc_Address = [], mc_PublicKey = n\<rparr>"

definition geo_live :: "string \<Rightarrow> byte list \<Rightarrow> wg_peer" where
  "geo_live n b = \<lparr>wp_PublicKey = n, wp_Endpoint = dotted b @ '':51820'', wp_AllowedIPs = [], wp_LatestHandshake = zero_time,
     wp_TransferRx = 0, wp_TransferTx = 0, wp_PersistentKeepalive = 0\<rparr>"

definition geo_peers :: "wg_peer list" where
  "geo_peers = [geo_live ''ann'' [93, 184, 216, 34], geo_live ''bob'' [192, 168, 1, 7]]"

definition geo_box :: "unit api_env" where
  "geo_box = \<lparr>ae_run = (\<lambda>argv w. (Inr (print_dump ''server'' ''psk'' geo_peers), w)), ae_iface = ''wg0'',
     ae_geo = Some (geoip_service (\<lambda>a. Some \<lparr>rc_IsoCode = ''US'', rc_City = ''Norwell'', rc_Latitude = 42, rc_Longitude = -70\<rparr>))\<rparr>"

lemma split_host_dotted:
  assumes "length b = 4"
  shows "split_host (dotted b @ '':51820'') = Some (dotted b)"
proof -
  let ?d = "dotted b"
  obtain w x y z where b: "b = [w, x, y, z]" using assms by (auto simp: length_4_iff)
  have no: "c \<notin> set ?d" if "\<not> is_digit c" "c \<noteq> CHR ''.''" for c
    using that itoa_nat_digits by (auto simp: b list_all_iff)
  have "CHR '':'' \<notin> set ?d" "CHR ''['' \<notin> set ?d" "CHR '']'' \<notin> set ?d" by (rule no; simp add: is_digit_def)+
  moreover have "takeWhile (\<lambda>x. x \<noteq> CHR '':'') (rev (?d @ '':51820'')) = ''02815''" by simp
  ultimately show ?thesis
    by (cases ?d) (auto simp: split_host_def last_index_of_def Let_def)
qed

lemma endpoint_dotted: "length b = 4 \<Longrightarrow> endpoint_ip (dotted b @ '':51820'') = Some (v4_prefix @ b)"
  by (auto simp: endpoint_ip_def split_host_dotted)

lemma geo_peers_printable: "\<forall>p \<in> set geo_peers. printable_peer p"
proof -
  have "graph_word ''ann''" "graph_word ''bob''" by code_simp+
  moreover have "graph_word (dotted b @ '':51820'')" if l: "length b = 4" for b :: "byte list"
  proof -
    obtain w x y z where b: "b = [w, x, y, z]" using l by (auto simp: length_4_iff)
    have "list_all graph_char '':51820''" "graph_char CHR ''.''" by code_simp+
    moreover have "list_all graph_char (itoa_nat n)" for n by (rule digits_graph_char)
    ultimately show ?thesis by (auto simp: graph_word_def b)
  qed
  ultimately show ?thesis
    by (simp add: geo_peers_def geo_live_def printable_peer_def is_zero_def in_i64_def del: dotted.simps)
qed

lemma geo_box_shows: "Show (ae_run geo_box) (ae_iface geo_box) () = (Inr geo_peers, ())"
proof -
  have "graph_word ''psk''" by code_simp
  moreover have "trim_space ''server'' = ''server''" by (rule trim_space_graph, code_simp)
  moreover have "nl \<notin> set ''server''" by (simp add: nl_def)
  ultimately show ?thesis
    using geo_peers_printable by (intro Show_dump [where server = "''server''" and psk = "''psk''"]) (simp_all add: geo_box_def)
qed

theorem geo_map_exact_witness:
  "\<exists>row. handleGetGeo geo_box (Inr [geo_client ''ann'', geo_client ''bob'', geo_client ''carol'']) (unix_time 5) () =
    ((200, GeoJson [row] 2), ()) \<and> gr_Name row = ''ann'' \<and> gp_Country (gr_Point row) = ''US''"
proof -
  let ?city = "\<lambda>a :: ip. Some \<lparr>rc_IsoCode = ''US'', rc_City = ''Norwell'', rc_Latitude = 42, rc_Longitude = -70\<rparr>"
  let ?cs = "[geo_client ''ann'', geo_client ''bob'', geo_client ''carol'']"
  have g: "ae_geo geo_box = Some (geoip_service ?city)" "distinct (map wp_PublicKey geo_peers)"
    by (simp_all add: geo_box_def geo_peers_def geo_live_def)
  have r: "\<not> reserved (v4_prefix @ [93, 184, 216, 34])" "reserved (v4_prefix @ [192, 168, 1, 7])"
    by (simp_all add: reserved_def in_v4 in_v6)
  have l: "located ?city geo_peers (geo_client ''ann'') = Some (geo_live ''ann'' [93, 184, 216, 34], the (?city []))"
    "located ?city geo_peers (geo_client ''bob'') = None" "located ?city geo_peers (geo_client ''carol'') = None"
    using r endpoint_dotted [of "[93, 184, 216, 34]"] endpoint_dotted [of "[192, 168, 1, 7]"]
    by (simp_all add: located_def geo_peers_def geo_client_def geo_live_def)
  from geo_map_exact [OF g(1) geo_box_shows g(2), of ?cs "unix_time 5"] show ?thesis
    by (auto simp: l point_of_def) (simp add: geo_client_def)
qed

end
