(* ===== verification/Pages.thy ===== *)
theory Pages
  imports Geo ConfigApi WebhookApi Procs MetricsApi HostPoll Boot
begin

text \<open>
  The pages and the remaining read endpoints (\<^verbatim>\<open>server/server.go\<close>, \<^verbatim>\<open>handlers_partial_tabs.go\<close>,
  \<^verbatim>\<open>handlers_snapshot.go\<close>, \<^verbatim>\<open>handlers_service.go\<close>, \<^verbatim>\<open>handlers_server.go\<close>, \<^verbatim>\<open>handlers_alerts.go\<close>).
  A handler takes the application and gives what it hands to the template or to the JSON encoder, and
  the application after it. A card is its data, or the error that stands in its place. Reads that
  the code runs in parallel are made one after the other, and one reading of the clock serves a
  request; the templates and the encoder are left out.
\<close>

subsection \<open>The application\<close>

record 'w app =
  app_Service :: "'w service"
  app_Info :: serverinfo
  app_Proc :: proc_service
  app_Processes :: processes_service
  app_Status :: "status_holder option"
  app_Webhook :: "webhook_config option"
  app_Mode :: string

text \<open>What the handlers read besides: commands, files, the kernel and the user database.\<close>

record 'w page_env =
  pe_api :: "'w api_env"
  pe_info :: "'w si_env"
  pe_unit :: "string list \<Rightarrow> 'w \<Rightarrow> unit_run \<times> 'w"
  pe_timeParse :: "string \<Rightarrow> string \<Rightarrow> string + time"
  pe_files :: file_reader
  pe_statfs :: "string \<Rightarrow> string + statfs"
  pe_readDir :: "string \<Rightarrow> string + string list"
  pe_users :: "user_lookup option"
  pe_sort :: "process list \<Rightarrow> process list"
  pe_cpus :: nat
  pe_uname :: "(string + kernel_info) option"
  pe_osRelease :: "file_reader option"

type_synonym ('w, 'a) page = "'w app \<Rightarrow> 'a \<times> 'w app"

definition on_service :: "('w service \<Rightarrow> 'a \<times> 'w service) \<Rightarrow> ('w, 'a) page" where
  "on_service f a = (case f (app_Service a) of (r, s) \<Rightarrow> (r, a\<lparr>app_Service := s\<rparr>))"

definition on_info :: "('w, 'a) si \<Rightarrow> ('w, si_error + 'a) page" where
  "on_info f a =
     (case f (app_Info a, world (app_Service a)) of
        (r, si, w) \<Rightarrow> (r, a\<lparr>app_Info := si, app_Service := (app_Service a)\<lparr>world := w\<rparr>\<rparr>))"

definition on_world :: "('w \<Rightarrow> 'a \<times> 'w) \<Rightarrow> ('w, 'a) page" where
  "on_world f a =
     (case f (world (app_Service a)) of (r, w) \<Rightarrow> (r, a\<lparr>app_Service := (app_Service a)\<lparr>world := w\<rparr>\<rparr>))"

definition on_db :: "'a dbm \<Rightarrow> ('w, db_error + 'a) page" where
  "on_db m a =
     (case m (svc_db (app_Service a)) of
        (r, d) \<Rightarrow> (r, a\<lparr>app_Service := (app_Service a)\<lparr>svc_db := d\<rparr>\<rparr>))"

definition read_unit :: "'w page_env \<Rightarrow> ('w, string + service_status) page" where
  "read_unit env = on_world (systemd_Get (pe_unit env) (pe_timeParse env) DefaultUnit)"

definition read_stats :: "'w page_env \<Rightarrow> time \<Rightarrow> ('w, host_error + stats) page" where
  "read_stats env now a =
     (case proc_Sample (pe_files env) now (app_Proc a) of (r, s) \<Rightarrow> (r, a\<lparr>app_Proc := s\<rparr>))"

definition read_processes :: "'w page_env \<Rightarrow> time \<Rightarrow> ('w, processes_error + process list) page" where
  "read_processes env now a =
     (case processes_Sample (pe_files env) (pe_readDir env) (pe_users env) (pe_sort env) (pe_cpus env) now (app_Processes a) of
        (r, s) \<Rightarrow> (r, a\<lparr>app_Processes := s\<rparr>))"

text \<open>The peers are counted only when the row of the interface was read.\<close>

definition read_netdev :: "'w page_env \<Rightarrow> ('w, netdev_error + netdev_stats) page" where
  "read_netdev env a =
     (case netdev_Sample (pe_files env) None DefaultNetDevPath DefaultIface of
        Inl e \<Rightarrow> (Inl e, a)
      | Inr st \<Rightarrow>
          (case on_service (wg_show (pe_api env)) a of
             (r, a') \<Rightarrow> (netdev_Sample (pe_files env) (Some (map_sum id (int \<circ> length) r)) DefaultNetDevPath DefaultIface, a')))"

subsection \<open>Overview\<close>

definition alertSnapshot :: "'w app \<Rightarrow> alert_status" where
  "alertSnapshot a =
     (let st = (case app_Status a of
                  None \<Rightarrow> \<lparr>st_Enabled = False, st_Active = [], st_Recent = []\<rparr>
                | Some h \<Rightarrow> Snapshot h)
      in case app_Webhook a of None \<Rightarrow> st | Some c \<Rightarrow> st\<lparr>st_Enabled := webhook_Enabled c\<rparr>)"

record client_count =
  cc_Online :: nat
  cc_Total :: nat

type_synonym join_error = "svc_error option \<times> string option"

record page_data =
  pd_Server :: "si_error + server_info"
  pd_Service :: "string + service_status"
  pd_ClientRows :: "row_view list"
  pd_ClientsError :: "join_error option"
  pd_ClientCount :: client_count
  pd_Stats :: "host_error + stats"
  pd_Alerts :: alert_status

definition joined :: "svc_error + 'a \<Rightarrow> string + 'b \<Rightarrow> join_error option" where
  "joined r1 r2 = (if err_of r1 = None \<and> err_of r2 = None then None else Some (err_of r1, err_of r2))"

definition rows_of :: "'w page_env \<Rightarrow> time \<Rightarrow> svc_error + client list \<Rightarrow> string + wg_peer list \<Rightarrow> row_view list" where
  "rows_of env now r1 r2 =
     (case (r1, r2) of (Inr cs, Inr ps) \<Rightarrow> buildClientRows cs ps now (ae_geo (pe_api env)) | _ \<Rightarrow> [])"

definition buildPageData :: "'w page_env \<Rightarrow> time \<Rightarrow> ('w, page_data) page" where
  "buildPageData env now a =
     (let (info, a1) = on_info (serverinfo_Get (pe_info env)) a;
          (status, a2) = read_unit env a1;
          (dbClients, a3) = on_service svc_List a2;
          (peers, a4) = on_service (wg_show (pe_api env)) a3;
          rows = rows_of env now dbClients peers;
          (stats, a5) = read_stats env now a4
      in (\<lparr>pd_Server = info, pd_Service = status, pd_ClientRows = rows, pd_ClientsError = joined dbClients peers,
           pd_ClientCount = \<lparr>cc_Online = length (filter (\<lambda>r. rv_Status r = ''online'') rows), cc_Total = length rows\<rparr>,
           pd_Stats = stats, pd_Alerts = alertSnapshot a5\<rparr>, a5))"

definition handleIndex :: "'w page_env \<Rightarrow> time \<Rightarrow> string \<Rightarrow> ('w, page_data option) page" where
  "handleIndex env now path a =
     (if path \<noteq> ''/'' then (None, a) else (case buildPageData env now a of (data, a') \<Rightarrow> (Some data, a')))"

definition handleGetPartialOverview :: "'w page_env \<Rightarrow> time \<Rightarrow> ('w, page_data) page" where
  "handleGetPartialOverview env now = buildPageData env now"

subsection \<open>Health, server, service, alerts and the snapshot\<close>

definition handleHealth :: "'w app \<Rightarrow> string" where
  "handleHealth a =
     (if app_Mode a \<noteq> ''cloud'' then [CHR 0x7B, dquote] @ ''ok'' @ [dquote] @ '':true'' @ [CHR 0x7D]
      else [CHR 0x7B, dquote] @ ''ok'' @ [dquote] @ '':true,'' @ [dquote] @ ''client_store_ready'' @ [dquote, CHR '':''] @
        (if StoreReady (app_Service a) then ''true'' else ''false'') @ [CHR 0x7D])"

definition handleGetServer :: "'w page_env \<Rightarrow> ('w, int \<times> (si_error + server_info)) page" where
  "handleGetServer env a =
     (case on_info (serverinfo_Get (pe_info env)) a of
        (Inl e, a') \<Rightarrow> ((500, Inl e), a')
      | (Inr info, a') \<Rightarrow> ((200, Inr info), a'))"

definition handleGetService :: "'w page_env \<Rightarrow> time \<Rightarrow> ('w, int \<times> (string + service_status \<times> handshake_event list)) page" where
  "handleGetService env now a =
     (case read_unit env a of
        (Inl e, a') \<Rightarrow> ((500, Inl e), a')
      | (Inr status, a1) \<Rightarrow>
          (case on_db (QueryHandshakeEvents (now - hour) now 10) a1 of
             (r, a2) \<Rightarrow> ((200, Inr (status, case r of Inl e \<Rightarrow> [] | Inr events \<Rightarrow> events)), a2)))"

definition handleGetAlerts :: "'w app \<Rightarrow> alert_status" where
  "handleGetAlerts a = alertSnapshot a"

record snapshot_response =
  sr_Server :: "si_error + server_info"
  sr_Service :: "string + service_status"
  sr_Clients :: "row_view list"
  sr_ClientsError :: "join_error option"
  sr_Stats :: "host_error + stats"

definition handleGetSnapshot :: "'w page_env \<Rightarrow> time \<Rightarrow> ('w, snapshot_response) page" where
  "handleGetSnapshot env now a =
     (let (serverInfo, a1) = on_info (serverinfo_Get (pe_info env)) a;
          (serviceStatus, a2) = read_unit env a1;
          (stats, a3) = read_stats env now a2;
          (cs, a4) = on_service svc_List a3;
          (ps, a5) = on_service (wg_show (pe_api env)) a4;
          clientList = (if joined cs ps \<noteq> None then None else Some (rows_of env now cs ps))
      in (\<lparr>sr_Server = serverInfo, sr_Service = serviceStatus,
           sr_Clients = (case clientList of None \<Rightarrow> [] | Some rows \<Rightarrow> rows),
           sr_ClientsError = joined cs ps, sr_Stats = stats\<rparr>, a5))"

subsection \<open>System and network\<close>

definition rangeEnumOptions :: "string list" where
  "rangeEnumOptions = [''1h'', ''6h'', ''24h'', ''7d'']"

definition parseRangeParam :: "string \<Rightarrow> string + string" where
  "parseRangeParam r =
     (if rangeEnumMap (range_or_default r) = None then Inl (range_or_default r) else Inr (range_or_default r))"

record range_selector =
  rs_Tab :: string
  rs_Endpoint :: string
  rs_Current :: string
  rs_Options :: "string list"

record system_tab =
  sy_Range :: string
  sy_Selector :: range_selector
  sy_Disk :: "host_error + mount list"
  sy_Processes :: "processes_error + process list"

definition selector_of :: "string \<Rightarrow> string \<Rightarrow> range_selector" where
  "selector_of which r =
     \<lparr>rs_Tab = which, rs_Endpoint = ''/partial/'' @ which, rs_Current = r, rs_Options = rangeEnumOptions\<rparr>"

definition handleGetPartialSystem :: "'w page_env \<Rightarrow> time \<Rightarrow> string \<Rightarrow> ('w, string + system_tab) page" where
  "handleGetPartialSystem env now q a =
     (case parseRangeParam q of
        Inl bad \<Rightarrow> (Inl bad, a)
      | Inr r \<Rightarrow>
          (case read_processes env now a of
             (procs, a') \<Rightarrow>
               (Inr \<lparr>sy_Range = r, sy_Selector = selector_of ''system'' r,
                     sy_Disk = disk_Sample (pe_files env) (pe_statfs env) DefaultMountsPath,
                     sy_Processes = procs\<rparr>, a')))"

record aggregate_card =
  ag_Range :: string
  ag_RxBytesDelta :: int
  ag_TxBytesDelta :: int
  ag_Error :: "db_error option"

record network_tab =
  nt_Range :: string
  nt_Selector :: range_selector
  nt_Stats :: "host_error + stats"
  nt_WgIface :: "netdev_error + netdev_stats"
  nt_Aggregate :: aggregate_card

definition clamp_delta :: "int \<Rightarrow> int \<Rightarrow> int" where
  "clamp_delta newest oldest = (let d = i64 (newest - oldest) in if d < 0 then 0 else d)"

definition aggregate_of :: "string \<Rightarrow> db_error + traffic_metric list \<Rightarrow> aggregate_card" where
  "aggregate_of r rows =
     (case rows of
        Inl e \<Rightarrow> \<lparr>ag_Range = r, ag_RxBytesDelta = 0, ag_TxBytesDelta = 0, ag_Error = Some e\<rparr>
      | Inr ms \<Rightarrow>
          if length ms \<ge> 2
          then \<lparr>ag_Range = r, ag_RxBytesDelta = clamp_delta (tm_RxBytesCum (last ms)) (tm_RxBytesCum (hd ms)),
                ag_TxBytesDelta = clamp_delta (tm_TxBytesCum (last ms)) (tm_TxBytesCum (hd ms)), ag_Error = None\<rparr>
          else \<lparr>ag_Range = r, ag_RxBytesDelta = 0, ag_TxBytesDelta = 0, ag_Error = None\<rparr>)"

definition handleGetPartialNetwork :: "'w page_env \<Rightarrow> time \<Rightarrow> string \<Rightarrow> ('w, string + network_tab) page" where
  "handleGetPartialNetwork env now q a =
     (case parseRangeParam q of
        Inl bad \<Rightarrow> (Inl bad, a)
      | Inr r \<Rightarrow>
          (let (stats, a1) = read_stats env now a;
               (iface, a2) = read_netdev env a1;
               (rows, a3) = on_db (QueryTrafficMetrics (now - the (rangeEnumMap r)) now) a2
           in (Inr \<lparr>nt_Range = r, nt_Selector = selector_of ''network'' r, nt_Stats = stats, nt_WgIface = iface,
                    nt_Aggregate = aggregate_of r rows\<rparr>, a3)))"

subsection \<open>Events\<close>

definition eventsWindow :: duration where "eventsWindow = 30 * 24 * hour"
definition eventsLimit :: int where "eventsLimit = 50"

record handshake_row =
  hr_TS :: time
  hr_Name :: string
  hr_Unknown :: bool

record events_tab =
  et_Handshakes :: "handshake_row list"
  et_Alerts :: "log_entry list"

text \<open>The key is cut by bytes, and the ellipsis is three of them.\<close>

definition shortenKey :: "string \<Rightarrow> string" where
  "shortenKey key = (if length key \<le> 10 then key else take 10 key @ [CHR 0xE2, CHR 0x80, CHR 0xA6])"

definition handshake_row_of :: "(string \<rightharpoonup> string) \<Rightarrow> handshake_event \<Rightarrow> handshake_row" where
  "handshake_row_of byKey e =
     (case byKey (he_PublicKey e) of
        Some name \<Rightarrow> \<lparr>hr_TS = he_TS e, hr_Name = name, hr_Unknown = False\<rparr>
      | None \<Rightarrow> \<lparr>hr_TS = he_TS e, hr_Name = shortenKey (he_PublicKey e), hr_Unknown = True\<rparr>)"

definition resolveHandshakeRows :: "handshake_event list \<Rightarrow> ('w, handshake_row list) page" where
  "resolveHandshakeRows events a =
     (case on_service svc_List a of
        (r, a') \<Rightarrow>
          (let byKey = (case r of Inl e \<Rightarrow> Map.empty | Inr cs \<Rightarrow> map_option Name \<circ> index_by PublicKey cs)
           in (map (handshake_row_of byKey) events, a')))"

definition handleGetPartialEvents :: "time \<Rightarrow> ('w, events_tab) page" where
  "handleGetPartialEvents now a =
     (let (r, a1) = on_db (QueryLatestHandshakePerPeer (now - eventsWindow) now eventsLimit) a;
          (rows, a2) = resolveHandshakeRows (case r of Inl e \<Rightarrow> [] | Inr events \<Rightarrow> events) a1
      in (\<lparr>et_Handshakes = rows, et_Alerts = st_Recent (alertSnapshot a2)\<rparr>, a2))"

subsection \<open>About\<close>

datatype ec2_card = EC2Data string string string string | EC2NotOn | EC2Error si_error

record os_card =
  oc_Kernel :: "string + kernel_info"
  oc_OSRelease :: os_release
  oc_OSReleaseError :: "string option"

record about_tab =
  at_EC2 :: ec2_card
  at_Binary :: build_info
  at_OS :: os_card
  at_Server :: "si_error + server_info"
  at_Webhook :: webhook_status
  at_ClientStore :: "bool option"

fun is_not_on_ec2 :: "si_error \<Rightarrow> bool" where
  "is_not_on_ec2 ErrNotOnEC2 = True"
| "is_not_on_ec2 (ProbeFailed e) = True"
| "is_not_on_ec2 (SiJoin es) = list_ex is_not_on_ec2 es"
| "is_not_on_ec2 _ = False"

definition errs_of :: "(si_error + string) list \<Rightarrow> si_error list" where
  "errs_of rs = List.map_filter (\<lambda>r. case r of Inl e \<Rightarrow> Some e | Inr x \<Rightarrow> None) rs"

definition ec2_card_of :: "si_error + string \<Rightarrow> si_error + string \<Rightarrow> si_error + string \<Rightarrow> si_error + string \<Rightarrow> ec2_card" where
  "ec2_card_of ip ty az ami =
     (let es = errs_of [ip, ty, az, ami]
      in if list_ex is_not_on_ec2 es then EC2NotOn
         else if es \<noteq> [] then EC2Error (SiJoin es)
         else EC2Data (projr ip) (projr ty) (projr az) (projr ami))"

definition handleGetPartialAbout :: "'w page_env \<Rightarrow> ('w, about_tab) page" where
  "handleGetPartialAbout env a =
     (let store = (if app_Mode a = ''cloud'' then Some (StoreReady (app_Service a)) else None);
          (ip, a1) = on_info (EC2PublicIP (pe_info env)) a;
          (ty, a2) = on_info (InstanceType (pe_info env)) a1;
          (az, a3) = on_info (AvailabilityZone (pe_info env)) a2;
          (ami, a4) = on_info (AMIID (pe_info env)) a3;
          (info, a5) = on_info (serverinfo_Get (pe_info env)) a4;
          (release, rerr) = OSRelease (pe_osRelease env)
      in (\<lparr>at_EC2 = ec2_card_of ip ty az ami, at_Binary = si_Build (app_Info a),
           at_OS = \<lparr>oc_Kernel = Kernel (pe_uname env), oc_OSRelease = release, oc_OSReleaseError = rerr\<rparr>,
           at_Server = info, at_Webhook = webhookStatus (app_Webhook a), at_ClientStore = store\<rparr>, a5))"

subsection \<open>The box: the poller and the pages over the same parts\<close>

record 'w box =
  bx_App :: "'w app"
  bx_Poller :: poller

definition box_tick :: "(host_error \<Rightarrow> string) \<Rightarrow> host_view \<Rightarrow> 'w box \<Rightarrow> 'w box" where
  "box_tick msg v b =
     (let a = bx_App b;
          p = (bx_Poller b)\<lparr>p_DB := svc_db (app_Service a), p_StatusHolder := app_Status a\<rparr>;
          (s, p') = host_tick msg v (app_Proc a, p)
      in \<lparr>bx_App = a\<lparr>app_Proc := s, app_Service := (app_Service a)\<lparr>svc_db := p_DB p'\<rparr>, app_Status := p_StatusHolder p'\<rparr>,
          bx_Poller = p'\<rparr>)"

definition box_view :: "('w, 'a) page \<Rightarrow> 'w box \<Rightarrow> 'w box" where
  "box_view f b = b\<lparr>bx_App := snd (f (bx_App b))\<rparr>"

subsection \<open>What a request leaves alone\<close>

named_theorems page_simps

declare wg_show_db [simp del]

lemma on_simps [page_simps]:
  "on_service f a = (fst (f (app_Service a)), a\<lparr>app_Service := snd (f (app_Service a))\<rparr>)"
  "on_world g a = (fst (g (world (app_Service a))), a\<lparr>app_Service := (app_Service a)\<lparr>world := snd (g (world (app_Service a)))\<rparr>\<rparr>)"
  "on_db m a = (fst (m (svc_db (app_Service a))), a\<lparr>app_Service := (app_Service a)\<lparr>svc_db := snd (m (svc_db (app_Service a)))\<rparr>\<rparr>)"
  by (simp_all add: on_service_def on_world_def on_db_def split: prod.split)

lemma on_info_simp [page_simps]:
  "on_info k a = (case k (app_Info a, world (app_Service a)) of
     (r, si, w) \<Rightarrow> (r, a\<lparr>app_Info := si, app_Service := (app_Service a)\<lparr>world := w\<rparr>\<rparr>))"
  by (simp add: on_info_def)

lemma on_info_frame:
  "app_Proc (snd (on_info k a)) = app_Proc a" "svc_db (app_Service (snd (on_info k a))) = svc_db (app_Service a)"
  "app_Status (snd (on_info k a)) = app_Status a" "app_Webhook (snd (on_info k a)) = app_Webhook a"
  by (simp_all add: on_info_def split: prod.split)

lemma read_unit_frame:
  "app_Proc (snd (read_unit env a)) = app_Proc a" "svc_db (app_Service (snd (read_unit env a))) = svc_db (app_Service a)"
  "app_Status (snd (read_unit env a)) = app_Status a"
  by (simp_all add: read_unit_def page_simps)

lemma read_stats_simp [page_simps]:
  "read_stats env now a = (fst (proc_Sample (pe_files env) now (app_Proc a)), a\<lparr>app_Proc := snd (proc_Sample (pe_files env) now (app_Proc a))\<rparr>)"
  by (simp add: read_stats_def split: prod.split)

lemma show_frame: "svc_db (snd (wg_show env s)) = svc_db s"
  by (simp add: wg_show_def split: prod.split)

lemma view_samples:
  "app_Proc (snd (buildPageData env now a)) = snd (proc_Sample (pe_files env) now (app_Proc a))"
  "app_Proc (snd (handleGetSnapshot env now a)) = snd (proc_Sample (pe_files env) now (app_Proc a))"
  by (simp_all add: buildPageData_def handleGetSnapshot_def Let_def split_beta page_simps on_info_frame read_unit_frame del: on_info_simp)

lemma List_faults: "faults (svc_db s) = [] \<Longrightarrow> svc_db (snd (svc_List s)) = svc_db s"
  by (simp add: List_no_fault)

lemma view_db:
  assumes "faults (svc_db (app_Service a)) = []"
  shows "svc_db (app_Service (snd (buildPageData env now a))) = svc_db (app_Service a)"
  using assms
  by (simp add: buildPageData_def Let_def split_beta page_simps on_info_frame read_unit_frame show_frame List_faults del: on_info_simp)

subsection \<open>A tick after a view\<close>

lemma cached_cpu_frame [simp]:
  "p_lastCPUPct (snd (collect_traffic r p)) = p_lastCPUPct p" "p_lastCPUPct (collect_peers r p) = p_lastCPUPct p"
  "p_lastCPUPct (snd (collect_handshakes r p)) = p_lastCPUPct p" "p_lastCPUPct (evaluateAlerts ar p) = p_lastCPUPct p"
  by (auto simp: collect_traffic_def collect_peers_def recordPeerMetrics_def collect_handshakes_def poll_db_def Let_def
      evaluateAlerts_def finish_alerts_def recordDiskMetrics_def recordServiceMetric_def
      split: sum.splits prod.splits option.splits)

lemma system_rows_frame:
  "system_metrics (fold put_client_traffic rows t) = system_metrics t" "system_metrics (fold put_handshake es t) = system_metrics t"
proof -
  show "system_metrics (fold put_client_traffic rows t) = system_metrics t"
    by (induction rows arbitrary: t) (simp_all add: put_client_traffic_def)
  show "system_metrics (fold put_handshake es t) = system_metrics t"
    by (induction es arbitrary: t) (simp_all add: put_handshake_def)
qed

lemma tick_row:
  assumes "faults (p_DB p) = []" and "rd_stats r = Inr st"
  shows "(unix_secs (rd_now r), st_CPUPercent st, st_MemUsedPercent st) \<in> set (system_metrics (tabs (p_DB (sample_tick r ar p))))"
    "p_lastCPUPct (sample_tick r ar p) = st_CPUPercent st" "faults (p_DB (sample_tick r ar p)) = []"
proof -
  have d: "p_DB (sample_tick r ar p) = (p_DB p)\<lparr>tabs := fold put_handshake (emitted r p) (fold put_client_traffic (traffic_rows r) (stats_rows r (tabs (p_DB p))))\<rparr>"
    using collect_no_fault [OF assms(1), of r] by (simp add: sample_tick_def evaluateAlerts_frame)
  show "(unix_secs (rd_now r), st_CPUPercent st, st_MemUsedPercent st) \<in> set (system_metrics (tabs (p_DB (sample_tick r ar p))))"
    unfolding d by (simp add: system_rows_frame stats_rows_def assms(2) replace_row_def)
  show "faults (p_DB (sample_tick r ar p)) = []" using assms(1) by (simp add: d)
  show "p_lastCPUPct (sample_tick r ar p) = st_CPUPercent st"
    using assms(2) by (simp add: sample_tick_def collect_def Let_def split_beta)
       (simp add: collect_stats_def Let_def split_beta poll_db_def recordHostMetrics_def split: prod.split sum.split)
qed

text \<open>The row of a tick, the reading its alerts use, and the busy share of a host between two states.\<close>

definition busy_share :: "host_state \<Rightarrow> host_state \<Rightarrow> rat" where
  "busy_share h h' =
     100 * (1 - of_nat (idle_jiffies h' - idle_jiffies h) / of_nat (sum_list (k_cpu h') - sum_list (k_cpu h)))"

definition tick_shows :: "host_view \<Rightarrow> rat \<Rightarrow> 'w box \<Rightarrow> bool" where
  "tick_shows v x b \<longleftrightarrow>
     (\<exists>mem. (unix_secs (hv_now v), p_lastCPUPct (bx_Poller b), mem) \<in> set (system_metrics (tabs (svc_db (app_Service (bx_App b)))))) \<and>
     \<bar>p_lastCPUPct (bx_Poller b) - x\<bar> \<le> 1 / 10 ^ 9"

definition quiet_box :: "'w box \<Rightarrow> bool" where
  "quiet_box b \<longleftrightarrow> faults (svc_db (app_Service (bx_App b))) = [] \<and> default_paths (app_Proc (bx_App b))"

lemma paths_kept: "default_paths (snd (proc_Sample rd now s)) = default_paths s"
  by (auto simp: proc_Sample_def default_paths_def split: sum.split prod.split)

lemma box_tick_runs:
  assumes "quiet_box b"
  shows "app_Proc (bx_App (box_tick msg v b)) = snd (proc_Sample (hv_files v) (hv_sampled v) (app_Proc (bx_App b)))"
    "fst (proc_Sample (hv_files v) (hv_sampled v) (app_Proc (bx_App b))) = Inr st \<Longrightarrow>
      quiet_box (box_tick msg v b) \<and> (\<bar>st_CPUPercent st - x\<bar> \<le> 1 / 10 ^ 9 \<longrightarrow> tick_shows v x (box_tick msg v b))"
proof -
  let ?s = "app_Proc (bx_App b)"
  let ?p = "(bx_Poller b)\<lparr>p_DB := svc_db (app_Service (bx_App b)), p_StatusHolder := app_Status (bx_App b)\<rparr>"
  obtain r s' where r: "host_reads msg v ?s = (r, s')" by fastforce
  then have s': "s' = snd (proc_Sample (hv_files v) (hv_sampled v) ?s)"
    by (auto simp: host_reads_def split: prod.splits)
  have t: "host_tick msg v (?s, ?p) = (s', sample_tick r (host_alert_reads msg v) ?p)" by (simp add: host_tick_def r)
  show "app_Proc (bx_App (box_tick msg v b)) = snd (proc_Sample (hv_files v) (hv_sampled v) ?s)"
    by (simp add: box_tick_def Let_def t s')
  assume i: "fst (proc_Sample (hv_files v) (hv_sampled v) ?s) = Inr st"
  then have rs: "rd_stats r = Inr (proc_stats.truncate st)" "rd_now r = hv_now v"
    using r by (auto simp: host_reads_def split: prod.splits)
  have f: "faults (p_DB ?p) = []" using assms by (simp add: quiet_box_def)
  note row = tick_row [OF f rs(1), of "host_alert_reads msg v"]
  have c: "st_CPUPercent (proc_stats.truncate st) = st_CPUPercent st" by (simp add: proc_stats.truncate_def)
  show "quiet_box (box_tick msg v b) \<and> (\<bar>st_CPUPercent st - x\<bar> \<le> 1 / 10 ^ 9 \<longrightarrow> tick_shows v x (box_tick msg v b))"
    using row assms by (auto simp: quiet_box_def tick_shows_def box_tick_def Let_def t s' paths_kept c rs(2))
qed

lemma box_view_quiet:
  assumes "quiet_box b"
  shows "quiet_box (box_view (buildPageData env now) b)"
    "app_Proc (bx_App (box_view (buildPageData env now) b)) = snd (proc_Sample (pe_files env) now (app_Proc (bx_App b)))"
proof -
  let ?a = "snd (buildPageData env now (bx_App b))"
  show a: "app_Proc (bx_App (box_view (buildPageData env now) b)) = snd (proc_Sample (pe_files env) now (app_Proc (bx_App b)))"
    by (simp add: box_view_def view_samples)
  have f: "faults (svc_db (app_Service (bx_App b))) = []" using assms by (simp add: quiet_box_def)
  show "quiet_box (box_view (buildPageData env now) b)"
    using assms view_db [OF f, of env now] by (simp add: quiet_box_def box_view_def view_samples paths_kept)
qed

text \<open>A tick after any reader of the statistics shows the share since that reader.\<close>

lemma tick_since:
  assumes "kernel_host h" and "kernel_host h'" and "ran_on h h'" and "quiet_box b" and "default_paths s" and "\<not> is_zero t"
    and "app_Proc (bx_App b) = snd (proc_Sample (kernel_files h) t s)" and "hv_files v = kernel_files h'"
  shows "tick_shows v (busy_share h h') (box_tick msg v b)"
proof -
  obtain st where "fst (proc_Sample (hv_files v) (hv_sampled v) (app_Proc (bx_App b))) = Inr st"
    "\<bar>st_CPUPercent st - busy_share h h'\<bar> \<le> 1 / 10 ^ 9"
    using second_sample_shows [OF assms(1-3,5,6), of "hv_sampled v"] by (auto simp: busy_share_def assms(7,8))
  with box_tick_runs(2) [OF assms(4) this(1)] show ?thesis by blast
qed

section \<open>Properties\<close>

text \<open>
  C38. A view of the overview page between two ticks takes the window of the second tick: the row the
  tick stores, and the reading its alerts are judged by, show how busy the processors were since the
  view and not since the tick before, whatever they did until the view. Without the view they show
  the whole time between the ticks.
\<close>

theorem page_view_takes_the_window:
  assumes "kernel_host h1" and "kernel_host h2" and "kernel_host h3" and "ran_on h1 h3" and "ran_on h2 h3"
    and "hv_files v1 = kernel_files h1" and "pe_files env = kernel_files h2" and "hv_files v3 = kernel_files h3"
    and "\<not> is_zero (hv_sampled v1)" and "\<not> is_zero t2" and "quiet_box b"
  shows "tick_shows v3 (busy_share h1 h3) (box_tick msg v3 (box_tick msg v1 b)) \<and>
    tick_shows v3 (busy_share h2 h3) (box_tick msg v3 (box_view (buildPageData env t2) (box_tick msg v1 b)))"
proof -
  have p: "default_paths (app_Proc (bx_App b))" using assms(11) by (simp add: quiet_box_def)
  obtain st where st: "fst (proc_Sample (hv_files v1) (hv_sampled v1) (app_Proc (bx_App b))) = Inr st"
    using Sample_kernel [OF assms(1) p] by (simp add: assms(6))
  note b1 = box_tick_runs(1) [OF assms(11), of msg v1] conjunct1 [OF box_tick_runs(2) [OF assms(11) st, of msg]]
  have p1: "default_paths (app_Proc (bx_App (box_tick msg v1 b)))" using b1(2) by (simp add: quiet_box_def)
  note b2 = box_view_quiet [OF b1(2), of env t2]
  show ?thesis
    using tick_since [OF assms(1,3,4) b1(2) p assms(9) _ assms(8), of msg] b1(1)
      tick_since [OF assms(2,3,5) b2(1) p1 assms(10) _ assms(8), of msg] b2(2)
    by (simp add: assms(6,7))
qed

text \<open>A host that works for a minute and rests for a second, with a page opened in between.\<close>

definition rested_host :: host_state where
  "rested_host = early_host\<lparr>k_cpu := [150, 0, 60, 900, 15, 0, 10, 0, 0, 0]\<rparr>"

definition quiet_app :: "unit app" where
  "quiet_app =
     \<lparr>app_Service = NewService one_client [] (), app_Info = named_box, app_Proc = proc_New, app_Processes = processes_New,
      app_Status = None, app_Webhook = None, app_Mode = ''local''\<rparr>"

definition host_env :: "host_state \<Rightarrow> unit page_env" where
  "host_env h =
     \<lparr>pe_api = no_wg, pe_info = \<lparr>si_do = (\<lambda>q w. (Inl ''timeout'', w)), si_run = (\<lambda>c w. (Inr ''KEY'', w))\<rparr>,
      pe_unit = (\<lambda>c w. (UnitFailed ''no bus'', w)), pe_timeParse = (\<lambda>l s. Inl ''no clock''), pe_files = kernel_files h,
      pe_statfs = (\<lambda>p. Inl ''no''), pe_readDir = (\<lambda>p. Inl ''no''), pe_users = None, pe_sort = (\<lambda>ps. ps), pe_cpus = 1,
      pe_uname = None, pe_osRelease = None\<rparr>"

definition quiet_poll :: "unit box" where
  "quiet_poll = \<lparr>bx_App = quiet_app, bx_Poller = New (open_db []) None None\<rparr>"

lemma rested: "kernel_host rested_host" "ran_on early_host rested_host" "ran_on late_host rested_host"
  "busy_share late_host rested_host = 0" "busy_share early_host rested_host = 3900 / 102"
  by (simp_all add: kernel_host_def ran_on_def rested_host_def late_host_def early_host_def busy_share_def idle_jiffies_def)

lemma quiet_poll_quiet: "quiet_box quiet_poll"
  by (simp add: quiet_box_def quiet_poll_def quiet_app_def NewService_def one_client_def two_hosts(4))

theorem page_view_takes_the_window_witness:
  "let v1 = late_view early_host second; v3 = late_view rested_host (31 * second);
       b = box_tick (\<lambda>e. ''error'') v1 quiet_poll
   in tick_shows v3 (3900 / 102) (box_tick (\<lambda>e. ''error'') v3 b) \<and>
      tick_shows v3 0 (box_tick (\<lambda>e. ''error'') v3 (box_view (buildPageData (host_env late_host) (30 * second)) b))"
proof -
  have t: "\<not> is_zero (hv_sampled (late_view early_host second))" "\<not> is_zero (30 * second)"
    by (simp_all add: late_view_def is_zero_def zero_time_def second_def)
  have f: "hv_files (late_view h u) = kernel_files h" "pe_files (host_env h) = kernel_files h" for h u
    by (simp_all add: late_view_def host_env_def)
  show ?thesis
    using page_view_takes_the_window [OF two_hosts(1,2) rested(1-3) f(1) f(2) f(1) t quiet_poll_quiet]
    unfolding rested(4,5) Let_def .
qed

text \<open>
  What the transport, the commands and the other readers do to the rest of the world: nothing, as
  they only read.
\<close>

definition only_reads :: "'w page_env \<Rightarrow> bool" where
  "only_reads env \<longleftrightarrow>
     (\<forall>q w. snd (si_do (pe_info env) q w) = w) \<and> (\<forall>c w. snd (si_run (pe_info env) c w) = w) \<and>
     (\<forall>c w. snd (pe_unit env c w) = w) \<and> (\<forall>c w. snd (ae_run (pe_api env) c w) = w)"

lemma reads_send: "only_reads env \<Longrightarrow> send (pe_info env) m u hs t w = (r, w') \<Longrightarrow> w' = w"
  by (auto simp: only_reads_def send_def split: prod.splits sum.splits if_splits) (metis snd_conv)+

lemma reads_fetch:
  assumes "only_reads env"
  shows "fetch_value (pe_info env) m u hs w = (r, w') \<Longrightarrow> w' = w"
  by (auto simp: fetch_value_def split: prod.splits sum.splits dest!: reads_send [OF assms])

lemma reads_metadata:
  assumes "only_reads env"
  shows "metadata (pe_info env) u w = (r, w') \<Longrightarrow> w' = w"
  by (auto simp: metadata_def fetchToken_def split: prod.splits sum.splits dest!: reads_fetch [OF assms])

lemma reads_probe:
  assumes "only_reads env"
  shows "onEC2 (pe_info env) (s, w) = (r, s', w') \<Longrightarrow> w' = w"
  by (auto simp: onEC2_def defaultEC2Probe_def split: prod.splits sum.splits option.splits if_splits dest!: reads_send [OF assms])

lemma reads_resolve:
  assumes "only_reads env"
  shows "resolvePublicIP (pe_info env) (s, w) = (r, s', w') \<Longrightarrow> w' = w"
  by (auto simp: resolvePublicIP_def Let_def lift_world_def imds_PublicIP_def echo_client_def
      split: prod.splits bool.splits option.splits sum.splits if_splits dest!: reads_probe [OF assms] reads_metadata [OF assms] reads_send [OF assms])

lemma reads_key: "only_reads env \<Longrightarrow> fetchServerPublicKey (pe_info env) w = (r, w') \<Longrightarrow> w' = w"
  by (auto simp: only_reads_def fetchServerPublicKey_def split: prod.splits sum.splits cmd_error.splits if_splits)
    (metis snd_conv)+

lemma reads_Get:
  assumes "only_reads env"
  shows "serverinfo_Get (pe_info env) (s, w) = (r, s', w') \<Longrightarrow> w' = w"
  by (auto simp: serverinfo_Get_def lift_world_def split: prod.splits sum.splits dest!: reads_resolve [OF assms] reads_key [OF assms])

lemma reads_unit:
  assumes "only_reads env"
  shows "snd (systemd_Get (pe_unit env) tp u w) = w"
proof -
  have r: "pe_unit env c w = (x, w') \<Longrightarrow> w' = w" for c w x w'
    using assms unfolding only_reads_def by (metis snd_conv)
  show ?thesis
    by (auto simp: systemd_Get_def fetchState_def fetchActiveEnterTimestamp_def Let_def
        split: prod.split sum.split unit_run.split dest!: r)
qed

lemma reads_show:
  assumes "only_reads env"
  shows "snd (wg_show (pe_api env) s) = s"
proof -
  have r: "ae_run (pe_api env) c w = (x, w') \<Longrightarrow> w' = w" for c w x w'
    using assms unfolding only_reads_def by (metis snd_conv)
  have "snd (Show (ae_run (pe_api env)) (ae_iface (pe_api env)) w) = w" for w
    by (auto simp: Show_def Let_def split: prod.split sum.split cmd_error.split dest!: r)
  then show ?thesis by (simp add: wg_show_def split_beta)
qed

lemma reads_info_page:
  assumes "only_reads env"
  shows "app_Service (snd (on_info (serverinfo_Get (pe_info env)) a)) = app_Service a"
  using reads_Get [OF assms, of "app_Info a" "world (app_Service a)"]
  by (auto simp: on_info_def split: prod.split)

lemma reads_unit_page:
  assumes "only_reads env"
  shows "app_Service (snd (read_unit env a)) = app_Service a"
  by (simp add: read_unit_def page_simps reads_unit [OF assms])

subsection \<open>The four lists of clients\<close>

lemma page_lists:
  assumes "only_reads env"
  shows "pd_ClientRows (fst (buildPageData env now a)) = td_Rows (fst (buildClientsTabData (pe_api env) now (app_Service a)))"
    "pd_ClientsError (fst (buildPageData env now a)) = td_Error (fst (buildClientsTabData (pe_api env) now (app_Service a)))"
    "sr_Clients (fst (handleGetSnapshot env now a)) = td_Rows (fst (buildClientsTabData (pe_api env) now (app_Service a)))"
    "sr_ClientsError (fst (handleGetSnapshot env now a)) = td_Error (fst (buildClientsTabData (pe_api env) now (app_Service a)))"
  by (simp_all add: buildPageData_def handleGetSnapshot_def buildClientsTabData_def Let_def split_beta page_simps
      reads_info_page [OF assms] reads_unit_page [OF assms] rows_of_def joined_def err_of_def
      del: on_info_simp split: sum.split)

lemma api_list:
  assumes "td_Error (fst (buildClientsTabData env now s)) = None"
  shows "fst (handleGetClients env now s) = (200, RowsJson (td_Rows (fst (buildClientsTabData env now s))))"
  using assms by (auto simp: buildClientsTabData_def handleGetClients_def split: prod.splits sum.splits)

lemma api_list_error:
  assumes "td_Error (fst (buildClientsTabData env now s)) \<noteq> None"
  shows "fst (fst (handleGetClients env now s)) = 500" "td_Rows (fst (buildClientsTabData env now s)) = []"
  using assms by (auto simp: buildClientsTabData_def handleGetClients_def split: prod.splits sum.splits)

lemma page_count:
  "pd_ClientCount (fst (buildPageData env now a)) =
    \<lparr>cc_Online = length (filter (\<lambda>r. rv_Status r = ''online'') (pd_ClientRows (fst (buildPageData env now a)))),
     cc_Total = length (pd_ClientRows (fst (buildPageData env now a)))\<rparr>"
  by (simp add: buildPageData_def Let_def split_beta)

text \<open>
  The overview, the clients tab, the snapshot and the list of the API show the same rows at the same
  moment, and fail together; the count on the overview is the count of those rows, with as many
  online as the rows say.
\<close>

theorem views_agree:
  assumes "only_reads env"
  shows "let page = fst (buildPageData env now a); tab = fst (buildClientsTabData (pe_api env) now (app_Service a));
             snap = fst (handleGetSnapshot env now a); api = fst (handleGetClients (pe_api env) now (app_Service a))
    in pd_ClientRows page = td_Rows tab \<and> sr_Clients snap = td_Rows tab \<and>
       pd_ClientsError page = td_Error tab \<and> sr_ClientsError snap = td_Error tab \<and>
       (if td_Error tab = None then api = (200, RowsJson (td_Rows tab)) else fst api = 500 \<and> td_Rows tab = []) \<and>
       cc_Total (pd_ClientCount page) = length (td_Rows tab) \<and>
       cc_Online (pd_ClientCount page) = length (filter (\<lambda>r. rv_Status r = ''online'') (td_Rows tab))"
  using page_lists [OF assms, of now a] api_list [of "pe_api env" now "app_Service a"]
    api_list_error [of "pe_api env" now "app_Service a"]
  by (simp add: Let_def page_count)

theorem views_agree_witness:
  "pd_ClientRows (fst (buildPageData (host_env early_host) second quiet_app)) =
     td_Rows (fst (buildClientsTabData no_wg second (app_Service quiet_app))) \<and>
   fst (handleGetClients no_wg second (app_Service quiet_app)) =
     (200, RowsJson (td_Rows (fst (buildClientsTabData no_wg second (app_Service quiet_app)))))"
proof -
  have r: "only_reads (host_env early_host)" "pe_api (host_env early_host) = no_wg"
    by (simp_all add: only_reads_def host_env_def no_wg_def)
  have sh: "Show (ae_run no_wg) (ae_iface no_wg) w = (Inr [], w)" for w
  proof -
    have "dump_lines [] = []" by (simp add: dump_lines_def)
    then show ?thesis by (simp add: Show_def no_wg_def)
  qed
  have "faults (svc_db (app_Service quiet_app)) = []" by (simp add: quiet_app_def NewService_def one_client_def)
  then have "td_Error (fst (buildClientsTabData no_wg second (app_Service quiet_app))) = None"
    by (simp add: buildClientsTabData_def List_no_fault wg_show_def sh)
  with views_agree [OF r(1), of second quiet_app] show ?thesis unfolding r(2) Let_def by simp
qed

subsection \<open>The traffic of a window\<close>

fun moved_bytes :: "int list \<Rightarrow> int" where
  "moved_bytes (x # y # xs) = max 0 (y - x) + moved_bytes (y # xs)"
| "moved_bytes _ = 0"

lemma moved_bytes_nonneg: "0 \<le> moved_bytes xs"
  by (induction xs rule: moved_bytes.induct) simp_all

lemma moved_bytes_span: "xs \<noteq> [] \<Longrightarrow> last xs - hd xs \<le> moved_bytes xs"
  by (induction xs rule: moved_bytes.induct) auto

lemma moved_bytes_sorted: "sorted xs \<Longrightarrow> xs \<noteq> [] \<Longrightarrow> moved_bytes xs = last xs - hd xs"
  by (induction xs rule: moved_bytes.induct) auto

lemma clamp_exact: "0 \<le> x \<Longrightarrow> x < 2 ^ 63 \<Longrightarrow> 0 \<le> y \<Longrightarrow> y < 2 ^ 63 \<Longrightarrow> clamp_delta y x = max 0 (y - x)"
  by (auto simp: clamp_delta_def Let_def i64_id in_i64_def)

definition traffic_window :: "time \<Rightarrow> time \<Rightarrow> tables \<Rightarrow> (int \<times> int \<times> int) list" where
  "traffic_window from to t = sort_key fst (filter (\<lambda>r. between from to (fst r)) (traffic_metrics t))"

definition counter_ok :: "int \<Rightarrow> bool" where
  "counter_ok x \<longleftrightarrow> 0 \<le> x \<and> x < 2 ^ 63"

lemma read_netdev_db: "svc_db (app_Service (snd (read_netdev env a))) = svc_db (app_Service a)"
  by (auto simp: read_netdev_def page_simps show_frame split: sum.split)

definition row_metric :: "int \<times> int \<times> int \<Rightarrow> traffic_metric" where
  "row_metric r = \<lparr>tm_TS = unix_time (fst r), tm_RxBytesCum = fst (snd r), tm_TxBytesCum = snd (snd r)\<rparr>"

lemma aggregate_card_of:
  assumes "list_all (\<lambda>r. counter_ok (fst (snd r)) \<and> counter_ok (snd (snd r))) rows" and "rows \<noteq> []"
  shows "aggregate_of r (Inr (map row_metric rows)) =
    \<lparr>ag_Range = r, ag_RxBytesDelta = max 0 (fst (snd (last rows)) - fst (snd (hd rows))),
     ag_TxBytesDelta = max 0 (snd (snd (last rows)) - snd (snd (hd rows))), ag_Error = None\<rparr>"
proof -
  have "counter_ok (fst (snd (last rows)))" "counter_ok (fst (snd (hd rows)))" "counter_ok (snd (snd (last rows)))"
    "counter_ok (snd (snd (hd rows)))"
    using assms last_in_set [OF assms(2)] hd_in_set [OF assms(2)] by (auto simp: list_all_iff)
  then have c: "clamp_delta (fst (snd (last rows))) (fst (snd (hd rows))) = max 0 (fst (snd (last rows)) - fst (snd (hd rows)))"
    "clamp_delta (snd (snd (last rows))) (snd (snd (hd rows))) = max 0 (snd (snd (last rows)) - snd (snd (hd rows)))"
    by (simp_all add: counter_ok_def clamp_exact)
  show ?thesis
  proof (cases "2 \<le> length rows")
    case True
    have l: "last (map row_metric rows) = row_metric (last rows)" "hd (map row_metric rows) = row_metric (hd rows)"
      using assms(2) by (simp_all add: last_map hd_map)
    show ?thesis using True by (simp add: aggregate_of_def l c) (simp add: row_metric_def c)
  next
    case False
    with assms(2) obtain x where "rows = [x]" by (cases rows; cases "tl rows") auto
    then show ?thesis by (simp add: aggregate_of_def)
  qed
qed

lemma query_traffic:
  assumes "faults d = []"
  shows "QueryTrafficMetrics from to d = (Inr (map row_metric (traffic_window from to (tabs d))), d)"
  unfolding QueryTrafficMetrics_def db_query_no_fault [OF assms]
  by (simp add: traffic_window_def row_metric_def split_beta)

text \<open>
  C40. The traffic line of the network tab shows the growth of the counters over the window. That is the
  bytes moved between its readings when no counter was reset, and never more than them; after a
  reset it is what the counter shows beyond its first reading, and nothing when that is less.
\<close>

theorem aggregate_traffic:
  assumes "faults (svc_db (app_Service a)) = []" and "rangeEnumMap (range_or_default q) = Some d"
    and "rows = traffic_window (now - d) now (tabs (svc_db (app_Service a)))" and "rows \<noteq> []"
    and "list_all (\<lambda>r. counter_ok (fst (snd r)) \<and> counter_ok (snd (snd r))) rows"
  shows "\<exists>data a'. handleGetPartialNetwork env now q a = (Inr data, a') \<and>
    (let card = nt_Aggregate data; rx = map (fst \<circ> snd) rows; tx = map (snd \<circ> snd) rows
     in ag_Error card = None \<and>
        ag_RxBytesDelta card = max 0 (last rx - hd rx) \<and> ag_TxBytesDelta card = max 0 (last tx - hd tx) \<and>
        ag_RxBytesDelta card \<le> moved_bytes rx \<and> ag_TxBytesDelta card \<le> moved_bytes tx \<and>
        (sorted rx \<longrightarrow> ag_RxBytesDelta card = moved_bytes rx) \<and> (sorted tx \<longrightarrow> ag_TxBytesDelta card = moved_bytes tx))"
proof -
  let ?r = "range_or_default q" and ?rx = "map (fst \<circ> snd) rows" and ?tx = "map (snd \<circ> snd) rows"
  have "svc_db (app_Service (snd (read_netdev env (snd (read_stats env now a))))) = svc_db (app_Service a)"
    by (simp add: read_netdev_db read_stats_simp)
  then have h: "\<exists>data a'. handleGetPartialNetwork env now q a = (Inr data, a') \<and> nt_Aggregate data = aggregate_of ?r (Inr (map row_metric rows))"
    using assms(1,2) query_traffic [OF assms(1)]
    by (simp add: handleGetPartialNetwork_def parseRangeParam_def Let_def split_beta on_simps(3) assms(3))
  have l: "last ?rx = fst (snd (last rows))" "hd ?rx = fst (snd (hd rows))" "last ?tx = snd (snd (last rows))" "hd ?tx = snd (snd (hd rows))"
    using assms(4) by (simp_all add: last_map hd_map)
  have m: "max 0 (last xs - hd xs) \<le> moved_bytes xs" "sorted xs \<Longrightarrow> max 0 (last xs - hd xs) = moved_bytes xs" if "xs \<noteq> []" for xs
    using moved_bytes_nonneg [of xs] moved_bytes_span [OF that] moved_bytes_sorted [OF _ that] by auto
  have "?rx \<noteq> []" "?tx \<noteq> []" using assms(4) by simp_all
  note m(1) [OF this(1)] m(2) [OF this(1)] m(1) [OF this(2)] m(2) [OF this(2)]
  with h show ?thesis unfolding aggregate_card_of [OF assms(5,4)] Let_def l by auto
qed

definition bounced_app :: "unit app" where
  "bounced_app = quiet_app\<lparr>app_Service := NewService ((open_db [])\<lparr>tabs := empty_tables\<lparr>traffic_metrics :=
     [(160, 200, 90), (100, 100, 10), (120, 500, 20), (140, 50, 30)]\<rparr>\<rparr>) [] ()\<rparr>"

theorem aggregate_traffic_witness:
  "\<exists>data a'. handleGetPartialNetwork (host_env early_host) (unix_time 200) ''1h'' bounced_app = (Inr data, a') \<and>
    ag_RxBytesDelta (nt_Aggregate data) = 100 \<and> ag_TxBytesDelta (nt_Aggregate data) = 80"
proof -
  have f: "faults (svc_db (app_Service bounced_app)) = []" "rangeEnumMap (range_or_default ''1h'') = Some hour"
    by (simp_all add: bounced_app_def NewService_def open_db_def rangeEnumMap_def range_or_default_def)
  have w: "[(100, 100, 10), (120, 500, 20), (140, 50, 30), (160, 200, 90)] =
      traffic_window (unix_time 200 - hour) (unix_time 200) (tabs (svc_db (app_Service bounced_app)))"
    by (simp add: traffic_window_def bounced_app_def NewService_def between_def unix_secs_def unix_time_def hour_def minute_def second_def)
  show ?thesis
    using aggregate_traffic [OF f w, of "host_env early_host"] by (auto simp: counter_ok_def Let_def)
qed

subsection \<open>The names of the events\<close>

lemma index_by_listed:
  assumes "tables_ok t" and "c \<in> set (listed t)"
  shows "index_by PublicKey (listed t) (PublicKey c) = Some c"
proof -
  have "clients_ok (clients t) (client_seq t)" using assms(1) by (simp add: tables_ok_def)
  then have "distinct (map PublicKey (listed t))" by (rule listed_distinct(2))
  from find_distinct [OF this assms(2)] index_by_find [OF this] show ?thesis by simp
qed


text \<open>A client that was renamed since its handshake was stored, and a peer that is gone.\<close>

definition renamed_app :: "unit app" where
  "renamed_app = quiet_app\<lparr>app_Service := NewService (one_client\<lparr>tabs := (tabs one_client)\<lparr>handshake_events :=
     [((5, ''K1''), ''old''), ((9, ''K1''), ''old''), ((7, ''GONEGONEGONE=''), ''eve'')]\<rparr>\<rparr>) [] ()\<rparr>"


subsection \<open>Off the cloud\<close>

text \<open>Once the probe has failed, the about page asks the metadata service for nothing.\<close>

lemma about_off_ec2:
  assumes "ec2_once (app_Info a) = Some False"
  shows "at_EC2 (fst (handleGetPartialAbout env a)) = EC2NotOn"
    "snd (handleGetPartialAbout env a) = snd (on_info (serverinfo_Get (pe_info env)) a)"
proof -
  have off: "only_on_ec2 e f (app_Info a, w) = (Inl ErrNotOnEC2, app_Info a, w)" for e :: "'a si_env" and f w
    using assms by (rule only_on_ec2_off)
  have e: "on_info (EC2PublicIP (pe_info env)) a = (Inl ErrNotOnEC2, a)" "on_info (InstanceType (pe_info env)) a = (Inl ErrNotOnEC2, a)"
    "on_info (AvailabilityZone (pe_info env)) a = (Inl ErrNotOnEC2, a)" "on_info (AMIID (pe_info env)) a = (Inl ErrNotOnEC2, a)"
    by (simp_all add: on_info_def EC2PublicIP_def InstanceType_def AvailabilityZone_def AMIID_def off)
  show "at_EC2 (fst (handleGetPartialAbout env a)) = EC2NotOn"
    "snd (handleGetPartialAbout env a) = snd (on_info (serverinfo_Get (pe_info env)) a)"
    by (simp_all add: handleGetPartialAbout_def Let_def e split_beta ec2_card_of_def errs_of_def List.map_filter_def)
qed

text \<open>
  A failure of the metrics database never costs the service endpoint its status, and only a failed
  read of the unit does.
\<close>

lemma service_status_first:
  "fst (fst (handleGetService env now a)) = 500 \<longleftrightarrow> (\<exists>e. fst (read_unit env a) = Inl e)"
  by (auto simp: handleGetService_def split: prod.split sum.split)

end
