(* ===== verification/Spec2Isabelle.thy ===== *)
theory Spec2Isabelle
  imports Service Alerts GoFmt WgConfig WgSync Live WgShow GoUrl Notify Poller GoFloat History Mcp ServerFmt ClientRows ClientsApi GoText GoNum PromText PromRead Proc HostPoll GoDuration MetricsApi Boot Procs ServerInfo ConfigApi WebhookApi Geo Pages
begin

text \<open>
  A verification development of the WireGuard dashboard.
\<close>

end
